(* ===== verification/Go_Prelude.thy ===== *)
theory Go_Prelude
  imports Main "HOL-Library.Word" "HOL-Library.Monad_Syntax"
begin

text \<open>
  Prelude: the part of Go and of its standard library that the protocol packages use.

  \<^item> A \<open>[]byte\<close> or a Go \<open>string\<close> is a list of 8-bit words; \<open>uint16\<close>, \<open>uint32\<close> and \<open>uint64\<close>
    are words of their width, so that additions and conversions wrap as in Go.
  \<^item> A Go computation that may panic has type \<open>'a go\<close>, that is \<open>'a option\<close>: \<open>None\<close> is a run-time
    panic (index or slice out of range, write to a nil map), \<open>Some\<close> a normal return.  Go's error
    results are ordinary values inside \<open>Some\<close>.
  \<^item> Indexing, slicing, element assignment, \<open>copy\<close> and the \<open>encoding/binary\<close> accessors are
    the functions \<open>idx\<close>, \<open>slice\<close>, \<open>upd\<close>, \<open>copy_at\<close>, \<open>put_at\<close>, \<open>be_*\<close> and \<open>le_*\<close>.  Slices are modelled with
    capacity equal to length, so \<open>slice\<close> panics whenever the upper bound exceeds the length.
\<close>

unbundle bit_operations_syntax

type_synonym byte = "8 word"
type_synonym bytes = "byte list"
type_synonym 'a go = "'a option"

named_theorems go_defs \<open>definitions of the Go primitives\<close>
named_theorems wire \<open>round trips of the fixed-width wire encodings\<close>

subsection \<open>Slices\<close>

definition idx :: "'a list \<Rightarrow> nat \<Rightarrow> 'a go" where
  "idx xs i = (if i < length xs then Some (xs ! i) else None)"

definition slice :: "'a list \<Rightarrow> nat \<Rightarrow> nat \<Rightarrow> 'a list go" where
  "slice xs i j = (if i \<le> j \<and> j \<le> length xs then Some (take (j - i) (drop i xs)) else None)"

definition slice_from :: "'a list \<Rightarrow> nat \<Rightarrow> 'a list go" where
  "slice_from xs i = slice xs i (length xs)"

definition upd :: "'a list \<Rightarrow> nat \<Rightarrow> 'a \<Rightarrow> 'a list go" where
  "upd xs i v = (if i < length xs then Some (xs[i := v]) else None)"

text \<open>\<open>put_at xs i ys\<close> writes all of \<open>ys\<close> into \<open>xs[i : i+len(ys)]\<close>, as \<open>PutUint32\<close> and its kin do.\<close>

definition put_at :: "'a list \<Rightarrow> nat \<Rightarrow> 'a list \<Rightarrow> 'a list go" where
  "put_at xs i ys =
     (if i + length ys \<le> length xs
      then Some (take i xs @ ys @ drop (i + length ys) xs) else None)"

text \<open>\<open>copy(xs[i:], ys)\<close>: copies as much of \<open>ys\<close> as fits.\<close>

definition copy_at :: "'a list \<Rightarrow> nat \<Rightarrow> 'a list \<Rightarrow> 'a list go" where
  "copy_at xs i ys =
     (if i \<le> length xs
      then Some (take i xs @ take (length xs - i) ys @ drop (i + length ys) xs) else None)"

declare idx_def [go_defs] slice_def [go_defs] slice_from_def [go_defs] upd_def [go_defs]
  put_at_def [go_defs] copy_at_def [go_defs]

lemma idx_Cons [simp]:
  "idx (x # xs) 0 = Some x" "idx (x # xs) (Suc n) = idx xs n"
  "idx (x # xs) (Suc 0) = idx xs 0" "idx (x # xs) (numeral k) = idx xs (pred_numeral k)"
  by (simp_all add: idx_def nth_Cons_numeral less_Suc_eq_0_disj numeral_eq_Suc)

lemma slice_app [simp]:
  "slice (xs @ ys @ zs) (length xs) (length xs + length ys) = Some ys"
  by (simp add: slice_def)

lemma slice_0_app [simp]: "slice (xs @ ys) 0 (length xs) = Some xs"
  by (simp add: slice_def)

lemma slice_from_app [simp]: "slice_from (xs @ ys) (length xs) = Some ys"
  by (simp add: slice_from_def slice_def)

lemma slice_SomeD: "slice xs i j = Some ys \<Longrightarrow> i \<le> j \<and> j \<le> length xs \<and> length ys = j - i"
  by (auto simp: slice_def split: if_splits)

lemma length_upd: "upd xs i v = Some ys \<Longrightarrow> length ys = length xs"
  by (auto simp: upd_def split: if_splits)

lemma length_put_at: "put_at xs i ys = Some zs \<Longrightarrow> length zs = length xs"
  by (auto simp: put_at_def split: if_splits)

lemma length_copy_at: "copy_at xs i ys = Some zs \<Longrightarrow> length zs = length xs"
  by (auto simp: copy_at_def split: if_splits)

lemma copy_at_fit:
  "length xs = i \<Longrightarrow> length old = length ys \<Longrightarrow> copy_at (xs @ old @ zs) i ys = Some (xs @ ys @ zs)"
  by (simp add: copy_at_def)

lemma put_at_fit:
  "length xs = i \<Longrightarrow> length old = length ys \<Longrightarrow> put_at (xs @ old @ zs) i ys = Some (xs @ ys @ zs)"
  by (simp add: put_at_def)

subsection \<open>encoding/binary\<close>

definition be_PutUint16 :: "16 word \<Rightarrow> bytes" where
  "be_PutUint16 v = [ucast (drop_bit 8 v), ucast v]"

definition be_PutUint32 :: "32 word \<Rightarrow> bytes" where
  "be_PutUint32 v =
     [ucast (drop_bit 24 v), ucast (drop_bit 16 v), ucast (drop_bit 8 v), ucast v]"

definition be_PutUint64 :: "64 word \<Rightarrow> bytes" where
  "be_PutUint64 v =
     [ucast (drop_bit 56 v), ucast (drop_bit 48 v), ucast (drop_bit 40 v), ucast (drop_bit 32 v),
      ucast (drop_bit 24 v), ucast (drop_bit 16 v), ucast (drop_bit 8 v), ucast v]"

text \<open>The readers index their argument, and panic if it is too short.\<close>

definition be_Uint16 :: "bytes \<Rightarrow> 16 word go" where
  "be_Uint16 b = do {
     b0 \<leftarrow> idx b 0; b1 \<leftarrow> idx b 1;
     Some (ucast b1 OR push_bit 8 (ucast b0)) }"

definition be_Uint32 :: "bytes \<Rightarrow> 32 word go" where
  "be_Uint32 b = do {
     b0 \<leftarrow> idx b 0; b1 \<leftarrow> idx b 1; b2 \<leftarrow> idx b 2; b3 \<leftarrow> idx b 3;
     Some (ucast b3 OR push_bit 8 (ucast b2) OR push_bit 16 (ucast b1) OR push_bit 24 (ucast b0)) }"

definition be_Uint64 :: "bytes \<Rightarrow> 64 word go" where
  "be_Uint64 b = do {
     b0 \<leftarrow> idx b 0; b1 \<leftarrow> idx b 1; b2 \<leftarrow> idx b 2; b3 \<leftarrow> idx b 3;
     b4 \<leftarrow> idx b 4; b5 \<leftarrow> idx b 5; b6 \<leftarrow> idx b 6; b7 \<leftarrow> idx b 7;
     Some (ucast b7 OR push_bit 8 (ucast b6) OR push_bit 16 (ucast b5) OR push_bit 24 (ucast b4)
        OR push_bit 32 (ucast b3) OR push_bit 40 (ucast b2) OR push_bit 48 (ucast b1)
        OR push_bit 56 (ucast b0)) }"

definition le_PutUint32 :: "32 word \<Rightarrow> bytes" where
  "le_PutUint32 v = rev (be_PutUint32 v)"

definition le_Uint32 :: "bytes \<Rightarrow> 32 word go" where
  "le_Uint32 b = do {
     b0 \<leftarrow> idx b 0; b1 \<leftarrow> idx b 1; b2 \<leftarrow> idx b 2; b3 \<leftarrow> idx b 3;
     Some (ucast b0 OR push_bit 8 (ucast b1) OR push_bit 16 (ucast b2) OR push_bit 24 (ucast b3)) }"

lemma length_be_Put [simp]:
  "length (be_PutUint16 v16) = 2" "length (be_PutUint32 v32) = 4" "length (be_PutUint64 v64) = 8"
  "length (le_PutUint32 v32) = 4"
  by (simp_all add: be_PutUint16_def be_PutUint32_def be_PutUint64_def le_PutUint32_def)

lemma unat_byte: "n < 256 \<Longrightarrow> unat (word_of_nat n :: byte) = n"
  by (simp add: unat_of_nat)

lemma unat_byte_less: "unat (b :: byte) < 256"
  using unsigned_less [of b, where ?'a = nat] by simp

lemma bit_byteD: "bit (b :: byte) n \<Longrightarrow> n < 8"
  by (drule bit_imp_le_length) simp

lemma bit_byte_of:
  fixes v :: "'a::len word"
  shows "bit (push_bit k (ucast (ucast (drop_bit k v) :: byte)) :: 'a word) n
     \<longleftrightarrow> k \<le> n \<and> n < k + 8 \<and> n < LENGTH('a) \<and> bit v n"
  by (auto simp only: bit_push_bit_iff bit_unsigned_iff bit_drop_bit_eq o_apply)
     (auto dest: bit_imp_le_length)

lemma bit_byte_low:
  fixes v :: "'a::len word"
  shows "bit (ucast (ucast v :: byte) :: 'a word) n \<longleftrightarrow> n < 8 \<and> n < LENGTH('a) \<and> bit v n"
  by (auto simp only: bit_unsigned_iff) (auto dest: bit_imp_le_length)

lemma join16: "(ucast (ucast v :: byte) OR push_bit 8 (ucast (ucast (drop_bit 8 v) :: byte)) :: 16 word) = v"
  by (rule bit_word_eqI) (auto simp only: bit_or_iff bit_byte_of bit_byte_low, auto)

lemma join32:
  "(ucast (ucast v :: byte) OR push_bit 8 (ucast (ucast (drop_bit 8 v) :: byte))
     OR push_bit 16 (ucast (ucast (drop_bit 16 v) :: byte))
     OR push_bit 24 (ucast (ucast (drop_bit 24 v) :: byte)) :: 32 word) = v"
  by (rule bit_word_eqI) (auto simp only: bit_or_iff bit_byte_of bit_byte_low, auto)

lemma join64:
  "(ucast (ucast v :: byte) OR push_bit 8 (ucast (ucast (drop_bit 8 v) :: byte))
     OR push_bit 16 (ucast (ucast (drop_bit 16 v) :: byte))
     OR push_bit 24 (ucast (ucast (drop_bit 24 v) :: byte))
     OR push_bit 32 (ucast (ucast (drop_bit 32 v) :: byte))
     OR push_bit 40 (ucast (ucast (drop_bit 40 v) :: byte))
     OR push_bit 48 (ucast (ucast (drop_bit 48 v) :: byte))
     OR push_bit 56 (ucast (ucast (drop_bit 56 v) :: byte)) :: 64 word) = v"
  by (rule bit_word_eqI) (auto simp only: bit_or_iff bit_byte_of bit_byte_low, auto)

lemma be_Uint16_Put [wire]: "be_Uint16 (be_PutUint16 v) = Some v"
  by (simp add: be_Uint16_def be_PutUint16_def idx_def join16)

lemma be_Uint32_Put [wire]: "be_Uint32 (be_PutUint32 v) = Some v"
  by (simp add: be_Uint32_def be_PutUint32_def idx_def join32)

lemma be_Uint64_Put [wire]: "be_Uint64 (be_PutUint64 v) = Some v"
  by (simp add: be_Uint64_def be_PutUint64_def idx_def join64)

lemma le_Uint32_Put [wire]: "le_Uint32 (le_PutUint32 v) = Some v"
  by (simp add: le_Uint32_def le_PutUint32_def be_PutUint32_def idx_def join32)

lemma be_Uint_total:
  "2 \<le> length b \<Longrightarrow> \<exists>v. be_Uint16 b = Some v"
  "4 \<le> length b \<Longrightarrow> \<exists>v. be_Uint32 b = Some v"
  "8 \<le> length b \<Longrightarrow> \<exists>v. be_Uint64 b = Some v"
  "4 \<le> length b \<Longrightarrow> \<exists>v. le_Uint32 b = Some v"
  by (auto simp: be_Uint16_def be_Uint32_def be_Uint64_def le_Uint32_def idx_def)

subsection \<open>Total readers\<close>

definition dec16 :: "bytes \<Rightarrow> 16 word" where
  "dec16 b = (case be_Uint16 b of None \<Rightarrow> 0 | Some v \<Rightarrow> v)"

definition dec32 :: "bytes \<Rightarrow> 32 word" where
  "dec32 b = (case be_Uint32 b of None \<Rightarrow> 0 | Some v \<Rightarrow> v)"

definition dec64 :: "bytes \<Rightarrow> 64 word" where
  "dec64 b = (case be_Uint64 b of None \<Rightarrow> 0 | Some v \<Rightarrow> v)"

lemma be_Uint_dec:
  "2 \<le> length b \<Longrightarrow> be_Uint16 b = Some (dec16 b)"
  "4 \<le> length b \<Longrightarrow> be_Uint32 b = Some (dec32 b)"
  "8 \<le> length b \<Longrightarrow> be_Uint64 b = Some (dec64 b)"
  using be_Uint_total [of b] by (auto simp: dec16_def dec32_def dec64_def)

lemma dec_Put [simp, wire]:
  "dec16 (be_PutUint16 v16) = v16" "dec32 (be_PutUint32 v32) = v32" "dec64 (be_PutUint64 v64) = v64"
  by (simp_all add: dec16_def dec32_def dec64_def wire)

text \<open>Conversely, eight bytes are the encoding of the number they decode to.\<close>

lemma bit_shifted_byte:
  "bit (push_bit k (ucast (b :: byte)) :: 64 word) n \<longleftrightarrow> k \<le> n \<and> n < 64 \<and> bit b (n - k)"
  by (auto simp: bit_push_bit_iff bit_unsigned_iff bit_byteD dest: bit_byteD)

lemma byte_of_bits:
  assumes "\<And>i. i < 8 \<Longrightarrow> bit (v :: 64 word) (k + i) = bit (b :: byte) i"
  shows "ucast (drop_bit k v) = b"
  using assms by (intro bit_word_eqI) (simp add: bit_unsigned_iff bit_drop_bit_eq)

lemma Put_dec64:
  assumes "length b = 8"
  shows "be_PutUint64 (dec64 b) = b"
proof -
  obtain b0 b1 b2 b3 b4 b5 b6 b7 where b: "b = [b0, b1, b2, b3, b4, b5, b6, b7]"
    using assms by (auto simp: length_Suc_conv numeral_eq_Suc)
  define v where "v = dec64 b"
  have bits: "bit v n \<longleftrightarrow> n < 64 \<and> (bit b7 n \<or> 8 \<le> n \<and> bit b6 (n - 8) \<or> 16 \<le> n \<and> bit b5 (n - 16) \<or> 24 \<le> n \<and> bit b4 (n - 24) \<or>
      32 \<le> n \<and> bit b3 (n - 32) \<or> 40 \<le> n \<and> bit b2 (n - 40) \<or> 48 \<le> n \<and> bit b1 (n - 48) \<or> 56 \<le> n \<and> bit b0 (n - 56))" for n
    using bit_shifted_byte [of 0 b7 n]
    by (auto simp: v_def b dec64_def be_Uint64_def idx_def bit_or_iff bit_shifted_byte)
  have no: "8 \<le> i \<Longrightarrow> \<not> bit (x :: byte) i" for i x by (auto dest: bit_byteD)
  have "ucast v = b7" using byte_of_bits [of v 0 b7] by (simp add: bits)
  moreover have "ucast (drop_bit 8 v) = b6" "ucast (drop_bit 16 v) = b5" "ucast (drop_bit 24 v) = b4" "ucast (drop_bit 32 v) = b3"
    "ucast (drop_bit 40 v) = b2" "ucast (drop_bit 48 v) = b1" "ucast (drop_bit 56 v) = b0"
    by (rule byte_of_bits; simp add: bits no)+
  ultimately show ?thesis by (simp add: be_PutUint64_def v_def [symmetric]) (simp add: b)
qed

lemma Put_zero: "set (be_PutUint64 v) \<subseteq> {0} \<longleftrightarrow> v = 0"
proof
  assume "set (be_PutUint64 v) \<subseteq> {0}"
  then have "be_PutUint64 v = be_PutUint64 0" by (simp add: be_PutUint64_def)
  then show "v = 0" by (metis dec_Put(3))
qed (simp add: be_PutUint64_def)

text \<open>A list that equals itself shifted to the left, with \<open>z\<close> moving in, consists of \<open>z\<close>.\<close>

lemma shifted_self:
  assumes "0 < k"
  shows "drop k t @ replicate (min k (length t)) z = t \<longleftrightarrow> set t \<subseteq> {z}"
proof
  assume eq: "drop k t @ replicate (min k (length t)) z = t"
  have nth: "t ! i = (if i + k < length t then t ! (i + k) else z)" if "i < length t" for i
  proof -
    have "i - (length t - k) < min k (length t)" if "\<not> i + k < length t" using that \<open>i < length t\<close> by linarith
    then show ?thesis
      using arg_cong [OF eq, of "\<lambda>l. l ! i"] that
      by (cases "i + k < length t") (simp_all add: nth_append add.commute less_diff_conv)
  qed
  have "t ! i = z" if "i < length t" for i
    using that
  proof (induction "length t - i" arbitrary: i rule: less_induct)
    case less
    then show ?case using nth [of i] assms by (cases "i + k < length t") auto
  qed
  then show "set t \<subseteq> {z}" by (auto simp: in_set_conv_nth)
next
  assume "set t \<subseteq> {z}"
  then have "t = replicate (length t) z" by (simp add: replicate_length_same [symmetric] subset_iff)
  then obtain n where "t = replicate n z" by blast
  then show "drop k t @ replicate (min k (length t)) z = t" by (simp add: replicate_add [symmetric])
qed

text \<open>The 24-bit body length, which the frames carry in three bytes.\<close>

definition be24 :: "byte \<Rightarrow> byte \<Rightarrow> byte \<Rightarrow> 32 word" where
  "be24 fb sb tb = push_bit 16 (ucast fb) OR push_bit 8 (ucast sb) OR ucast tb"

definition put24 :: "32 word \<Rightarrow> bytes" where
  "put24 v = [ucast (drop_bit 16 v), ucast (drop_bit 8 v), ucast v]"

lemma length_put24 [simp]: "length (put24 v) = 3"
  by (simp add: put24_def)

lemma bit_be24:
  "bit (be24 fb sb tb) n \<longleftrightarrow>
     (n < 8 \<and> bit tb n) \<or> (8 \<le> n \<and> n < 16 \<and> bit sb (n - 8)) \<or> (16 \<le> n \<and> n < 24 \<and> bit fb (n - 16))"
  unfolding be24_def bit_or_iff bit_push_bit_iff bit_unsigned_iff
  by (auto dest: bit_byteD)

lemma be24_less: "unat (be24 fb sb tb) < 2 ^ 24"
proof -
  have "take_bit 24 (be24 fb sb tb) = be24 fb sb tb"
    by (rule bit_word_eqI) (auto simp: bit_take_bit_iff bit_be24)
  then have "unat (be24 fb sb tb) = take_bit 24 (unat (be24 fb sb tb))"
    by (metis unsigned_take_bit_eq)
  then show ?thesis by (metis take_bit_nat_less_exp)
qed

lemma be24_put24:
  assumes "unat v < 2 ^ 24"
  shows "be24 (ucast (drop_bit 16 v)) (ucast (drop_bit 8 v)) (ucast v) = v"
proof -
  have "take_bit 24 v = v"
    using assms by (metis take_bit_nat_eq_self unsigned_take_bit_eq word_unat_eq_iff)
  then have v: "bit v n \<Longrightarrow> n < 24" for n by (metis bit_take_bit_iff)
  show ?thesis
  proof (rule bit_word_eqI)
    fix n
    show "bit (be24 (ucast (drop_bit 16 v)) (ucast (drop_bit 8 v)) (ucast v)) n = bit v n"
      by (cases "n < 8"; cases "n < 16") (auto simp: bit_be24 bit_unsigned_iff bit_drop_bit_eq dest: v)
  qed
qed

lemma put24_be24: "put24 (be24 a b c) = [a, b, c]"
proof -
  have "ucast (drop_bit 16 (be24 a b c)) = a" "ucast (drop_bit 8 (be24 a b c)) = b"
    "ucast (be24 a b c) = c"
    by (rule bit_word_eqI; auto simp: bit_be24 bit_unsigned_iff bit_drop_bit_eq dest: bit_byteD)+
  then show ?thesis by (simp add: put24_def)
qed

end
