(* ===== verification/Go_Errors.thy ===== *)
theory Go_Errors
  imports Go_Prelude
begin

text \<open>
  Error values and status codes (\<open>go/error.go\<close>, \<open>go/status.go\<close>).

  Go's \<open>error\<close> interface is the datatype \<open>error\<close>: one constructor per package-level sentinel, \<open>ErrNew\<close>
  for errors made on the spot, \<open>ErrWrap\<close> for wrapped ones, \<open>ErrLB\<close> for \<open>*LBError\<close> and \<open>ErrLib\<close> for the
  errors of libraries.  A nil error is \<open>None\<close> at type \<open>error option\<close>.  Messages are HOL strings
  (a \<open>char\<close> is a byte).
\<close>

subsection \<open>Status codes\<close>

definition StatusSuccess :: "8 word" where "StatusSuccess = 0"
definition StatusServerTimeout :: "8 word" where "StatusServerTimeout = 1"
definition StatusClientTimeout :: "8 word" where "StatusClientTimeout = 2"
definition StatusBadRequest :: "8 word" where "StatusBadRequest = 3"
definition StatusBadResponse :: "8 word" where "StatusBadResponse = 4"
definition StatusUnauthenticated :: "8 word" where "StatusUnauthenticated = 5"
definition StatusPermissionDenied :: "8 word" where "StatusPermissionDenied = 6"
definition StatusServerInternalError :: "8 word" where "StatusServerInternalError = 7"
definition StatusClientInternalError :: "8 word" where "StatusClientInternalError = 8"

subsection \<open>Errors\<close>

record LBError =
  lb_Status :: "8 word"
  lb_Code :: "64 word"
  lb_Message :: string

datatype error =
    ErrHandshakeLen | ErrInvalidProtocolVersion
  | ErrKeyLengthTooLong | ErrValueLengthTooLong | ErrInvalidMetadataData
  | ErrUnknowPacket | ErrBodyLenHitLimit | ErrInvalidFrame
  | ErrSessExpired | ErrHitMaxReconnect | ErrConnClosed | ErrInvalidMessage
  | ErrNew string
  | ErrWrap error string
  | ErrLB LBError
  | ErrLib string

text \<open>\<open>%d\<close> on an unsigned value: its decimal digits.\<close>

fun fmt_d :: "nat \<Rightarrow> string" where
  "fmt_d n = (if n < 10 then [char_of (48 + n)] else fmt_d (n div 10) @ [char_of (48 + n mod 10)])"

declare fmt_d.simps [simp del]

definition LBError_Error :: "LBError \<Rightarrow> string" where
  "LBError_Error e =
     ''longbridge protocol api error, status:'' @ fmt_d (unat (lb_Status e)) @
     '' code:'' @ fmt_d (unat (lb_Code e)) @ '' message:'' @ lb_Message e"

definition NewError :: "8 word \<Rightarrow> 64 word \<Rightarrow> string \<Rightarrow> error" where
  "NewError status code msg = ErrLB \<lparr>lb_Status = status, lb_Code = code, lb_Message = msg\<rparr>"

lemma NewError_inject [simp]:
  "NewError s c m = NewError s' c' m' \<longleftrightarrow> s = s' \<and> c = c' \<and> m = m'"
  by (simp add: NewError_def)

end
