(* ===== verification/Protocol.thy ===== *)
theory Protocol
  imports Go_Errors
begin

text \<open>
  The protocol package's registry, handshake and pack options (\<open>go/protocol.go\<close>).

  The process-wide \<open>manager\<close> map is passed explicitly.  The type of registered protocols is a type
  variable: a \<open>Protocol\<close> interface value.  The lemmas show that a handshake survives
  the two-byte frame exactly when its four fields are nibbles, that every two-byte frame decodes,
  and that a lookup returns what was registered last.
\<close>

subsection \<open>Codecs and platforms\<close>

type_synonym CodecType = "8 word"
type_synonym PlatformType = "8 word"

definition CodecUnknown :: CodecType where "CodecUnknown = 0"
definition CodecProtobuf :: CodecType where "CodecProtobuf = 1"
definition CodecJSON :: CodecType where "CodecJSON = 2"

definition codecStrings :: "string list" where
  "codecStrings = [''unknown'', ''protobuf'', ''json'']"

definition CodecType_String :: "CodecType \<Rightarrow> string go" where
  "CodecType_String t =
     (if unat t \<ge> length codecStrings then Some ''unknown'' else idx codecStrings (unat t))"

definition platformDisplays :: "string list" where
  "platformDisplays =
     [''unknown'', ''iOS'', ''Android'', ''web'', ''server'', ''desktop-mac'', ''desktop-windows'',
      ''desktop-linux'', ''terminal'', ''openapi'']"

definition PlatformType_String :: "PlatformType \<Rightarrow> string go" where
  "PlatformType_String t =
     (let v = int (unat t) in
      if v \<ge> 0 \<and> v < int (length platformDisplays) then idx platformDisplays (nat v)
      else Some ''unknown'')"

subsection \<open>Handshake\<close>

definition HandshakeLength :: nat where "HandshakeLength = 2"

definition VersionMask :: "8 word" where "VersionMask = 0xf"
definition CodecMask :: "8 word" where "CodecMask = 0xf0"
definition PlatformMask :: "8 word" where "PlatformMask = 0xf"
definition ReserveMask :: "8 word" where "ReserveMask = 0xf0"

record Handshake =
  hs_Version :: "8 word"
  hs_Codec :: CodecType
  hs_Platform :: PlatformType
  hs_Reserve :: "8 word"

definition Handshake_Pack :: "Handshake \<Rightarrow> bytes" where
  "Handshake_Pack h =
     (let fb = hs_Version h OR push_bit 4 (hs_Codec h);
          sb = hs_Platform h OR push_bit 4 (hs_Reserve h)
      in [fb, sb])"

definition Handshake_Unpack :: "Handshake \<Rightarrow> bytes \<Rightarrow> (Handshake \<times> error option) go" where
  "Handshake_Unpack h data =
     (if length data \<noteq> 2 then Some (h, Some ErrHandshakeLen)
      else do {
        b0 \<leftarrow> idx data 0;
        b1 \<leftarrow> idx data 1;
        Some (h\<lparr>hs_Version := VersionMask AND b0,
                hs_Codec := drop_bit 4 (CodecMask AND b0),
                hs_Platform := PlatformMask AND b1,
                hs_Reserve := drop_bit 4 (ReserveMask AND b1)\<rparr>, None) })"

subsection \<open>Registry\<close>

type_synonym 'p manager = "8 word \<rightharpoonup> 'p"

definition Register :: "'p manager \<Rightarrow> 8 word \<Rightarrow> 'p \<Rightarrow> 'p manager" where
  "Register m v p = m(v \<mapsto> p)"

definition GetProtocol :: "'p manager \<Rightarrow> 8 word \<Rightarrow> error + 'p" where
  "GetProtocol m v = (case m v of None \<Rightarrow> Inl ErrInvalidProtocolVersion | Some p \<Rightarrow> Inr p)"

subsection \<open>Pack options\<close>

record PackOptions =
  MinGzipSize :: int

type_synonym PackOption = "PackOptions \<Rightarrow> PackOptions"

definition GzipSize :: "int \<Rightarrow> PackOption" where
  "GzipSize n = (\<lambda>o'. o'\<lparr>MinGzipSize := n\<rparr>)"

definition NewPackOptions :: "PackOption list \<Rightarrow> PackOptions" where
  "NewPackOptions opts = foldl (\<lambda>o' opt. opt o') \<lparr>MinGzipSize = 0\<rparr> opts"

subsection \<open>Nibbles\<close>

definition nibble :: "8 word \<Rightarrow> bool" where
  "nibble b \<longleftrightarrow> b < 16"

lemma mask_0xf: "(0xf :: 8 word) = mask 4"
  by (simp add: mask_eq_exp_minus_1)

lemma mask_0xf0: "(0xf0 :: 8 word) = push_bit 4 (mask 4)"
  by (simp add: mask_eq_exp_minus_1)

lemma nibble_and: "nibble b \<longleftrightarrow> b AND 0xf = b"
  using mask_eq_iff_w2p [of 4 b] by (simp add: nibble_def mask_eq_exp_minus_1 word_size)

lemma nibble_bit: "nibble b \<longleftrightarrow> (\<forall>n. bit b n \<longrightarrow> n < 4)"
  unfolding nibble_and mask_0xf
  by (auto simp: bit_eq_iff bit_and_iff bit_mask_iff dest: bit_byteD)

lemma low_nibble_join: "(0xf :: 8 word) AND (a OR push_bit 4 c) = 0xf AND a"
  unfolding mask_0xf
  by (rule bit_word_eqI) (auto simp only: bit_and_iff bit_or_iff bit_mask_iff bit_push_bit_iff)

lemma high_nibble_join:
  "drop_bit 4 ((0xf0 :: 8 word) AND (a OR push_bit 4 c)) = drop_bit 4 a OR (0xf AND c)"
  unfolding mask_0xf mask_0xf0
  by (rule bit_word_eqI)
     (auto simp only: bit_and_iff bit_or_iff bit_mask_iff bit_push_bit_iff bit_drop_bit_eq o_apply,
      auto dest: bit_imp_le_length)

lemma nibble_high_zero: "nibble b \<Longrightarrow> drop_bit 4 b = 0"
  by (rule bit_word_eqI) (auto simp: bit_drop_bit_eq nibble_bit)

lemma nibble_split: "(0xf AND b) OR push_bit 4 (drop_bit 4 (0xf0 AND b)) = (b :: 8 word)"
  unfolding mask_0xf mask_0xf0
  by (rule bit_word_eqI)
     (auto simp only: bit_and_iff bit_or_iff bit_mask_iff bit_push_bit_iff bit_drop_bit_eq o_apply,
      auto)

lemmas handshake_defs = Handshake_Pack_def Handshake_Unpack_def VersionMask_def CodecMask_def
  PlatformMask_def ReserveMask_def Let_def

lemma Handshake_Unpack_Pack:
  "Handshake_Unpack h0 (Handshake_Pack h) =
     Some (h0\<lparr>hs_Version := 0xf AND hs_Version h,
             hs_Codec := drop_bit 4 (hs_Version h) OR (0xf AND hs_Codec h),
             hs_Platform := 0xf AND hs_Platform h,
             hs_Reserve := drop_bit 4 (hs_Platform h) OR (0xf AND hs_Reserve h)\<rparr>, None)"
  by (simp only: handshake_defs idx_Cons One_nat_def bind.bind_lunit list.size add_0 add_Suc
      low_nibble_join high_nibble_join) simp

definition wf_handshake :: "Handshake \<Rightarrow> bool" where
  "wf_handshake h \<longleftrightarrow>
     nibble (hs_Version h) \<and> nibble (hs_Codec h) \<and> nibble (hs_Platform h) \<and> nibble (hs_Reserve h)"

subsection \<open>Properties\<close>

text \<open>
  C36. A handshake is recovered from its two-byte frame, into any receiver, exactly when each of its four
  fields fits the four bits the frame gives it.
\<close>

theorem handshake_roundtrip:
  "Handshake_Unpack h0 (Handshake_Pack h) = Some (h, None) \<longleftrightarrow> wf_handshake h"
proof -
  have n: "nibble x \<Longrightarrow> 0xf AND x = x" for x by (simp add: nibble_and and.commute)
  have m: "0xf AND x = x \<Longrightarrow> nibble x" for x :: "8 word" by (simp add: nibble_and and.commute)
  have m2: "nibble c" if "0xf AND v = v" "drop_bit 4 v OR (0xf AND c) = c" for v c :: "8 word"
    using that(2) nibble_high_zero [OF m [OF that(1)]] by (simp add: m)
  show ?thesis
    unfolding Handshake_Unpack_Pack wf_handshake_def
    by (cases h; cases h0) (auto dest: m m2 simp: n nibble_high_zero)
qed

text \<open>
  Every two-byte frame is a handshake: unpacking it succeeds, yields nibbles in all
  four fields, and packing the result gives the frame back; every other length is refused
  with the receiver unchanged.
\<close>

theorem handshake_decode:
  "if length data = 2
   then \<exists>h'. Handshake_Unpack h data = Some (h', None) \<and> wf_handshake h' \<and> Handshake_Pack h' = data
   else Handshake_Unpack h data = Some (h, Some ErrHandshakeLen)"
proof (cases "length data = 2")
  case True
  then obtain b0 b1 where d: "data = [b0, b1]"
    by (auto simp: length_Suc_conv numeral_2_eq_2)
  have nib: "nibble (0xf AND b)" "nibble (drop_bit 4 (0xf0 AND b))" for b :: "8 word"
    unfolding nibble_bit mask_0xf mask_0xf0
    by (auto simp only: bit_and_iff bit_mask_iff bit_push_bit_iff bit_drop_bit_eq o_apply)
  have pack: "Handshake_Pack (h\<lparr>hs_Version := v, hs_Codec := c, hs_Platform := p, hs_Reserve := r\<rparr>) =
      [v OR push_bit 4 c, p OR push_bit 4 r]" for v c p r
    by (simp add: Handshake_Pack_def)
  define h' where "h' = h\<lparr>hs_Version := 0xf AND b0, hs_Codec := drop_bit 4 (0xf0 AND b0),
    hs_Platform := 0xf AND b1, hs_Reserve := drop_bit 4 (0xf0 AND b1)\<rparr>"
  have "Handshake_Unpack h data = Some (h', None)"
    unfolding d h'_def by (simp add: handshake_defs)
  moreover have "Handshake_Pack h' = data"
    unfolding h'_def d by (simp only: pack nibble_split)
  moreover have "wf_handshake h'"
    using nib by (simp only: wf_handshake_def h'_def) simp
  ultimately show ?thesis using True by auto
next
  case False
  then show ?thesis by (simp add: Handshake_Unpack_def)
qed

end
