(* ===== verification/Metadata.thy ===== *)
theory Metadata
  imports Protocol
begin

text \<open>
  Packet metadata and the key-value section of version 2 frames (\<open>go/metadata.go\<close>).

  \<^item> Keys and values are Go strings, that is byte lists.  \<open>Values\<close> is \<open>None\<close> for a nil map and \<open>Some m\<close>
    for an allocated one; writing to a nil map panics.
  \<^item> \<open>range\<close> over a Go map visits the entries in an arbitrary order.  \<open>MarshalValues\<close> takes that order as
    the argument \<open>ord\<close>; the theorems hold for every \<open>ord\<close> that enumerates the keys
    (\<open>iter_order\<close>).
  \<^item> \<open>strings.ToLower\<close> has Go's exact ASCII path; on strings with a byte of 128 or above it maps the
    Unicode tables over the string's code points, which is the parameter \<open>uni\<close>.
  The lemmas show that the length prefix is a unique encoding, that the parser accepts exactly the
  encoded entry lists and never panics, and that a marshalled section is parsed back.
\<close>

subsection \<open>Go strings\<close>

definition ascii_lower :: "byte \<Rightarrow> byte" where
  "ascii_lower c = (if 65 \<le> c \<and> c \<le> 90 then c + 32 else c)"

definition strings_ToLower :: "(bytes \<Rightarrow> bytes) \<Rightarrow> bytes \<Rightarrow> bytes" where
  "strings_ToLower uni s = (if list_all (\<lambda>c. c < 128) s then map ascii_lower s else uni s)"

subsection \<open>Data\<close>

type_synonym PacketType = string

definition RequestPacket :: PacketType where "RequestPacket = ''request''"
definition ResponsePacket :: PacketType where "ResponsePacket = ''response''"
definition PushPacket :: PacketType where "PushPacket = ''push''"

definition length7Bit :: byte where "length7Bit = 0"
definition length15Bit :: byte where "length15Bit = 0b10000000"
definition lengthMask :: byte where "lengthMask = 0b10000000"
definition max7BitLength :: nat where "max7BitLength = 127"
definition max15BitLength :: nat where "max15BitLength = 32767"
definition maxStringLength :: nat where "maxStringLength = max15BitLength"

record KVPair =
  kv_Key :: bytes
  kv_Val :: bytes

record Metadata =
  md_Nonce :: "64 word"
  md_RequestId :: "32 word"
  md_CmdCode :: "32 word"
  md_Verify :: bool
  md_Gzip :: bool
  md_Timeout :: "16 word"
  md_Codec :: CodecType
  md_StatusCode :: "8 word"
  md_Type :: PacketType
  md_Signature :: bytes
  md_Values :: "(bytes \<rightharpoonup> bytes) option"

text \<open>The zero value \<open>Metadata{}\<close>, from which composite literals start.\<close>

definition Metadata_zero :: Metadata where
  "Metadata_zero =
     \<lparr>md_Nonce = 0, md_RequestId = 0, md_CmdCode = 0, md_Verify = False, md_Gzip = False,
      md_Timeout = 0, md_Codec = 0, md_StatusCode = 0, md_Type = [], md_Signature = [],
      md_Values = None\<rparr>"

subsection \<open>Unmarshalling\<close>

definition unmarshalStringLength :: "bytes \<Rightarrow> (int \<times> byte \<times> error option) go" where
  "unmarshalStringLength data =
     (if length data = 0 then Some (0, length7Bit, None)
      else do {
        b0 \<leftarrow> idx data 0;
        let bitSize = b0 AND lengthMask;
        if bitSize = length7Bit then Some (uint (b0 AND NOT lengthMask), bitSize, None)
        else if bitSize = length15Bit then do {
          let first = uint (b0 AND NOT lengthMask);
          (if length data < 2 then Some (0, bitSize, Some ErrInvalidMetadataData)
           else do {
             b1 \<leftarrow> idx data 1;
             let l = push_bit 8 first + uint b1;
             Some (l, bitSize,
                   if l \<le> int max7BitLength then Some ErrInvalidMetadataData else None) })
        }
        else Some (0, bitSize, None) })"

text \<open>The closure \<open>getString\<close> of \<open>UnmarshalValues\<close>: it also advances the captured \<open>data\<close>.\<close>

definition getString :: "bytes \<Rightarrow> (error + bytes \<times> bytes) go" where
  "getString data = do {
     let l = int (length data);
     (sl, bitSize, err) \<leftarrow> unmarshalStringLength data;
     (case err of
        Some e \<Rightarrow> Some (Inl e)
      | None \<Rightarrow>
          if bitSize = length7Bit then
            if sl > l - 1 then Some (Inl ErrInvalidMetadataData)
            else do {
              str \<leftarrow> slice data 1 (nat sl + 1);
              rest \<leftarrow> slice_from data (nat sl + 1);
              Some (Inr (str, rest)) }
          else if bitSize = length15Bit then
            if sl > l - 2 then Some (Inl ErrInvalidMetadataData)
            else do {
              str \<leftarrow> slice data 2 (nat sl + 2);
              rest \<leftarrow> slice_from data (nat sl + 2);
              Some (Inr (str, rest)) }
          else Some (Inl ErrInvalidMetadataData)) }"

lemma getString_shorter: "getString data = Some (Inr (s, rest)) \<Longrightarrow> length rest < length data"
  by (cases data)
     (auto simp: getString_def unmarshalStringLength_def slice_from_def slice_def Let_def
        split: if_splits option.splits bind_splits)

text \<open>The loop of \<open>UnmarshalValues\<close>.\<close>

function unmarshal_loop ::
    "(bytes \<Rightarrow> bytes) \<Rightarrow> (bytes \<rightharpoonup> bytes) \<Rightarrow> bytes \<Rightarrow> (error + (bytes \<rightharpoonup> bytes)) go" where
  "unmarshal_loop uni values data =
     (if length data = 0 then Some (Inr values)
      else case getString data of
        None \<Rightarrow> None
      | Some (Inl err) \<Rightarrow> Some (Inl err)
      | Some (Inr (key, data1)) \<Rightarrow>
          (case getString data1 of
             None \<Rightarrow> None
           | Some (Inl err) \<Rightarrow> Some (Inl err)
           | Some (Inr (val, data2)) \<Rightarrow>
               unmarshal_loop uni (values(strings_ToLower uni key \<mapsto> val)) data2))"
  by pat_completeness auto
termination
  by (relation "measure (\<lambda>(uni, values, data). length data)")
     (auto dest!: getString_shorter)

declare unmarshal_loop.simps [simp del]

definition UnmarshalValues ::
    "(bytes \<Rightarrow> bytes) \<Rightarrow> Metadata \<Rightarrow> bytes \<Rightarrow> (Metadata \<times> error option) go" where
  "UnmarshalValues uni md data =
     (if length data = 0 then Some (md\<lparr>md_Values := Some Map.empty\<rparr>, None)
      else if length data < 2 then Some (md, Some ErrInvalidMetadataData)
      else do {
        r \<leftarrow> unmarshal_loop uni Map.empty data;
        (case r of
           Inl err \<Rightarrow> Some (md, Some err)
         | Inr values \<Rightarrow> Some (md\<lparr>md_Values := Some values\<rparr>, None)) })"

subsection \<open>Marshalling\<close>

definition marshalString :: "bytes \<Rightarrow> bytes \<times> bool" where
  "marshalString str =
     (let l = length str in
      if l \<le> max7BitLength then ([word_of_nat l] @ str, False)
      else if l \<le> max15BitLength then
        let first = word_of_nat (drop_bit 8 l) OR length15Bit;
            second = word_of_nat (l AND 0b11111111)
        in ([first, second] @ str, False)
      else ([], True))"

fun marshal_loop :: "int \<Rightarrow> (bytes \<times> bytes) list \<Rightarrow> bytes \<Rightarrow> bytes" where
  "marshal_loop mx [] data = data"
| "marshal_loop mx ((key, val) # kvs) data =
     (if key = [] then marshal_loop mx kvs data
      else
        let (k, tooLong) = marshalString key in
        if tooLong then marshal_loop mx kvs data
        else
          let (v, tooLong) = marshalString val in
          if tooLong then marshal_loop mx kvs data
          else if int (length k + length v + length data) > mx then data
          else marshal_loop mx kvs ((data @ k) @ v))"

text \<open>The entries of a Go map, in the order \<open>ord\<close> of its keys.\<close>

definition map_entries :: "(bytes \<rightharpoonup> bytes) option \<Rightarrow> bytes list \<Rightarrow> (bytes \<times> bytes) list" where
  "map_entries m ord =
     (case m of None \<Rightarrow> []
      | Some m' \<Rightarrow> List.map_filter (\<lambda>k. map_option (Pair k) (m' k)) ord)"

definition iter_order :: "(bytes \<rightharpoonup> bytes) option \<Rightarrow> bytes list \<Rightarrow> bool" where
  "iter_order m ord \<longleftrightarrow>
     distinct ord \<and> set ord = (case m of None \<Rightarrow> {} | Some m' \<Rightarrow> dom m')"

definition MarshalValues :: "bytes list \<Rightarrow> Metadata \<Rightarrow> int \<Rightarrow> bytes" where
  "MarshalValues ord md mx =
     (let kvs = map_entries (md_Values md) ord in
      if length kvs = 0 then [] else marshal_loop mx kvs [])"

subsection \<open>Access\<close>

definition Metadata_Set ::
    "(bytes \<Rightarrow> bytes) \<Rightarrow> Metadata \<Rightarrow> bytes \<Rightarrow> bytes \<Rightarrow> (Metadata \<times> error option) go" where
  "Metadata_Set uni md k v =
     (if length k > maxStringLength then Some (md, Some ErrKeyLengthTooLong)
      else if length v > maxStringLength then Some (md, Some ErrValueLengthTooLong)
      else case md_Values md of
        None \<Rightarrow> None
      | Some m \<Rightarrow> Some (md\<lparr>md_Values := Some (m(strings_ToLower uni k \<mapsto> v))\<rparr>, None))"

definition Metadata_Get :: "(bytes \<Rightarrow> bytes) \<Rightarrow> Metadata \<Rightarrow> bytes \<Rightarrow> bytes" where
  "Metadata_Get uni md k =
     (case md_Values md of
        None \<Rightarrow> []
      | Some m \<Rightarrow> (case m (strings_ToLower uni k) of None \<Rightarrow> [] | Some v \<Rightarrow> v))"

subsection \<open>The length prefix\<close>

lemma uint_low7: "uint (b AND NOT lengthMask) = uint b mod 128"
proof -
  have "NOT lengthMask = mask 7" by (simp add: mask_eq_exp_minus_1 lengthMask_def)
  then have "uint (b AND NOT lengthMask) = take_bit 7 (uint b)"
    by (simp only: take_bit_eq_mask [symmetric] unsigned_take_bit_eq)
  then show ?thesis by (simp add: take_bit_eq_mod)
qed

lemma bit7: "bit (b :: byte) 7 \<longleftrightarrow> \<not> b < 128"
proof -
  have "bit b 7 \<longleftrightarrow> odd (uint b div 2 ^ 7)" by (simp only: bit_iff_odd [symmetric] bit_uint_iff) simp
  moreover have "odd (u div 128) \<longleftrightarrow> \<not> u < 128" if "0 \<le> u" "u < 256" for u :: int
    using that int_div_pos_eq [of u 128 1 "u - 128"] by (cases "u < 128") simp_all
  moreover have "uint b < 256" using uint_lt2p [of b] by simp
  moreover have "b < 128 \<longleftrightarrow> uint b < 128" by (simp add: word_less_def)
  ultimately show ?thesis by simp
qed

lemma high_bit: "b AND lengthMask = (if b < 128 then length7Bit else length15Bit)"
proof -
  have e: "lengthMask = push_bit 7 1" "length15Bit = push_bit 7 1" "length7Bit = 0"
    by (simp_all add: lengthMask_def length15Bit_def length7Bit_def)
  have p: "bit (push_bit 7 1 :: byte) n \<longleftrightarrow> n = 7" for n
    by (auto simp only: bit_push_bit_iff bit_1_iff, auto)
  moreover have "bit (b AND push_bit 7 1) n \<longleftrightarrow> n = 7 \<and> bit b 7" for n
    by (auto simp only: bit_and_iff p)
  ultimately show ?thesis
    unfolding e bit7 [of b] bit_eq_iff by (simp del: push_bit_numeral push_bit_of_1)
qed

lemma bitSize_neq [simp]: "length15Bit \<noteq> length7Bit" "length7Bit \<noteq> length15Bit"
  by (simp_all add: length7Bit_def length15Bit_def)

lemma usl_7: "b0 < 128 \<Longrightarrow> unmarshalStringLength (b0 # bs) = Some (uint b0, length7Bit, None)"
  by (simp add: unmarshalStringLength_def high_bit Let_def uint_low7 word_less_def)

lemma usl_15:
  assumes "\<not> b0 < 128"
  shows "unmarshalStringLength [b0] = Some (0, length15Bit, Some ErrInvalidMetadataData)"
    and "unmarshalStringLength (b0 # b1 # bs) =
      (let l = (uint b0 - 128) * 256 + uint b1
       in Some (l, length15Bit, if l \<le> 127 then Some ErrInvalidMetadataData else None))"
proof -
  have m: "uint b0 mod 128 = uint b0 - 128"
  proof -
    have "uint b0 < 256" using uint_lt2p [of b0] by simp
    moreover have "128 \<le> uint b0" using assms by (simp add: word_less_def)
    ultimately show ?thesis using int_mod_pos_eq [of "uint b0" 128 1 "uint b0 - 128"] by simp
  qed
  show "unmarshalStringLength [b0] = Some (0, length15Bit, Some ErrInvalidMetadataData)"
    and "unmarshalStringLength (b0 # b1 # bs) =
      (let l = (uint b0 - 128) * 256 + uint b1
       in Some (l, length15Bit, if l \<le> 127 then Some ErrInvalidMetadataData else None))"
    using assms
    by (simp_all add: unmarshalStringLength_def high_bit Let_def uint_low7 m max7BitLength_def push_bit_eq_mult)
qed

lemma getString_Nil: "getString [] = Some (Inl ErrInvalidMetadataData)"
  by (simp add: getString_def unmarshalStringLength_def)

lemma getString_7:
  "b0 < 128 \<Longrightarrow> getString (b0 # bs) =
     (if unat b0 \<le> length bs then Some (Inr (take (unat b0) bs, drop (unat b0) bs))
      else Some (Inl ErrInvalidMetadataData))"
proof -
  assume "b0 < 128"
  moreover obtain k where "unat b0 = k" "uint b0 = int k" by (simp add: uint_nat)
  ultimately show ?thesis by (simp add: getString_def usl_7 slice_def slice_from_def Let_def)
qed

lemma getString_15:
  assumes "\<not> b0 < 128"
  shows "getString [b0] = Some (Inl ErrInvalidMetadataData)"
    and "getString (b0 # b1 # bs) =
      (let l = (unat b0 - 128) * 256 + unat b1 in
       if 127 < l \<and> l \<le> length bs then Some (Inr (take l bs, drop l bs))
       else Some (Inl ErrInvalidMetadataData))"
proof -
  show "getString [b0] = Some (Inl ErrInvalidMetadataData)"
    using assms by (simp add: getString_def usl_15)
  define l where "l = (unat b0 - 128) * 256 + unat b1"
  have "128 \<le> unat b0" using assms by (simp add: word_less_nat_alt)
  then have l: "(uint b0 - 128) * 256 + uint b1 = int l"
    unfolding uint_nat l_def by (simp add: of_nat_diff)
  show "getString (b0 # b1 # bs) =
      (let l = (unat b0 - 128) * 256 + unat b1 in
       if 127 < l \<and> l \<le> length bs then Some (Inr (take l bs, drop l bs))
       else Some (Inl ErrInvalidMetadataData))"
    unfolding l_def [symmetric] getString_def usl_15 [OF assms] l Let_def
    by (simp add: slice_def slice_from_def)
qed

lemma or_length15Bit:
  assumes "n < 128"
  shows "(word_of_nat n :: byte) OR length15Bit = word_of_nat (n + 128)"
proof -
  have "(word_of_nat n :: byte) < 128"
    using assms by (simp add: word_less_nat_alt unat_of_nat)
  then have "(word_of_nat n :: byte) AND length15Bit = 0"
    using high_bit [of "word_of_nat n"] by (simp add: lengthMask_def length15Bit_def length7Bit_def)
  then have "(word_of_nat n :: byte) OR length15Bit = word_of_nat n + length15Bit"
    by (simp add: disjunctive_add_eq_or)
  then show ?thesis by (simp add: length15Bit_def)
qed

lemma marshalString_simps:
  "length s \<le> 127 \<Longrightarrow> marshalString s = (word_of_nat (length s) # s, False)"
  "127 < length s \<Longrightarrow> length s \<le> 32767 \<Longrightarrow>
     marshalString s = (word_of_nat (length s div 256 + 128) # word_of_nat (length s mod 256) # s, False)"
  "32767 < length s \<Longrightarrow> marshalString s = ([], True)"
proof -
  have "n AND 0b11111111 = n mod 256" for n :: nat
    using take_bit_eq_mask [of 8 n] by (simp add: mask_eq_exp_minus_1 take_bit_eq_mod)
  then show "127 < length s \<Longrightarrow> length s \<le> 32767 \<Longrightarrow>
     marshalString s = (word_of_nat (length s div 256 + 128) # word_of_nat (length s mod 256) # s, False)"
    using or_length15Bit [of "length s div 256"]
    by (simp add: marshalString_def max7BitLength_def max15BitLength_def drop_bit_eq_div Let_def)
qed (simp_all add: marshalString_def max7BitLength_def max15BitLength_def)

lemma getString_marshalString:
  assumes "length s \<le> 32767"
  shows "getString (fst (marshalString s) @ rest) = Some (Inr (s, rest))"
proof (cases "length s \<le> 127")
  case True
  then show ?thesis
    by (simp add: marshalString_simps getString_7 word_less_nat_alt unat_of_nat)
next
  case False
  define f where "f = length s div 256 + 128"
  have f: "f < 256" "128 \<le> f" "(f - 128) * 256 + length s mod 256 = length s"
    using assms by (simp_all add: f_def)
  have "marshalString s = (word_of_nat f # word_of_nat (length s mod 256) # s, False)"
    unfolding f_def using False assms by (intro marshalString_simps) simp_all
  then show ?thesis
    using f False by (simp add: getString_15 word_less_nat_alt unat_byte Let_def)
qed

lemma getString_Inr:
  "getString data = Some (Inr (s, rest)) \<longleftrightarrow> length s \<le> 32767 \<and> data = fst (marshalString s) @ rest"
proof
  assume g: "getString data = Some (Inr (s, rest))"
  show "length s \<le> 32767 \<and> data = fst (marshalString s) @ rest"
  proof (cases data)
    case Nil
    with g show ?thesis by (simp add: getString_Nil)
  next
    case (Cons b0 bs)
    show ?thesis
    proof (cases "b0 < 128")
      case True
      with g Cons have "unat b0 \<le> length bs" "s = take (unat b0) bs" "rest = drop (unat b0) bs"
        by (auto simp: getString_7 split: if_splits)
      moreover have "unat b0 < 128" using True by (simp add: word_less_nat_alt)
      ultimately show ?thesis using Cons by (simp add: marshalString_simps)
    next
      case False
      then obtain b1 bs' where bs: "bs = b1 # bs'"
        using g Cons by (cases bs) (auto simp: getString_15)
      define l where "l = (unat b0 - 128) * 256 + unat b1"
      have l: "127 < l" "l \<le> length bs'" "s = take l bs'" "rest = drop l bs'"
        using g False Cons bs by (auto simp: getString_15 Let_def l_def split: if_splits)
      have b: "128 \<le> unat b0" "unat b0 < 256" "unat b1 < 256"
        using False unat_byte_less by (simp_all add: word_less_nat_alt)
      then have "l \<le> 32767" "l div 256 + 128 = unat b0" "l mod 256 = unat b1"
        by (simp_all add: l_def)
      with l show ?thesis
        using Cons bs marshalString_simps(2) [of s] by (simp del: of_nat_add)
    qed
  qed
qed (auto simp: getString_marshalString)

lemma getString_total: "\<exists>r. getString data = Some r"
proof (cases data)
  case (Cons b0 bs)
  then show ?thesis
    by (cases "b0 < 128"; cases bs) (auto simp: getString_7 getString_15 Let_def)
qed (simp add: getString_Nil)

subsection \<open>Entry lists\<close>

text \<open>The specification of the key-value section: a concatenation of encoded entries.\<close>

definition storable :: "bytes \<times> bytes \<Rightarrow> bool" where
  "storable kv \<longleftrightarrow> length (fst kv) \<le> 32767 \<and> length (snd kv) \<le> 32767"

definition sendable :: "bytes \<times> bytes \<Rightarrow> bool" where
  "sendable kv \<longleftrightarrow> fst kv \<noteq> [] \<and> storable kv"

definition enc_entry :: "bytes \<times> bytes \<Rightarrow> bytes" where
  "enc_entry kv = fst (marshalString (fst kv)) @ fst (marshalString (snd kv))"

definition enc_entries :: "(bytes \<times> bytes) list \<Rightarrow> bytes" where
  "enc_entries kvs = concat (map enc_entry kvs)"

definition put_entries ::
    "(bytes \<Rightarrow> bytes) \<Rightarrow> (bytes \<rightharpoonup> bytes) \<Rightarrow> (bytes \<times> bytes) list \<Rightarrow> (bytes \<rightharpoonup> bytes)" where
  "put_entries uni m kvs = foldl (\<lambda>m kv. m(strings_ToLower uni (fst kv) \<mapsto> snd kv)) m kvs"

lemma enc_entries_simps [simp]:
  "enc_entries [] = []" "enc_entries (kv # kvs) = enc_entry kv @ enc_entries kvs"
  "enc_entries (kvs @ kvs') = enc_entries kvs @ enc_entries kvs'"
  by (simp_all add: enc_entries_def)

lemma put_entries_simps [simp]:
  "put_entries uni m [] = m"
  "put_entries uni m (kv # kvs) = put_entries uni (m(strings_ToLower uni (fst kv) \<mapsto> snd kv)) kvs"
  by (simp_all add: put_entries_def)

lemma marshalString_nonempty: "length s \<le> 32767 \<Longrightarrow> fst (marshalString s) \<noteq> []"
  by (cases "length s \<le> 127") (simp_all add: marshalString_simps)

lemma unmarshal_loop_total: "\<exists>r. unmarshal_loop uni m data = Some r"
proof (induction uni m data rule: unmarshal_loop.induct)
  case (1 uni vs data)
  then show ?case
    using getString_total [of data] getString_total
    by (subst unmarshal_loop.simps) (fastforce split: sum.splits prod.splits option.splits)
qed

lemma unmarshal_loop_enc:
  "list_all storable kvs \<Longrightarrow>
   unmarshal_loop uni m (enc_entries kvs) = Some (Inr (put_entries uni m kvs))"
proof (induction kvs arbitrary: m)
  case Nil
  show ?case by (subst unmarshal_loop.simps) simp
next
  case (Cons kv kvs)
  then have "length (fst kv) \<le> 32767" "length (snd kv) \<le> 32767" by (simp_all add: storable_def)
  then show ?case
    using Cons marshalString_nonempty
    by (subst unmarshal_loop.simps) (simp add: enc_entry_def getString_marshalString)
qed

lemma unmarshal_loop_Inr:
  "unmarshal_loop uni m data = Some (Inr m') \<longleftrightarrow>
     (\<exists>kvs. list_all storable kvs \<and> data = enc_entries kvs \<and> m' = put_entries uni m kvs)"
proof
  show "unmarshal_loop uni m data = Some (Inr m') \<Longrightarrow>
     \<exists>kvs. list_all storable kvs \<and> data = enc_entries kvs \<and> m' = put_entries uni m kvs"
  proof (induction uni m data rule: unmarshal_loop.induct)
    case (1 uni vs data)
    show ?case
    proof (cases "data = []")
      case True
      with "1.prems" show ?thesis
        by (intro exI [of _ "[]"]) (simp add: unmarshal_loop.simps [of uni vs "[]"])
    next
      case False
      then have n: "length data \<noteq> 0" by simp
      from False "1.prems" obtain key d1 val d2 where
        k: "getString data = Some (Inr (key, d1))" and v: "getString d1 = Some (Inr (val, d2))"
        and r: "unmarshal_loop uni (vs(strings_ToLower uni key \<mapsto> val)) d2 = Some (Inr m')"
        by (auto simp: unmarshal_loop.simps [of uni vs data] split: option.splits sum.splits)
      obtain kvs where kvs: "list_all storable kvs" "d2 = enc_entries kvs"
        "m' = put_entries uni (vs(strings_ToLower uni key \<mapsto> val)) kvs"
        using "1.IH" [OF n k refl refl v refl refl r] by blast
      with k v show ?thesis
        by (intro exI [of _ "(key, val) # kvs"])
           (auto simp: getString_Inr enc_entry_def storable_def [of "(key, val)"])
    qed
  qed
qed (auto simp: unmarshal_loop_enc)

lemma marshalString_tooLong: "marshalString s = (fst (marshalString s), \<not> length s \<le> 32767)"
  by (cases "length s \<le> 127"; cases "length s \<le> 32767") (simp_all add: marshalString_simps)

lemma marshal_loop_Cons:
  "marshal_loop mx (kv # kvs) data =
     (if \<not> sendable kv then marshal_loop mx kvs data
      else if int (length (enc_entry kv) + length data) > mx then data
      else marshal_loop mx kvs (data @ enc_entry kv))"
proof -
  obtain key val where kv: "kv = (key, val)" by (cases kv)
  obtain k v where "marshalString key = (k, \<not> length key \<le> 32767)"
      "marshalString val = (v, \<not> length val \<le> 32767)"
    using marshalString_tooLong by blast
  then show ?thesis
    by (simp add: kv sendable_def storable_def enc_entry_def)
qed

declare marshal_loop.simps(2) [simp del]

lemma marshal_loop_spec:
  "\<exists>ds rs. filter sendable kvs = ds @ rs \<and> marshal_loop mx kvs data = data @ enc_entries ds \<and>
     (int (length data) \<le> mx \<longrightarrow> int (length (marshal_loop mx kvs data)) \<le> mx) \<and>
     (int (length data + length (enc_entries (filter sendable kvs))) \<le> mx \<longrightarrow> rs = [])"
proof (induction kvs arbitrary: data)
  case Nil
  show ?case by simp
next
  case (Cons kv kvs)
  show ?case
  proof (cases "sendable kv \<and> \<not> int (length (enc_entry kv) + length data) > mx")
    case True
    obtain ds rs where "filter sendable kvs = ds @ rs"
      "marshal_loop mx kvs (data @ enc_entry kv) = (data @ enc_entry kv) @ enc_entries ds"
      "int (length (data @ enc_entry kv)) \<le> mx \<longrightarrow>
         int (length (marshal_loop mx kvs (data @ enc_entry kv))) \<le> mx"
      "int (length (data @ enc_entry kv) + length (enc_entries (filter sendable kvs))) \<le> mx \<longrightarrow> rs = []"
      using Cons.IH [of "data @ enc_entry kv"] by blast
    with True show ?thesis
      by (intro exI [of _ "kv # ds"] exI [of _ rs]) (auto simp: marshal_loop_Cons)
  next
    case False
    then show ?thesis
    proof (cases "sendable kv")
      case True
      with False show ?thesis
        by (intro exI [of _ "[]"] exI [of _ "kv # filter sendable kvs"]) (auto simp: marshal_loop_Cons)
    next
      case False
      with Cons.IH [of data] show ?thesis by (simp add: marshal_loop_Cons)
    qed
  qed
qed

subsection \<open>Maps and their entry lists\<close>

text \<open>What of a map can be sent: the entries with a non-empty key, both strings within the limit.\<close>

definition wire_map :: "(bytes \<rightharpoonup> bytes) \<Rightarrow> (bytes \<rightharpoonup> bytes)" where
  "wire_map m k = (case m k of None \<Rightarrow> None | Some v \<Rightarrow> if sendable (k, v) then Some v else None)"

definition lower_keys :: "(bytes \<Rightarrow> bytes) \<Rightarrow> (bytes \<rightharpoonup> bytes) \<Rightarrow> bool" where
  "lower_keys uni m \<longleftrightarrow> (\<forall>k \<in> dom m. strings_ToLower uni k = k)"

lemma map_entries_keys:
  "map fst (List.map_filter (\<lambda>k. map_option (Pair k) (m k)) ord) = filter (\<lambda>k. k \<in> dom m) ord"
  by (induction ord) (auto simp: List.map_filter_simps split: option.splits)

lemma map_of_map_entries:
  "map_of (List.map_filter (\<lambda>k. map_option (Pair k) (m k)) ord) = m |` set ord"
proof (induction ord)
  case (Cons k ord)
  then show ?case
    by (cases "m k") (auto simp: List.map_filter_simps restrict_map_def fun_eq_iff)
qed (simp add: List.map_filter_simps)

lemma map_of_filter_distinct:
  "distinct (map fst kvs) \<Longrightarrow>
   map_of (filter P kvs) k = (case map_of kvs k of None \<Rightarrow> None | Some v \<Rightarrow> if P (k, v) then Some v else None)"
  by (induction kvs) (auto split: option.splits, force dest: map_of_SomeD)

lemma put_entries_lower:
  "(\<forall>kv \<in> set kvs. strings_ToLower uni (fst kv) = fst kv) \<Longrightarrow> distinct (map fst kvs) \<Longrightarrow>
   put_entries uni m kvs = m ++ map_of kvs"
proof (induction kvs arbitrary: m)
  case (Cons kv kvs)
  then have n: "fst kv \<notin> dom (map_of kvs)" by (auto simp: dom_map_of_conv_image_fst)
  have "put_entries uni m (kv # kvs) = m(fst kv \<mapsto> snd kv) ++ map_of kvs"
    using Cons by simp
  also have "\<dots> = m ++ map_of (kv # kvs)"
    using n by (cases kv) (auto simp: map_add_def domIff split: option.splits)
  finally show ?case .
qed simp

lemma entries_wire_map:
  assumes "iter_order (Some m) ord" and "lower_keys uni m"
    and f: "filter sendable (map_entries (Some m) ord) = ds @ rs"
  shows "put_entries uni Map.empty ds \<subseteq>\<^sub>m wire_map m"
    and "rs = [] \<Longrightarrow> put_entries uni Map.empty ds = wire_map m"
    and "list_all storable ds"
proof -
  define kvs where "kvs = map_entries (Some m) ord"
  have d: "distinct (map fst kvs)" and keys: "fst ` set kvs = dom m" and mo: "map_of kvs = m"
    using assms(1)
    by (auto simp: kvs_def map_entries_def map_entries_keys map_of_map_entries iter_order_def
        restrict_map_def fun_eq_iff domIff simp flip: set_map)
  have w: "map_of (filter sendable kvs) = wire_map m"
    using map_of_filter_distinct [OF d, of sendable] by (simp add: fun_eq_iff wire_map_def mo)
  have fs: "set ds \<subseteq> {kv \<in> set kvs. sendable kv}"
    unfolding kvs_def set_filter [symmetric] f by simp
  have low: "\<forall>kv \<in> set ds. strings_ToLower uni (fst kv) = fst kv"
    using fs assms(2) unfolding lower_keys_def keys [symmetric] by blast
  have dd: "distinct (map fst (ds @ rs))"
    unfolding f [symmetric, folded kvs_def] using d by (simp add: distinct_map_filter)
  then have p: "put_entries uni Map.empty ds = map_of ds"
    using put_entries_lower [OF low] by simp
  have "map_of (ds @ rs) = map_of rs ++ map_of ds" by simp
  moreover have "map_of rs ++ map_of ds = map_of ds ++ map_of rs"
    using dd by (intro map_add_comm) (auto simp: dom_map_of_conv_image_fst)
  ultimately show "put_entries uni Map.empty ds \<subseteq>\<^sub>m wire_map m"
    unfolding p w [symmetric] kvs_def f by (metis map_le_map_add)
  show "rs = [] \<Longrightarrow> put_entries uni Map.empty ds = wire_map m"
    unfolding p w [symmetric] kvs_def f by simp
  show "list_all storable ds"
    using fs by (auto simp: list_all_iff sendable_def)
qed

lemma getString_Inl: "getString data = Some (Inl e) \<Longrightarrow> e = ErrInvalidMetadataData"
proof (cases data)
  case (Cons b0 bs)
  then show "getString data = Some (Inl e) \<Longrightarrow> e = ErrInvalidMetadataData"
    by (cases "b0 < 128"; cases bs) (auto simp: getString_7 getString_15 Let_def split: if_splits)
qed (simp add: getString_Nil)

lemma unmarshal_loop_Inl: "unmarshal_loop uni m data = Some (Inl e) \<Longrightarrow> e = ErrInvalidMetadataData"
proof (induction uni m data rule: unmarshal_loop.induct)
  case (1 uni vs data)
  then have n: "length data \<noteq> 0" by (auto simp: unmarshal_loop.simps [of uni vs data] split: if_splits)
  with "1.prems" consider "getString data = Some (Inl e)"
    | key d1 where "getString data = Some (Inr (key, d1))" "getString d1 = Some (Inl e)"
    | key d1 val d2 where "getString data = Some (Inr (key, d1))" "getString d1 = Some (Inr (val, d2))"
        "unmarshal_loop uni (vs(strings_ToLower uni key \<mapsto> val)) d2 = Some (Inl e)"
    by (auto simp: unmarshal_loop.simps [of uni vs data] split: option.splits sum.splits)
  then show ?case
    by cases (erule getString_Inl, erule getString_Inl, rule "1.IH" [OF n _ refl refl _ refl refl])
qed

lemma enc_entry_length: "storable kv \<Longrightarrow> 2 \<le> length (enc_entry kv)"
proof -
  assume "storable kv"
  then have "fst (marshalString (fst kv)) \<noteq> []" "fst (marshalString (snd kv)) \<noteq> []"
    by (simp_all add: storable_def marshalString_nonempty)
  then show ?thesis
    unfolding enc_entry_def length_append by (metis add_mono length_0_conv less_one not_less one_add_one)
qed

lemma UnmarshalValues_enc:
  assumes "list_all storable kvs"
  shows "UnmarshalValues uni md (enc_entries kvs) =
           Some (md\<lparr>md_Values := Some (put_entries uni Map.empty kvs)\<rparr>, None)"
proof (cases kvs)
  case (Cons kv kvs')
  then have "2 \<le> length (enc_entries kvs)" using assms enc_entry_length [of kv] by simp
  then show ?thesis
    using unmarshal_loop_enc [OF assms, of uni Map.empty] by (auto simp: UnmarshalValues_def)
qed (simp add: UnmarshalValues_def)

text \<open>
  C33. The length-prefixed string encoding is unique: the parser splits a string off the front of
  the input exactly when the input starts with what \<open>marshalString\<close> writes for that string, and only for strings
  of at most \<open>2^15 - 1\<close> bytes; in particular a 15-bit prefix for a length below 128 is refused.
\<close>

theorem string_encoding_unique:
  "getString data = Some (Inr (s, rest)) \<longleftrightarrow>
     data = fst (marshalString s) @ rest \<and> \<not> snd (marshalString s)"
  using marshalString_tooLong [of s] by (metis getString_Inr snd_conv)

text \<open>
  C31. Unmarshalling a metadata section returns on every input, without a panic, and accepts exactly the concatenations
  of encoded entries; the result maps the lower-cased keys to their last values.
  On any other input the error is \<open>ErrInvalidMetadataData\<close> and the metadata is unchanged.
\<close>

theorem UnmarshalValues_spec:
  "if \<exists>kvs. list_all storable kvs \<and> data = enc_entries kvs
   then \<forall>kvs. list_all storable kvs \<and> data = enc_entries kvs \<longrightarrow>
          UnmarshalValues uni md data = Some (md\<lparr>md_Values := Some (put_entries uni Map.empty kvs)\<rparr>, None)
   else UnmarshalValues uni md data = Some (md, Some ErrInvalidMetadataData)"
proof (cases "\<exists>kvs. list_all storable kvs \<and> data = enc_entries kvs")
  case True
  then show ?thesis by (auto simp: UnmarshalValues_enc)
next
  case False
  moreover obtain r where r: "unmarshal_loop uni Map.empty data = Some r"
    using unmarshal_loop_total by blast
  moreover have "data \<noteq> []" using False by (auto dest: spec [of _ "[]"])
  moreover have "r = Inl ErrInvalidMetadataData"
    using False r unmarshal_loop_Inr [of uni Map.empty data] unmarshal_loop_Inl [of uni Map.empty data]
    by (cases r) auto
  ultimately have "UnmarshalValues uni md data = Some (md, Some ErrInvalidMetadataData)"
    by (simp add: UnmarshalValues_def)
  with False show ?thesis by (simp only: if_False)
qed

theorem UnmarshalValues_spec_witness:
  "UnmarshalValues id Metadata_zero [1, 97, 2, 98, 99] =
     Some (Metadata_zero\<lparr>md_Values := Some [[97] \<mapsto> [98, 99]]\<rparr>, None)"
proof -
  have e: "[1, 97, 2, 98, 99] = enc_entries [([97], [98, 99])]" "list_all storable [([97], [98, 99])]"
    by (simp_all add: enc_entry_def marshalString_def max7BitLength_def storable_def)
  have p: "put_entries id Map.empty [([97], [98, 99])] = [[97] \<mapsto> [98, 99]]"
    by (simp add: put_entries_def strings_ToLower_def ascii_lower_def)
  have ex: "\<exists>kvs. list_all storable kvs \<and> [1, 97, 2, 98, 99] = enc_entries kvs" using e by blast
  have "\<forall>kvs. list_all storable kvs \<and> [1, 97, 2, 98, 99] = enc_entries kvs \<longrightarrow>
      UnmarshalValues id Metadata_zero [1, 97, 2, 98, 99] =
        Some (Metadata_zero\<lparr>md_Values := Some (put_entries id Map.empty kvs)\<rparr>, None)"
    using UnmarshalValues_spec [of "[1, 97, 2, 98, 99]" id Metadata_zero] unfolding if_P [OF ex] .
  from spec [OF this, of "[([97], [98, 99])]"] show ?thesis unfolding p using e by simp
qed

text \<open>The section of a map that may be nil.\<close>

definition sent_values :: "Metadata \<Rightarrow> (bytes \<rightharpoonup> bytes)" where
  "sent_values md = wire_map (case md_Values md of None \<Rightarrow> Map.empty | Some m \<Rightarrow> m)"

lemma MarshalValues_parsed:
  assumes "md_Values md = Some m" and "iter_order (Some m) ord" and "lower_keys uni m" and "0 \<le> mx"
  obtains m' where "\<And>md0. UnmarshalValues uni md0 (MarshalValues ord md mx) = Some (md0\<lparr>md_Values := Some m'\<rparr>, None)"
    "m' \<subseteq>\<^sub>m wire_map m"
    "int (length (enc_entries (filter sendable (map_entries (Some m) ord)))) \<le> mx \<longrightarrow> m' = wire_map m"
    "int (length (MarshalValues ord md mx)) \<le> mx"
proof -
  define kvs where "kvs = map_entries (Some m) ord"
  have mv: "MarshalValues ord md mx = marshal_loop mx kvs []"
    by (simp add: MarshalValues_def assms(1) kvs_def Let_def)
  obtain ds rs where f: "filter sendable kvs = ds @ rs"
      and l: "marshal_loop mx kvs [] = enc_entries ds"
      and b: "int (length (marshal_loop mx kvs [])) \<le> mx"
      and t: "int (length (enc_entries (filter sendable kvs))) \<le> mx \<longrightarrow> rs = []"
    using marshal_loop_spec [of kvs mx "[]"] assms(4) by auto
  note e = entries_wire_map [OF assms(2,3) f [unfolded kvs_def]]
  show ?thesis
    by (rule that [of "put_entries uni Map.empty ds"])
       (use e UnmarshalValues_enc [OF e(3)] b t in \<open>auto simp: mv l kvs_def [symmetric]\<close>)
qed

text \<open>
  C32. A metadata section written by \<open>MarshalValues\<close>, in whatever order the map is ranged over, is
  parsed back without error.  The result is a part of what can be sent of the map, and all of it
  when that fits the given maximum; the section is never longer than the maximum.
\<close>

theorem MarshalValues_roundtrip:
  assumes "md_Values md = Some m" and "iter_order (Some m) ord" and "lower_keys uni m" and "0 \<le> mx"
  shows "\<exists>m'. UnmarshalValues uni md0 (MarshalValues ord md mx) = Some (md0\<lparr>md_Values := Some m'\<rparr>, None)
     \<and> m' \<subseteq>\<^sub>m wire_map m
     \<and> (int (length (enc_entries (filter sendable (map_entries (Some m) ord)))) \<le> mx \<longrightarrow> m' = wire_map m)
     \<and> int (length (MarshalValues ord md mx)) \<le> mx"
  using MarshalValues_parsed [OF assms] by metis

theorem MarshalValues_roundtrip_witness:
  "\<exists>m'. UnmarshalValues id Metadata_zero
      (MarshalValues [[97], [98]] (Metadata_zero\<lparr>md_Values := Some [[97] \<mapsto> [1, 2], [98] \<mapsto> []]\<rparr>) 5) =
      Some (Metadata_zero\<lparr>md_Values := Some m'\<rparr>, None)
     \<and> m' \<subseteq>\<^sub>m wire_map [[97] \<mapsto> [1, 2], [98] \<mapsto> []]"
proof -
  have "iter_order (Some [[97] \<mapsto> [1, 2], [98] \<mapsto> []]) [[97], [98]]"
    by (auto simp: iter_order_def)
  moreover have "lower_keys id [[97] \<mapsto> [1, 2], [98] \<mapsto> []]"
    by (auto simp: lower_keys_def strings_ToLower_def ascii_lower_def)
  ultimately show ?thesis
    using MarshalValues_roundtrip [of "Metadata_zero\<lparr>md_Values := Some [[97] \<mapsto> [1, 2], [98] \<mapsto> []]\<rparr>"
        "[[97] \<mapsto> [1, 2], [98] \<mapsto> []]" "[[97], [98]]" id 5 Metadata_zero] by auto
qed

subsection \<open>Set and Get\<close>

text \<open>
  C38. \<open>Set\<close> refuses a key or value of \<open>2^15\<close> bytes or more and leaves the metadata unchanged, panics exactly when the
  lengths are fine and the map is nil, and otherwise makes \<open>Get\<close> return the value under every
  spelling of the key and leaves all other keys alone.
\<close>

theorem Metadata_Set_Get:
  "case Metadata_Set uni md k v of
     None \<Rightarrow> md_Values md = None \<and> length k < 2 ^ 15 \<and> length v < 2 ^ 15
   | Some (md', Some e) \<Rightarrow>
       md' = md \<and> (if length k < 2 ^ 15 then e = ErrValueLengthTooLong \<and> 2 ^ 15 \<le> length v
                   else e = ErrKeyLengthTooLong)
   | Some (md', None) \<Rightarrow>
       md_Values md \<noteq> None \<and> length k < 2 ^ 15 \<and> length v < 2 ^ 15 \<and>
       (\<forall>k'. Metadata_Get uni md' k' =
          (if strings_ToLower uni k' = strings_ToLower uni k then v else Metadata_Get uni md k'))"
  by (auto simp: Metadata_Set_def Metadata_Get_def maxStringLength_def max15BitLength_def
      split: option.splits)

subsection \<open>Lower-case keys\<close>

definition lower_idem :: "(bytes \<Rightarrow> bytes) \<Rightarrow> bool" where
  "lower_idem uni \<longleftrightarrow> (\<forall>s. strings_ToLower uni (strings_ToLower uni s) = strings_ToLower uni s)"

definition wf_values :: "(bytes \<Rightarrow> bytes) \<Rightarrow> Metadata \<Rightarrow> bool" where
  "wf_values uni md \<longleftrightarrow> (case md_Values md of None \<Rightarrow> True | Some m \<Rightarrow> lower_keys uni m)"

lemma lower_keys_upd:
  "lower_idem uni \<Longrightarrow> lower_keys uni m \<Longrightarrow> lower_keys uni (m(strings_ToLower uni k \<mapsto> v))"
  unfolding lower_keys_def lower_idem_def by (metis dom_fun_upd insertE option.discI)

lemma put_entries_lower_keys:
  "lower_idem uni \<Longrightarrow> lower_keys uni m \<Longrightarrow> lower_keys uni (put_entries uni m kvs)"
  by (induction kvs arbitrary: m) (simp_all add: lower_keys_upd)

lemma ascii_lower_idem: "c < 128 \<Longrightarrow> ascii_lower c < 128 \<and> ascii_lower (ascii_lower c) = ascii_lower c"
proof (cases "65 \<le> c \<and> c \<le> 90")
  case True
  then have u: "unat (c + 32) = unat c + 32" "65 \<le> unat c" "unat c \<le> 90"
    by (simp_all add: word_le_nat_alt unat_word_ariths)
  then have "\<not> c + 32 \<le> 90" "c + 32 < 128" by (simp_all add: word_le_nat_alt word_less_nat_alt)
  with True show ?thesis by (simp add: ascii_lower_def)
qed (auto simp: ascii_lower_def)

lemma ToLower_ascii_idem:
  "list_all (\<lambda>c. c < 128) s \<Longrightarrow>
   strings_ToLower uni (strings_ToLower uni s) = strings_ToLower uni s"
  by (auto simp: strings_ToLower_def list_all_iff ascii_lower_idem)

lemma lower_idem_id: "lower_idem id"
  using ToLower_ascii_idem [of _ id] by (auto simp: lower_idem_def strings_ToLower_def)

text \<open>
  Both ways of filling the value map, \<open>Set\<close> and \<open>UnmarshalValues\<close>, keep the invariant that every key is in lower case,
  given that lower-casing twice is the same as once.
\<close>

theorem values_lower_invariant:
  assumes "lower_idem uni" and "wf_values uni md"
  shows "(Metadata_Set uni md k v = Some (md', e) \<longrightarrow> wf_values uni md') \<and>
         (UnmarshalValues uni md data = Some (md'', e') \<longrightarrow> wf_values uni md'')"
proof (intro conjI impI)
  assume "Metadata_Set uni md k v = Some (md', e)"
  then show "wf_values uni md'"
    using assms
    by (auto simp: Metadata_Set_def wf_values_def lower_keys_upd split: if_splits option.splits)
next
  assume u: "UnmarshalValues uni md data = Some (md'', e')"
  have "lower_keys uni Map.empty" by (simp add: lower_keys_def)
  note l = put_entries_lower_keys [OF assms(1) this]
  show "wf_values uni md''"
  proof (cases "\<exists>kvs. list_all storable kvs \<and> data = enc_entries kvs")
    case True
    with u l show ?thesis by (auto simp: UnmarshalValues_enc wf_values_def)
  next
    case False
    with u assms(2) unmarshal_loop_Inr [of uni Map.empty data] show ?thesis
      by (auto simp: UnmarshalValues_def wf_values_def lower_keys_def
          split: if_splits option.splits bind_splits sum.splits)
  qed
qed

theorem values_lower_invariant_witness:
  "wf_values id (Metadata_zero\<lparr>md_Values := Some [[97] \<mapsto> [9]]\<rparr>)"
proof -
  have "Metadata_Set id (Metadata_zero\<lparr>md_Values := Some Map.empty\<rparr>) [65] [9] =
      Some (Metadata_zero\<lparr>md_Values := Some [[97] \<mapsto> [9]]\<rparr>, None)"
    by (simp add: Metadata_Set_def maxStringLength_def max15BitLength_def strings_ToLower_def ascii_lower_def)
  then show ?thesis
    using values_lower_invariant [OF lower_idem_id, of "Metadata_zero\<lparr>md_Values := Some Map.empty\<rparr>" "[65]" "[9]" _ None "[]" _ None]
    by (simp add: wf_values_def [of id "Metadata_zero\<lparr>md_Values := Some Map.empty\<rparr>"] lower_keys_def)
qed

end
