(* ===== verification/Logger.thy ===== *)
theory Logger
  imports Metadata
begin

text \<open>
  The default logger (\<open>go/logger.go\<close>).

  A method returns the lines it writes to the standard logger; Go's \<open>fmt\<close> formatting of a message and its
  arguments is the parameter \<open>fmt\<close>.  \<open>LevelInfo\<close> is declared as \<open>iota\<close> in second position, so the levels are
  \<open>-1, 1, 2, 3\<close> and a zero-valued logger sits between debug and info.
\<close>

type_synonym LogLevel = int

definition LevelDebug :: LogLevel where "LevelDebug = - 1"
definition LevelInfo :: LogLevel where "LevelInfo = 1"
definition LevelWarn :: LogLevel where "LevelWarn = 2"
definition LevelError :: LogLevel where "LevelError = 3"

record DefaultLogger =
  lg_lvl :: LogLevel

definition DefaultLogger_zero :: DefaultLogger where "DefaultLogger_zero = \<lparr>lg_lvl = 0\<rparr>"

definition go_bytes :: "string \<Rightarrow> bytes" where
  "go_bytes s = map (\<lambda>c. word_of_nat (of_char c)) s"

definition DefaultLogger_SetLevel :: "(bytes \<Rightarrow> bytes) \<Rightarrow> DefaultLogger \<Rightarrow> bytes \<Rightarrow> DefaultLogger" where
  "DefaultLogger_SetLevel uni l lvl =
     (let lvl = strings_ToLower uni lvl in
      if lvl = go_bytes ''info'' then l\<lparr>lg_lvl := LevelInfo\<rparr>
      else if lvl = go_bytes ''debug'' then l\<lparr>lg_lvl := LevelDebug\<rparr>
      else if lvl = go_bytes ''warn'' then l\<lparr>lg_lvl := LevelWarn\<rparr>
      else if lvl = go_bytes ''error'' then l\<lparr>lg_lvl := LevelError\<rparr>
      else l)"

definition DefaultLogger_Info :: "DefaultLogger \<Rightarrow> string \<Rightarrow> string list" where
  "DefaultLogger_Info l msg = (if lg_lvl l \<le> LevelInfo then [''[INFO] '' @ msg] else [])"

definition DefaultLogger_Infof :: "(string \<Rightarrow> 'a list \<Rightarrow> string) \<Rightarrow> DefaultLogger \<Rightarrow> string \<Rightarrow> 'a list \<Rightarrow> string list" where
  "DefaultLogger_Infof fmt l msg args = (if lg_lvl l \<le> LevelInfo then [fmt (''[INFO] '' @ msg) args] else [])"

definition DefaultLogger_Error :: "DefaultLogger \<Rightarrow> string \<Rightarrow> string list" where
  "DefaultLogger_Error l msg = (if lg_lvl l \<le> LevelError then [''[ERR] '' @ msg] else [])"

definition DefaultLogger_Errorf :: "(string \<Rightarrow> 'a list \<Rightarrow> string) \<Rightarrow> DefaultLogger \<Rightarrow> string \<Rightarrow> 'a list \<Rightarrow> string list" where
  "DefaultLogger_Errorf fmt l msg args = (if lg_lvl l \<le> LevelError then [fmt (''[ERR] '' @ msg) args] else [])"

definition DefaultLogger_Debug :: "DefaultLogger \<Rightarrow> string \<Rightarrow> string list" where
  "DefaultLogger_Debug l msg = (if lg_lvl l \<le> LevelDebug then [''[DEBUG] '' @ msg] else [])"

definition DefaultLogger_Debugf :: "(string \<Rightarrow> 'a list \<Rightarrow> string) \<Rightarrow> DefaultLogger \<Rightarrow> string \<Rightarrow> 'a list \<Rightarrow> string list" where
  "DefaultLogger_Debugf fmt l msg args = (if lg_lvl l \<le> LevelDebug then [fmt (''[DEBUG] '' @ msg) args] else [])"

definition DefaultLogger_Warn :: "DefaultLogger \<Rightarrow> string \<Rightarrow> string list" where
  "DefaultLogger_Warn l msg = (if lg_lvl l \<le> LevelWarn then [''[WARN] '' @ msg] else [])"

definition DefaultLogger_Warnf :: "(string \<Rightarrow> 'a list \<Rightarrow> string) \<Rightarrow> DefaultLogger \<Rightarrow> string \<Rightarrow> 'a list \<Rightarrow> string list" where
  "DefaultLogger_Warnf fmt l msg args = (if lg_lvl l \<le> LevelWarn then [fmt (''[WARN] '' @ msg) args] else [])"

subsection \<open>Thresholds\<close>

definition level_names :: "(bytes \<times> LogLevel) list" where
  "level_names = [(go_bytes ''debug'', LevelDebug), (go_bytes ''info'', LevelInfo),
     (go_bytes ''warn'', LevelWarn), (go_bytes ''error'', LevelError)]"

definition known_level :: "LogLevel \<Rightarrow> bool" where
  "known_level n \<longleftrightarrow> n \<in> {LevelDebug, 0, LevelInfo, LevelWarn, LevelError}"

lemmas level_defs = LevelDebug_def LevelInfo_def LevelWarn_def LevelError_def

lemma SetLevel_names:
  "lg_lvl (DefaultLogger_SetLevel uni l lvl) =
     (case map_of level_names (strings_ToLower uni lvl) of None \<Rightarrow> lg_lvl l | Some n \<Rightarrow> n)"
proof -
  have "distinct (map fst level_names)" by (simp add: level_names_def go_bytes_def)
  then show ?thesis by (auto simp: DefaultLogger_SetLevel_def level_names_def Let_def)
qed

text \<open>
  \<open>SetLevel\<close> recognises the four level names in any letter case and ignores every other name, so a logger's level stays one of
  five values; on every such level the error methods always write, and whatever is written at one
  severity is also written at every higher one.
\<close>

theorem logger_threshold:
  assumes "known_level (lg_lvl l)" and "l' = DefaultLogger_SetLevel uni l name"
  shows "known_level (lg_lvl l') \<and>
    lg_lvl l' = (case map_of level_names (strings_ToLower uni name) of None \<Rightarrow> lg_lvl l | Some n \<Rightarrow> n) \<and>
    DefaultLogger_Error l' msg \<noteq> [] \<and> DefaultLogger_Errorf fmt l' msg args \<noteq> [] \<and>
    (DefaultLogger_Debug l' msg \<noteq> [] \<longrightarrow> DefaultLogger_Info l' msg \<noteq> []) \<and>
    (DefaultLogger_Info l' msg \<noteq> [] \<longrightarrow> DefaultLogger_Warn l' msg \<noteq> []) \<and>
    (DefaultLogger_Debugf fmt l' msg args \<noteq> [] \<longleftrightarrow> DefaultLogger_Debug l' msg \<noteq> []) \<and>
    (DefaultLogger_Infof fmt l' msg args \<noteq> [] \<longleftrightarrow> DefaultLogger_Info l' msg \<noteq> []) \<and>
    (DefaultLogger_Warnf fmt l' msg args \<noteq> [] \<longleftrightarrow> DefaultLogger_Warn l' msg \<noteq> [])"
proof -
  have "known_level (lg_lvl l')"
    using assms by (auto simp: SetLevel_names level_names_def known_level_def split: option.splits if_splits)
  then show ?thesis
    using SetLevel_names [of uni l name] unfolding assms(2)
    by (auto simp: known_level_def level_defs DefaultLogger_Error_def DefaultLogger_Errorf_def DefaultLogger_Debug_def
        DefaultLogger_Debugf_def DefaultLogger_Info_def DefaultLogger_Infof_def DefaultLogger_Warn_def DefaultLogger_Warnf_def)
qed

theorem logger_threshold_witness:
  "known_level (lg_lvl (DefaultLogger_SetLevel id DefaultLogger_zero (go_bytes ''WARN''))) \<and>
   DefaultLogger_Error (DefaultLogger_SetLevel id DefaultLogger_zero (go_bytes ''WARN'')) ''x'' \<noteq> []"
proof -
  have "known_level (lg_lvl DefaultLogger_zero)" by (simp add: known_level_def DefaultLogger_zero_def)
  from logger_threshold [OF this refl, of id "go_bytes ''WARN''" "''x''" "\<lambda>m _. m" "[]"] show ?thesis by (elim conjE) (intro conjI)
qed

end
