(* ===== verification/Protocol_Context.thy ===== *)
theory Protocol_Context
  imports Protocol
begin

text \<open>
  Connection contexts (\<open>go/context.go\<close>).

  \<open>Context\<close> is the record of one connection's state: the header of a half-read frame, the
  authentication info, the request-id counter and the negotiated handshake values.  The two cells of
  \<open>buildin\<close> are the fields \<open>ctx_Header\<close> (\<open>ContextKeyHeader\<close>) and \<open>ctx_AuthInfo\<close>
  (\<open>ContextKeyAuthInfo\<close>); the header's type is a type variable, instantiated by each protocol version.
  The request-id generator is a closure over a counter in Go; the counter is the field \<open>ctx_reqId\<close>.
  The embedded \<open>context.Context\<close> is used only by \<open>Value\<close>, where it is a parameter.
  The lemmas show that a context that fails a handshake is unchanged, that ids are distinct until the
  counter wraps, and that finishing a frame forgets its header.
\<close>

type_synonym ContextKey = int

definition ContextKeyHeader :: ContextKey where "ContextKeyHeader = 0"
definition ContextKeyAuthInfo :: ContextKey where "ContextKeyAuthInfo = 1"
definition ContextKeyEnd :: ContextKey where "ContextKeyEnd = 2"

type_synonym PeerSide = string

definition ServerSide :: PeerSide where "ServerSide = ''server''"
definition ClientSide :: PeerSide where "ClientSide = ''client''"

record ('h, 'i) Context =
  ctx_Header :: "'h option"
  ctx_AuthInfo :: "'i option"
  ctx_reqId :: "32 word"
  ctx_Side :: PeerSide
  ctx_Handshaked :: bool
  ctx_Authed :: bool
  ctx_Codec :: CodecType
  ctx_Version :: "8 word"
  ctx_Platform :: PlatformType
  ctx_beginUnpack :: bool
  ctx_closed :: bool
  ctx_proxyed :: bool

definition NextReqId :: "('h, 'i) Context \<Rightarrow> ('h, 'i) Context \<times> 32 word" where
  "NextReqId c = (let n = ctx_reqId c + 1 in (c\<lparr>ctx_reqId := n\<rparr>, n))"

definition SetProxyed :: "('h, 'i) Context \<Rightarrow> ('h, 'i) Context" where
  "SetProxyed c = c\<lparr>ctx_proxyed := True\<rparr>"

definition IsProxyed :: "('h, 'i) Context \<Rightarrow> bool" where
  "IsProxyed c = ctx_proxyed c"

definition SetClosed :: "('h, 'i) Context \<Rightarrow> ('h, 'i) Context" where
  "SetClosed c = c\<lparr>ctx_closed := True\<rparr>"

definition IsClosed :: "('h, 'i) Context \<Rightarrow> bool" where
  "IsClosed c = ctx_closed c"

text \<open>A key is a \<open>ContextKey\<close> or a value of another type; a value comes from \<open>buildin\<close> or the parent.\<close>

datatype 'k any_key = BuildinKey ContextKey | OtherKey 'k

datatype ('h, 'i, 'v) any_value = HeaderVal "'h option" | AuthVal "'i option" | ParentVal 'v

definition Context_Value ::
    "('k \<Rightarrow> 'v) \<Rightarrow> ('h, 'i) Context \<Rightarrow> 'k any_key \<Rightarrow> ('h, 'i, 'v) any_value go" where
  "Context_Value parent c k =
     (case k of
        BuildinKey key \<Rightarrow>
          if key = ContextKeyHeader then Some (HeaderVal (ctx_Header c))
          else if key = ContextKeyAuthInfo then Some (AuthVal (ctx_AuthInfo c))
          else None
      | OtherKey k' \<Rightarrow> Some (ParentVal (parent k')))"

definition SetAuth :: "('h, 'i) Context \<Rightarrow> 'i option \<Rightarrow> ('h, 'i) Context" where
  "SetAuth c info = c\<lparr>ctx_Authed := True, ctx_AuthInfo := info\<rparr>"

definition GetAuth :: "('h, 'i) Context \<Rightarrow> bool \<times> 'i option" where
  "GetAuth c = (if ctx_Authed c then (True, ctx_AuthInfo c) else (False, None))"

definition BeginUnpack :: "('h, 'i) Context \<Rightarrow> ('h, 'i) Context" where
  "BeginUnpack c = c\<lparr>ctx_beginUnpack := True\<rparr>"

definition InUnpack :: "('h, 'i) Context \<Rightarrow> bool" where
  "InUnpack c = ctx_beginUnpack c"

definition EndUnpack :: "('h, 'i) Context \<Rightarrow> ('h, 'i) Context" where
  "EndUnpack c = c\<lparr>ctx_beginUnpack := False, ctx_Header := None\<rparr>"

definition SetHeader :: "('h, 'i) Context \<Rightarrow> 'h option \<Rightarrow> ('h, 'i) Context" where
  "SetHeader c h = c\<lparr>ctx_Header := h\<rparr>"

definition GetHeader :: "('h, 'i) Context \<Rightarrow> 'h option" where
  "GetHeader c = ctx_Header c"

definition Context_Handshake ::
    "'p manager \<Rightarrow> ('h, 'i) Context \<Rightarrow> Handshake \<Rightarrow> ('h, 'i) Context \<times> error option" where
  "Context_Handshake m c h =
     (case GetProtocol m (hs_Version h) of
        Inl err \<Rightarrow> (c, Some err)
      | Inr _ \<Rightarrow>
          (c\<lparr>ctx_Version := hs_Version h, ctx_Codec := hs_Codec h, ctx_Handshaked := True,
             ctx_Platform := hs_Platform h\<rparr>, None))"

definition NewContext :: "PeerSide \<Rightarrow> ('h, 'i) Context" where
  "NewContext side =
     \<lparr>ctx_Header = None, ctx_AuthInfo = None, ctx_reqId = 0, ctx_Side = side,
      ctx_Handshaked = False, ctx_Authed = False, ctx_Codec = 0, ctx_Version = 0,
      ctx_Platform = 0, ctx_beginUnpack = False, ctx_closed = False, ctx_proxyed = False\<rparr>"

lemmas unpack_ctx_defs = BeginUnpack_def EndUnpack_def SetHeader_def GetHeader_def InUnpack_def

subsection \<open>Request ids\<close>

fun ids :: "nat \<Rightarrow> ('h, 'i) Context \<Rightarrow> 32 word list" where
  "ids 0 c = []"
| "ids (Suc n) c = (let (c', i) = NextReqId c in i # ids n c')"

lemma ids_eq: "ids n c = map (\<lambda>k. ctx_reqId c + of_nat (Suc k)) [0..<n]"
proof (induction n arbitrary: c)
  case 0
  then show ?case by simp
next
  case (Suc n)
  have "ids (Suc n) c = (ctx_reqId c + 1) # map (\<lambda>k. ctx_reqId c + 1 + of_nat (Suc k)) [0..<n]"
    by (simp add: NextReqId_def Let_def Suc.IH)
  also have "\<dots> = map (\<lambda>k. ctx_reqId c + of_nat (Suc k)) [0..<Suc n]"
    by (simp add: upt_conv_Cons map_Suc_upt [symmetric] comp_def algebra_simps del: upt_Suc)
  finally show ?case .
qed

lemma word32_of_nat_Suc_eq:
  "(of_nat (Suc i) :: 32 word) = of_nat (Suc j) \<longleftrightarrow> i mod 2 ^ 32 = j mod 2 ^ 32"
proof -
  have "(of_nat (Suc i) :: 32 word) = of_nat (Suc j) \<longleftrightarrow> (of_nat i :: 32 word) = of_nat j"
    by simp
  also have "\<dots> \<longleftrightarrow> i mod 2 ^ 32 = j mod 2 ^ 32"
    unfolding word_unat_eq_iff unat_of_nat by simp
  finally show ?thesis .
qed

text \<open>
  C37. The request ids drawn from one connection are pairwise distinct exactly as long as at most
  \<open>2^32\<close> of them are drawn, and a fresh connection draws the id 0, which the keepalive loop reads as
  ``no heartbeat sent yet'', only at its \<open>2^32\<close>-th request.
\<close>

theorem request_ids_distinct:
  "(distinct (ids n c) \<longleftrightarrow> n \<le> 2 ^ 32) \<and>
   (0 \<in> set (ids n (NewContext side :: ('h, 'i) Context)) \<longleftrightarrow> 2 ^ 32 \<le> n)"
proof
  have "distinct (ids n c) \<longleftrightarrow> inj_on (\<lambda>i. i mod (2 ^ 32 :: nat)) {0..<n}"
    unfolding ids_eq distinct_map inj_on_def add_left_cancel word32_of_nat_Suc_eq by simp
  also have "\<dots> \<longleftrightarrow> n \<le> 2 ^ 32"
  proof
    assume inj: "inj_on (\<lambda>i. i mod (2 ^ 32 :: nat)) {0..<n}"
    show "n \<le> 2 ^ 32"
    proof (rule ccontr)
      assume "\<not> n \<le> 2 ^ 32"
      then have m: "(0::nat) \<in> {0..<n}" "(2 ^ 32 :: nat) \<in> {0..<n}" by simp_all
      have "(0::nat) = 2 ^ 32" by (rule inj_onD [OF inj _ m]) simp
      then show False by simp
    qed
  next
    assume "n \<le> 2 ^ 32"
    then show "inj_on (\<lambda>i. i mod (2 ^ 32 :: nat)) {0..<n}" by (simp add: inj_on_def)
  qed
  finally show "distinct (ids n c) \<longleftrightarrow> n \<le> 2 ^ 32" .
next
  have z: "(0 :: 32 word) = of_nat (Suc k) \<longleftrightarrow> 2 ^ 32 dvd Suc k" for k
    by (subst eq_commute, subst word_of_nat_eq_0_iff) simp
  show "0 \<in> set (ids n (NewContext side :: ('h, 'i) Context)) \<longleftrightarrow> 2 ^ 32 \<le> n"
  proof
    assume "0 \<in> set (ids n (NewContext side :: ('h, 'i) Context))"
    then obtain k where "k < n" "2 ^ 32 dvd Suc k"
      unfolding ids_eq set_map image_iff NewContext_def z [symmetric] by auto
    then show "2 ^ 32 \<le> n" using dvd_imp_le [of "2 ^ 32" "Suc k"] by simp
  next
    assume n: "2 ^ 32 \<le> n"
    have "(0 :: 32 word) = of_nat (Suc (2 ^ 32 - 1))" unfolding z by simp
    with n show "0 \<in> set (ids n (NewContext side :: ('h, 'i) Context))"
      unfolding ids_eq set_map image_iff NewContext_def
      by (intro bexI [of _ "2 ^ 32 - 1"]) (simp_all del: of_nat_Suc)
  qed
qed

end
