(* ===== verification/Packet.thy ===== *)
theory Packet
  imports Metadata Protocol_Context
begin

text \<open>
  Packets: construction, classification, body codecs (\<open>go/packet.go\<close>).

  \<^item> The \<open>Metadata\<close> field of a packet is a pointer: \<open>None\<close> is nil, and dereferencing it panics.
  \<^item> The command numbers come from the generated package \<open>control\<close>, which is not part of the
    repository: they are the fields of the parameter \<open>ctl\<close>.  \<open>control_ok\<close> names what the client
    relies on, that the four commands are pairwise different and \<open>CMD_RECONNECT\<close> is the largest.
  \<^item> \<open>proto.Marshal\<close>, \<open>json.Marshal\<close> and their inverses are parameters, too.
  The lemmas show which request id and status a constructed packet carries whatever options the
  caller passes, and when \<open>Err\<close> reports an error.
\<close>

record control =
  CMD_CLOSE :: "32 word"
  CMD_HEARTBEAT :: "32 word"
  CMD_AUTH :: "32 word"
  CMD_RECONNECT :: "32 word"

definition control_ok :: "control \<Rightarrow> bool" where
  "control_ok ctl \<longleftrightarrow>
     distinct [CMD_CLOSE ctl, CMD_HEARTBEAT ctl, CMD_AUTH ctl, CMD_RECONNECT ctl] \<and>
     CMD_CLOSE ctl \<le> CMD_RECONNECT ctl \<and> CMD_HEARTBEAT ctl \<le> CMD_RECONNECT ctl \<and>
     CMD_AUTH ctl \<le> CMD_RECONNECT ctl"

record Packet =
  pk_Metadata :: "Metadata option"
  pk_Body :: bytes

definition Packet_zero :: Packet where
  "Packet_zero = \<lparr>pk_Metadata = None, pk_Body = []\<rparr>"

subsection \<open>Metadata access\<close>

definition Packet_UnmarshalMetadata ::
    "(bytes \<Rightarrow> bytes) \<Rightarrow> Packet \<Rightarrow> bytes \<Rightarrow> (Packet \<times> error option) go" where
  "Packet_UnmarshalMetadata uni p data = do {
     md \<leftarrow> pk_Metadata p;
     (md', e) \<leftarrow> UnmarshalValues uni md data;
     Some (p\<lparr>pk_Metadata := Some md'\<rparr>, e) }"

definition Packet_MarshalMetadata :: "bytes list \<Rightarrow> Packet \<Rightarrow> int \<Rightarrow> bytes go" where
  "Packet_MarshalMetadata ord p mx = do {
     md \<leftarrow> pk_Metadata p;
     Some (MarshalValues ord md mx) }"

definition SetMetadata :: "(bytes \<Rightarrow> bytes) \<Rightarrow> Packet \<Rightarrow> bytes \<Rightarrow> bytes \<Rightarrow> Packet go" where
  "SetMetadata uni p k v =
     (case pk_Metadata p of
        None \<Rightarrow> Some p
      | Some md \<Rightarrow> do {
          (md', _) \<leftarrow> Metadata_Set uni md k v;
          Some (p\<lparr>pk_Metadata := Some md'\<rparr>) })"

fun SetMetadataPairs :: "(bytes \<Rightarrow> bytes) \<Rightarrow> Packet \<Rightarrow> KVPair list \<Rightarrow> Packet go" where
  "SetMetadataPairs uni p [] = Some p"
| "SetMetadataPairs uni p (pair # pairs) = do {
     p' \<leftarrow> SetMetadata uni p (kv_Key pair) (kv_Val pair);
     SetMetadataPairs uni p' pairs }"

definition GetMetadata :: "(bytes \<Rightarrow> bytes) \<Rightarrow> Packet \<Rightarrow> bytes \<Rightarrow> bytes go" where
  "GetMetadata uni p k = do { md \<leftarrow> pk_Metadata p; Some (Metadata_Get uni md k) }"

subsection \<open>Classification\<close>

definition IsControl :: "control \<Rightarrow> 32 word \<Rightarrow> bool" where
  "IsControl ctl cmd \<longleftrightarrow> cmd \<le> CMD_RECONNECT ctl"

definition IsClose :: "control \<Rightarrow> 32 word \<Rightarrow> bool" where
  "IsClose ctl cmd \<longleftrightarrow> cmd = CMD_CLOSE ctl"

definition IsHeartbeat :: "control \<Rightarrow> 32 word \<Rightarrow> bool" where
  "IsHeartbeat ctl cmd \<longleftrightarrow> cmd = CMD_HEARTBEAT ctl"

definition IsAuth :: "control \<Rightarrow> 32 word \<Rightarrow> bool" where
  "IsAuth ctl cmd \<longleftrightarrow> cmd = CMD_AUTH ctl"

definition IsReconnect :: "control \<Rightarrow> 32 word \<Rightarrow> bool" where
  "IsReconnect ctl cmd \<longleftrightarrow> cmd = CMD_RECONNECT ctl"

definition Packet_IsControl :: "control \<Rightarrow> Packet \<Rightarrow> bool go" where
  "Packet_IsControl ctl p = do { md \<leftarrow> pk_Metadata p; Some (IsControl ctl (md_CmdCode md)) }"

definition Packet_IsAuth :: "control \<Rightarrow> Packet \<Rightarrow> bool go" where
  "Packet_IsAuth ctl p = do { md \<leftarrow> pk_Metadata p; Some (IsAuth ctl (md_CmdCode md)) }"

definition Packet_IsReconnect :: "control \<Rightarrow> Packet \<Rightarrow> bool go" where
  "Packet_IsReconnect ctl p = do { md \<leftarrow> pk_Metadata p; Some (IsReconnect ctl (md_CmdCode md)) }"

definition Packet_IsClose :: "control \<Rightarrow> Packet \<Rightarrow> bool go" where
  "Packet_IsClose ctl p = do { md \<leftarrow> pk_Metadata p; Some (IsClose ctl (md_CmdCode md)) }"

definition Packet_IsPing :: "control \<Rightarrow> Packet \<Rightarrow> bool go" where
  "Packet_IsPing ctl p = do {
     md \<leftarrow> pk_Metadata p;
     Some (IsHeartbeat ctl (md_CmdCode md) \<and> md_Type md = RequestPacket) }"

definition Packet_IsPong :: "control \<Rightarrow> Packet \<Rightarrow> bool go" where
  "Packet_IsPong ctl p = do {
     md \<leftarrow> pk_Metadata p;
     Some (IsHeartbeat ctl (md_CmdCode md) \<and> md_Type md = ResponsePacket) }"

definition Packet_StatusCode :: "Packet \<Rightarrow> 8 word go" where
  "Packet_StatusCode p = do { md \<leftarrow> pk_Metadata p; Some (md_StatusCode md) }"

definition Packet_CMD :: "Packet \<Rightarrow> 32 word go" where
  "Packet_CMD p = do { md \<leftarrow> pk_Metadata p; Some (md_CmdCode md) }"

subsection \<open>Bodies\<close>

text \<open>
  The codec libraries at a target type \<open>'v\<close>: whether the target implements \<open>proto.Message\<close>, and the decoders.
\<close>

record 'v decoders =
  is_proto_target :: bool
  json_Unmarshal :: "bytes \<Rightarrow> error + 'v"
  proto_Unmarshal :: "bytes \<Rightarrow> error + 'v"

record 'm encoders =
  is_proto_msg :: "'m \<Rightarrow> bool"
  json_Marshal :: "'m \<Rightarrow> error + bytes"
  proto_Marshal :: "'m \<Rightarrow> error + bytes"

definition Packet_Unmarshal :: "'v decoders \<Rightarrow> Packet \<Rightarrow> (error + 'v) go" where
  "Packet_Unmarshal dec p = do {
     md \<leftarrow> pk_Metadata p;
     Some (if md_Codec md = CodecJSON then json_Unmarshal dec (pk_Body p)
           else if md_Codec md = CodecProtobuf then
             if \<not> is_proto_target dec then Inl (ErrNew ''must be proto.Message'')
             else proto_Unmarshal dec (pk_Body p)
           else Inl (ErrNew ''unknown codec type'')) }"

record control_Error =
  ce_Code :: "64 word"
  ce_Msg :: string

definition Packet_Err :: "control_Error decoders \<Rightarrow> Packet \<Rightarrow> error option go" where
  "Packet_Err dec p = do {
     md \<leftarrow> pk_Metadata p;
     if md_Type md \<noteq> ResponsePacket then Some None
     else if md_StatusCode md = StatusSuccess then Some None
     else do {
       r \<leftarrow> Packet_Unmarshal dec p;
       let e = (case r of
           Inl _ \<Rightarrow> \<lparr>ce_Code = 500, ce_Msg = ''unknown error, cant unmarshal body''\<rparr>
         | Inr e \<Rightarrow> e);
       Some (Some (NewError (md_StatusCode md) (ce_Code e) (ce_Msg e))) } }"

definition marshal :: "'m encoders \<Rightarrow> CodecType \<Rightarrow> 'm \<Rightarrow> (error + bytes) go" where
  "marshal enc c v =
     (if c = CodecProtobuf then
        Some (if \<not> is_proto_msg enc v
              then Inl (ErrNew ''marshal target should imply proto.Message interface'')
              else proto_Marshal enc v)
      else if c = CodecJSON then Some (json_Marshal enc v)
      else do {
        s \<leftarrow> CodecType_String c;
        Some (Inl (ErrNew (''invalid codec type: '' @ s))) })"

subsection \<open>Construction\<close>

type_synonym PacketOption = "Metadata \<Rightarrow> Metadata"

definition WithVerify :: "64 word \<Rightarrow> bytes \<Rightarrow> PacketOption" where
  "WithVerify nonce signature =
     (\<lambda>md. md\<lparr>md_Nonce := nonce, md_Signature := signature, md_Verify := True\<rparr>)"

definition WithRequestId :: "32 word \<Rightarrow> PacketOption" where
  "WithRequestId id' = (\<lambda>md. md\<lparr>md_RequestId := id'\<rparr>)"

definition WithStatusCode :: "8 word \<Rightarrow> PacketOption" where
  "WithStatusCode code = (\<lambda>md. md\<lparr>md_StatusCode := code\<rparr>)"

text \<open>The body argument: nil, a byte slice, or a message for the codec.\<close>

datatype 'm body = NilBody | BytesBody bytes | MsgBody 'm

definition NewPacket ::
    "'m encoders \<Rightarrow> ('h, 'i) Context \<Rightarrow> PacketType \<Rightarrow> 32 word \<Rightarrow> 'm body \<Rightarrow> PacketOption list
     \<Rightarrow> (Packet \<times> error option) go" where
  "NewPacket enc ctx t cmd body opts = do {
     let md = Metadata_zero\<lparr>md_Type := t, md_Codec := ctx_Codec ctx, md_CmdCode := cmd,
                            md_Values := Some Map.empty\<rparr>;
     let md = foldl (\<lambda>md opt. opt md) md opts;
     (case body of
        NilBody \<Rightarrow> Some (\<lparr>pk_Metadata = Some md, pk_Body = []\<rparr>, None)
      | BytesBody v \<Rightarrow> Some (\<lparr>pk_Metadata = Some md, pk_Body = v\<rparr>, None)
      | MsgBody v \<Rightarrow> do {
          r \<leftarrow> marshal enc (ctx_Codec ctx) v;
          (case r of
             Inl err \<Rightarrow> Some (Packet_zero, Some err)
           | Inr data \<Rightarrow> Some (\<lparr>pk_Metadata = Some md, pk_Body = data\<rparr>, None)) }) }"

text \<open>\<open>must\<close>: the \<open>Must\<close> constructors panic with the error.\<close>

definition must :: "(Packet \<times> error option) go \<Rightarrow> Packet go" where
  "must r = do { (p, e) \<leftarrow> r; (case e of Some _ \<Rightarrow> None | None \<Rightarrow> Some p) }"

definition NewPush ::
    "'m encoders \<Rightarrow> ('h, 'i) Context \<Rightarrow> 32 word \<Rightarrow> 'm body \<Rightarrow> PacketOption list
     \<Rightarrow> (Packet \<times> error option) go" where
  "NewPush enc ctx cmd body opts = NewPacket enc ctx PushPacket cmd body opts"

definition MustNewPush ::
    "'m encoders \<Rightarrow> ('h, 'i) Context \<Rightarrow> 32 word \<Rightarrow> 'm body \<Rightarrow> PacketOption list \<Rightarrow> Packet go" where
  "MustNewPush enc ctx cmd body opts = must (NewPacket enc ctx PushPacket cmd body opts)"

definition NewRequest ::
    "'m encoders \<Rightarrow> ('h, 'i) Context \<Rightarrow> 32 word \<Rightarrow> 'm body \<Rightarrow> PacketOption list
     \<Rightarrow> (('h, 'i) Context \<times> Packet \<times> error option) go" where
  "NewRequest enc ctx cmd body opts = do {
     let (ctx', id') = NextReqId ctx;
     let opts = opts @ [WithRequestId id'];
     (p, e) \<leftarrow> NewPacket enc ctx' RequestPacket cmd body opts;
     Some (ctx', p, e) }"

definition MustNewRequest ::
    "'m encoders \<Rightarrow> ('h, 'i) Context \<Rightarrow> 32 word \<Rightarrow> 'm body \<Rightarrow> PacketOption list
     \<Rightarrow> (('h, 'i) Context \<times> Packet) go" where
  "MustNewRequest enc ctx cmd body opts = do {
     let (ctx', id') = NextReqId ctx;
     let opts = opts @ [WithRequestId id'];
     p \<leftarrow> must (NewPacket enc ctx' RequestPacket cmd body opts);
     Some (ctx', p) }"

definition NewResponse ::
    "'m encoders \<Rightarrow> ('h, 'i) Context \<Rightarrow> 32 word \<Rightarrow> 8 word \<Rightarrow> 'm body \<Rightarrow> PacketOption list
     \<Rightarrow> (Packet \<times> error option) go" where
  "NewResponse enc ctx cmd sc body opts =
     (let opts = opts @ [WithStatusCode sc] in NewPacket enc ctx ResponsePacket cmd body opts)"

definition MustNewResponse ::
    "'m encoders \<Rightarrow> ('h, 'i) Context \<Rightarrow> 32 word \<Rightarrow> 8 word \<Rightarrow> 'm body \<Rightarrow> PacketOption list \<Rightarrow> Packet go" where
  "MustNewResponse enc ctx cmd code body opts =
     (let opts = opts @ [WithStatusCode code] in must (NewPacket enc ctx ResponsePacket cmd body opts))"

subsection \<open>Properties\<close>

lemmas packet_kind_defs = Packet_IsControl_def Packet_IsAuth_def Packet_IsReconnect_def
  Packet_IsClose_def Packet_IsPing_def Packet_IsPong_def
  IsControl_def IsAuth_def IsReconnect_def IsClose_def IsHeartbeat_def

lemma CodecType_String_total: "\<exists>s. CodecType_String c = Some s"
  by (auto simp: CodecType_String_def idx_def)

lemma marshal_total: "\<exists>r. marshal enc c v = Some r"
  using CodecType_String_total [of c] by (auto simp: marshal_def)

lemma NewPacket_total:
  "\<exists>p e. NewPacket enc ctx t cmd body opts = Some (p, e) \<and>
     (case e of Some _ \<Rightarrow> p = Packet_zero \<and> (\<exists>m. body = MsgBody m)
      | None \<Rightarrow> pk_Metadata p =
          Some (foldl (\<lambda>md opt. opt md)
            (Metadata_zero\<lparr>md_Type := t, md_Codec := ctx_Codec ctx, md_CmdCode := cmd,
               md_Values := Some Map.empty\<rparr>) opts))"
proof (cases body)
  case (MsgBody v)
  obtain r where "marshal enc (ctx_Codec ctx) v = Some r"
    using marshal_total [of enc "ctx_Codec ctx" v] by auto
  with MsgBody show ?thesis by (cases r) (auto simp: NewPacket_def)
qed (auto simp: NewPacket_def)

lemma NewPacket_last:
  obtains p e where "NewPacket enc ctx t cmd body (opts @ [opt]) = Some (p, e)"
    and "case e of Some _ \<Rightarrow> p = Packet_zero \<and> (\<exists>m. body = MsgBody m) | None \<Rightarrow> \<exists>md. pk_Metadata p = Some (opt md)"
proof -
  obtain p e where r: "NewPacket enc ctx t cmd body (opts @ [opt]) = Some (p, e)"
      "case e of Some _ \<Rightarrow> p = Packet_zero \<and> (\<exists>m. body = MsgBody m)
       | None \<Rightarrow> pk_Metadata p = Some (foldl (\<lambda>md opt. opt md)
            (Metadata_zero\<lparr>md_Type := t, md_Codec := ctx_Codec ctx, md_CmdCode := cmd,
               md_Values := Some Map.empty\<rparr>) (opts @ [opt]))"
    using NewPacket_total [of enc ctx t cmd body "opts @ [opt]"] by blast
  show thesis
  proof (rule that [OF r(1)])
    show "case e of Some _ \<Rightarrow> p = Packet_zero \<and> (\<exists>m. body = MsgBody m) | None \<Rightarrow> \<exists>md. pk_Metadata p = Some (opt md)"
      using r(2) by (cases e) auto
  qed
qed

text \<open>
  \<open>NewRequest\<close> never panics and draws exactly one id from the connection, whether or not the body can be encoded;
  the packet carries that id whatever request id the caller's options set,
  and it fails only for a body that had to be encoded.  \<open>NewResponse\<close> likewise fixes the status.
\<close>

theorem NewRequest_id:
  "(\<exists>p e. NewRequest enc ctx cmd body opts = Some (ctx\<lparr>ctx_reqId := ctx_reqId ctx + 1\<rparr>, p, e) \<and>
      (case e of
         None \<Rightarrow> \<exists>md. pk_Metadata p = Some md \<and> md_RequestId md = ctx_reqId ctx + 1
       | Some _ \<Rightarrow> p = Packet_zero \<and> (\<exists>m. body = MsgBody m))) \<and>
   (\<exists>p e. NewResponse enc ctx cmd sc body opts = Some (p, e) \<and>
      (case e of
         None \<Rightarrow> \<exists>md. pk_Metadata p = Some md \<and> md_StatusCode md = sc
       | Some _ \<Rightarrow> p = Packet_zero \<and> (\<exists>m. body = MsgBody m)))"
proof
  define ctx' where "ctx' = ctx\<lparr>ctx_reqId := ctx_reqId ctx + 1\<rparr>"
  have n: "NextReqId ctx = (ctx', ctx_reqId ctx + 1)" by (simp add: NextReqId_def ctx'_def Let_def)
  show "\<exists>p e. NewRequest enc ctx cmd body opts = Some (ctx', p, e) \<and>
      (case e of
         None \<Rightarrow> \<exists>md. pk_Metadata p = Some md \<and> md_RequestId md = ctx_reqId ctx + 1
       | Some _ \<Rightarrow> p = Packet_zero \<and> (\<exists>m. body = MsgBody m))"
  proof -
    obtain p e where "NewPacket enc ctx' RequestPacket cmd body (opts @ [WithRequestId (ctx_reqId ctx + 1)]) = Some (p, e)"
      "case e of Some _ \<Rightarrow> p = Packet_zero \<and> (\<exists>m. body = MsgBody m)
       | None \<Rightarrow> \<exists>md. pk_Metadata p = Some (WithRequestId (ctx_reqId ctx + 1) md)"
      by (rule NewPacket_last)
    then show ?thesis
      by (intro exI [of _ p] exI [of _ e]) (auto simp: NewRequest_def n WithRequestId_def split: option.splits)
  qed
  show "\<exists>p e. NewResponse enc ctx cmd sc body opts = Some (p, e) \<and>
      (case e of
         None \<Rightarrow> \<exists>md. pk_Metadata p = Some md \<and> md_StatusCode md = sc
       | Some _ \<Rightarrow> p = Packet_zero \<and> (\<exists>m. body = MsgBody m))"
  proof -
    obtain p e where "NewPacket enc ctx ResponsePacket cmd body (opts @ [WithStatusCode sc]) = Some (p, e)"
      "case e of Some _ \<Rightarrow> p = Packet_zero \<and> (\<exists>m. body = MsgBody m)
       | None \<Rightarrow> \<exists>md. pk_Metadata p = Some (WithStatusCode sc md)"
      by (rule NewPacket_last)
    then show ?thesis
      by (intro exI [of _ p] exI [of _ e]) (auto simp: NewResponse_def WithStatusCode_def split: option.splits)
  qed
qed

lemma Packet_Err_None:
  "pk_Metadata p = Some md \<Longrightarrow>
   Packet_Err dec p = Some None \<longleftrightarrow> md_Type md \<noteq> ResponsePacket \<or> md_StatusCode md = StatusSuccess"
  by (auto simp: Packet_Err_def Packet_Unmarshal_def Let_def)

text \<open>
  C39. The error of a packet is nil exactly for packets that are not responses and for responses with
  status \<open>Success\<close>; for every other response it is an \<open>LBError\<close> with the packet's status, also when the
  body cannot be decoded.
\<close>

theorem Packet_Err_spec:
  assumes "pk_Metadata p = Some md"
  shows "if md_Type md = ResponsePacket \<and> md_StatusCode md \<noteq> StatusSuccess
         then \<exists>code msg. Packet_Err dec p = Some (Some (NewError (md_StatusCode md) code msg)) \<and>
                (\<forall>v. Packet_Unmarshal dec p = Some (Inr v) \<longrightarrow> code = ce_Code v \<and> msg = ce_Msg v) \<and>
                (\<forall>e. Packet_Unmarshal dec p = Some (Inl e) \<longrightarrow> code = 500)
         else Packet_Err dec p = Some None"
  using assms by (auto simp: Packet_Err_def Packet_Unmarshal_def Let_def)

theorem Packet_Err_spec_witness:
  "\<exists>code msg. Packet_Err \<lparr>is_proto_target = True, json_Unmarshal = (\<lambda>_. Inl ErrInvalidMessage),
         proto_Unmarshal = (\<lambda>_. Inl ErrInvalidMessage)\<rparr>
       \<lparr>pk_Metadata = Some (Metadata_zero\<lparr>md_Type := ResponsePacket, md_StatusCode := 5\<rparr>), pk_Body = [1]\<rparr>
     = Some (Some (NewError 5 code msg))"
  using Packet_Err_spec [of "\<lparr>pk_Metadata = Some (Metadata_zero\<lparr>md_Type := ResponsePacket, md_StatusCode := 5\<rparr>), pk_Body = [1]\<rparr>"
      "Metadata_zero\<lparr>md_Type := ResponsePacket, md_StatusCode := 5\<rparr>"
      "\<lparr>is_proto_target = True, json_Unmarshal = (\<lambda>_. Inl ErrInvalidMessage),
         proto_Unmarshal = (\<lambda>_. Inl ErrInvalidMessage)\<rparr>"]
  by (auto simp: StatusSuccess_def)

lemma control_kinds:
  assumes "control_ok ctl" and "pk_Metadata p = Some md"
  shows "Packet_IsPing ctl p = Some True \<or> Packet_IsPong ctl p = Some True \<or> Packet_IsClose ctl p = Some True
      \<or> Packet_IsAuth ctl p = Some True \<or> Packet_IsReconnect ctl p = Some True
    \<Longrightarrow> Packet_IsControl ctl p = Some True"
  using assms by (auto simp: packet_kind_defs control_ok_def)

end
