(* ===== verification/Ring_Buffer.thy ===== *)
theory Ring_Buffer
  imports Go_Errors
begin

text \<open>
  The interface of the byte ring buffer.

  \<open>github.com/Allenxuxu/ringbuffer\<close> is a library the repository only calls: its operations are the
  fields of the parameter \<open>rb\<close> of every definition that reads from a buffer.  The locales
  \<open>ring_reader\<close> and \<open>ring_buffer\<close> state the documented contract: a buffer is a first-in first-out queue of
  bytes (\<open>content\<close>), \<open>Peek\<close> returns the bytes in two pieces because the data may wrap around the end
  of the backing array, \<open>PeekUintN\<close> reads big-endian.  \<open>ring_buffer_flat\<close> adds that a buffer built
  by \<open>NewWithData\<close> and only read from since keeps its bytes in the first piece.

  The circular buffer \<open>circ\<close> below (backing array, read and write position, wrap-around, growth)
  is a concrete instance of both contracts, for evaluating the model on examples.
\<close>

record 'b rb_ops =
  rb_New :: "nat \<Rightarrow> 'b"
  rb_NewWithData :: "bytes \<Rightarrow> 'b"
  rb_Length :: "'b \<Rightarrow> nat"
  rb_IsEmpty :: "'b \<Rightarrow> bool"
  rb_Reset :: "'b \<Rightarrow> 'b"
  rb_PeekUint8 :: "'b \<Rightarrow> 8 word"
  rb_PeekUint16 :: "'b \<Rightarrow> 16 word"
  rb_PeekUint32 :: "'b \<Rightarrow> 32 word"
  rb_PeekUint64 :: "'b \<Rightarrow> 64 word"
  rb_Peek :: "'b \<Rightarrow> nat \<Rightarrow> bytes \<times> bytes"
  rb_PeekAll :: "'b \<Rightarrow> bytes \<times> bytes"
  rb_Retrieve :: "'b \<Rightarrow> nat \<Rightarrow> 'b"
  rb_Read :: "'b \<Rightarrow> nat \<Rightarrow> 'b \<times> bytes \<times> error option"
  rb_Write :: "'b \<Rightarrow> bytes \<Rightarrow> 'b \<times> error option"

locale ring_reader =
  fixes rb :: "'b rb_ops" and content :: "'b \<Rightarrow> bytes" and inv :: "'b \<Rightarrow> bool"
  assumes Length: "inv b \<Longrightarrow> rb_Length rb b = length (content b)"
    and IsEmpty: "inv b \<Longrightarrow> rb_IsEmpty rb b \<longleftrightarrow> content b = []"
    and PeekUint8: "inv b \<Longrightarrow> content b \<noteq> [] \<Longrightarrow> rb_PeekUint8 rb b = hd (content b)"
    and PeekUint16: "inv b \<Longrightarrow> 2 \<le> length (content b) \<Longrightarrow>
          be_Uint16 (take 2 (content b)) = Some (rb_PeekUint16 rb b)"
    and PeekUint32: "inv b \<Longrightarrow> 4 \<le> length (content b) \<Longrightarrow>
          be_Uint32 (take 4 (content b)) = Some (rb_PeekUint32 rb b)"
    and PeekUint64: "inv b \<Longrightarrow> 8 \<le> length (content b) \<Longrightarrow>
          be_Uint64 (take 8 (content b)) = Some (rb_PeekUint64 rb b)"
    and Peek: "inv b \<Longrightarrow> n \<le> length (content b) \<Longrightarrow>
          fst (rb_Peek rb b n) @ snd (rb_Peek rb b n) = take n (content b)"
    and PeekAll: "inv b \<Longrightarrow> fst (rb_PeekAll rb b) @ snd (rb_PeekAll rb b) = content b"
    and Retrieve: "inv b \<Longrightarrow> n \<le> length (content b) \<Longrightarrow> inv (rb_Retrieve rb b n)"
          "inv b \<Longrightarrow> n \<le> length (content b) \<Longrightarrow> content (rb_Retrieve rb b n) = drop n (content b)"
    and Read: "inv b \<Longrightarrow> n \<le> length (content b) \<Longrightarrow>
          \<exists>b'. rb_Read rb b n = (b', take n (content b), None) \<and> inv b' \<and> content b' = drop n (content b)"

locale ring_buffer = ring_reader rb content inv
  for rb :: "'b rb_ops" and content :: "'b \<Rightarrow> bytes" and inv :: "'b \<Rightarrow> bool" +
  assumes New: "inv (rb_New rb n)" "content (rb_New rb n) = []"
    and NewWithData: "inv (rb_NewWithData rb xs)" "content (rb_NewWithData rb xs) = xs"
    and Reset: "inv b \<Longrightarrow> inv (rb_Reset rb b)" "inv b \<Longrightarrow> content (rb_Reset rb b) = []"
    and Write: "inv b \<Longrightarrow> \<exists>b'. rb_Write rb b xs = (b', None) \<and> inv b' \<and> content b' = content b @ xs"

locale ring_buffer_flat = ring_buffer rb content inv
  for rb :: "'b rb_ops" and content :: "'b \<Rightarrow> bytes" and inv :: "'b \<Rightarrow> bool" +
  fixes flat :: "'b \<Rightarrow> bool"
  assumes flat_New: "flat (rb_NewWithData rb xs)"
    and flat_Retrieve: "inv b \<Longrightarrow> flat b \<Longrightarrow> flat (rb_Retrieve rb b n)"
    and flat_Read: "inv b \<Longrightarrow> flat b \<Longrightarrow> flat (fst (rb_Read rb b n))"
    and flat_PeekAll: "inv b \<Longrightarrow> flat b \<Longrightarrow> snd (rb_PeekAll rb b) = []"

text \<open>Reading keeps a flat buffer flat, so what reads through the contract of a reader does so, too.\<close>

sublocale ring_buffer_flat \<subseteq> flat: ring_reader rb content "\<lambda>b. inv b \<and> flat b"
proof (unfold_locales, goal_cases)
  case (9 b n)
  then show ?case by (simp add: Retrieve flat_Retrieve)
next
  case (11 b n)
  then obtain b' where "rb_Read rb b n = (b', take n (content b), None)" "inv b'" "content b' = drop n (content b)"
    using Read by blast
  with 11 flat_Read [of b n] show ?case by auto
qed (simp_all add: Length IsEmpty PeekUint8 PeekUint16 PeekUint32 PeekUint64 Peek PeekAll Retrieve)

context ring_buffer_flat
begin

lemma flat_reader: "ring_reader rb content (\<lambda>b. inv b \<and> flat b)"
  by unfold_locales

end

subsection \<open>A circular buffer\<close>

record circ =
  cb_buf :: bytes
  cb_r :: nat
  cb_w :: nat
  cb_empty :: bool

definition circ_inv :: "circ \<Rightarrow> bool" where
  "circ_inv c \<longleftrightarrow>
     (if cb_empty c then cb_r c = cb_w c \<and> (cb_w c < length (cb_buf c) \<or> cb_w c = 0)
      else cb_r c < length (cb_buf c) \<and> cb_w c < length (cb_buf c))"

definition circ_all :: "circ \<Rightarrow> bytes \<times> bytes" where
  "circ_all c =
     (if cb_empty c then ([], [])
      else if cb_r c < cb_w c then (take (cb_w c - cb_r c) (drop (cb_r c) (cb_buf c)), [])
      else (drop (cb_r c) (cb_buf c), take (cb_w c) (cb_buf c)))"

definition circ_content :: "circ \<Rightarrow> bytes" where
  "circ_content c = fst (circ_all c) @ snd (circ_all c)"

definition circ_new :: "nat \<Rightarrow> circ" where
  "circ_new n = \<lparr>cb_buf = replicate n 0, cb_r = 0, cb_w = 0, cb_empty = True\<rparr>"

definition circ_with :: "bytes \<Rightarrow> circ" where
  "circ_with xs = \<lparr>cb_buf = xs, cb_r = 0, cb_w = 0, cb_empty = (xs = [])\<rparr>"

definition circ_reset :: "circ \<Rightarrow> circ" where
  "circ_reset c = c\<lparr>cb_r := 0, cb_w := 0, cb_empty := True\<rparr>"

definition circ_length :: "circ \<Rightarrow> nat" where
  "circ_length c = length (circ_content c)"

definition circ_peek :: "circ \<Rightarrow> nat \<Rightarrow> bytes \<times> bytes" where
  "circ_peek c n = (let (f, e) = circ_all c in (take n f, take (n - length f) e))"

definition circ_uint :: "(bytes \<Rightarrow> 'w::len word go) \<Rightarrow> nat \<Rightarrow> circ \<Rightarrow> 'w word" where
  "circ_uint dec n c =
     (case dec (fst (circ_peek c n) @ snd (circ_peek c n)) of None \<Rightarrow> 0 | Some v \<Rightarrow> v)"

definition circ_retrieve :: "circ \<Rightarrow> nat \<Rightarrow> circ" where
  "circ_retrieve c n =
     (if cb_empty c \<or> n = 0 then c
      else if n < circ_length c then
        c\<lparr>cb_r := (if cb_r c + n < length (cb_buf c) then cb_r c + n else cb_r c + n - length (cb_buf c))\<rparr>
      else circ_reset c)"

definition circ_read :: "circ \<Rightarrow> nat \<Rightarrow> circ \<times> bytes \<times> error option" where
  "circ_read c n =
     (if n = 0 then (c, [], None)
      else if cb_empty c then (c, [], Some (ErrLib ''ring buffer is empty''))
      else (circ_retrieve c n, fst (circ_peek c n) @ snd (circ_peek c n), None))"

fun circ_push :: "circ \<Rightarrow> byte \<Rightarrow> circ" where
  "circ_push c x =
     c\<lparr>cb_buf := (cb_buf c)[cb_w c := x],
       cb_w := (if Suc (cb_w c) < length (cb_buf c) then Suc (cb_w c) else 0), cb_empty := False\<rparr>"

definition circ_write :: "circ \<Rightarrow> bytes \<Rightarrow> circ \<times> error option" where
  "circ_write c xs =
     (if circ_length c + length xs \<le> length (cb_buf c) then (foldl circ_push c xs, None)
      else (circ_with (circ_content c @ xs), None))"

definition circ_ops :: "circ rb_ops" where
  "circ_ops =
     \<lparr>rb_New = circ_new, rb_NewWithData = circ_with, rb_Length = circ_length,
      rb_IsEmpty = cb_empty, rb_Reset = circ_reset,
      rb_PeekUint8 = circ_uint (\<lambda>b. idx b 0) 1, rb_PeekUint16 = circ_uint be_Uint16 2,
      rb_PeekUint32 = circ_uint be_Uint32 4, rb_PeekUint64 = circ_uint be_Uint64 8,
      rb_Peek = circ_peek, rb_PeekAll = circ_all, rb_Retrieve = circ_retrieve,
      rb_Read = circ_read, rb_Write = circ_write\<rparr>"

definition circ_flat :: "circ \<Rightarrow> bool" where
  "circ_flat c \<longleftrightarrow> cb_empty c \<or> cb_w c = 0"

lemma circ_content_empty: "circ_inv c \<Longrightarrow> circ_content c = [] \<longleftrightarrow> cb_empty c"
  by (auto simp: circ_content_def circ_all_def circ_inv_def)

lemma circ_peek_take: "fst (circ_peek c n) @ snd (circ_peek c n) = take n (circ_content c)"
  by (simp add: circ_peek_def circ_content_def case_prod_unfold Let_def)

lemma circ_content_simps:
  "cb_empty c \<Longrightarrow> circ_content c = []"
  "\<not> cb_empty c \<Longrightarrow> cb_r c < cb_w c \<Longrightarrow>
     circ_content c = take (cb_w c - cb_r c) (drop (cb_r c) (cb_buf c))"
  "\<not> cb_empty c \<Longrightarrow> \<not> cb_r c < cb_w c \<Longrightarrow>
     circ_content c = drop (cb_r c) (cb_buf c) @ take (cb_w c) (cb_buf c)"
  by (simp_all add: circ_content_def circ_all_def)

lemma circ_retrieve_spec:
  assumes i: "circ_inv c" and n: "n \<le> length (circ_content c)"
  shows "circ_inv (circ_retrieve c n) \<and> circ_content (circ_retrieve c n) = drop n (circ_content c)"
proof (cases "cb_empty c \<or> n = 0 \<or> \<not> n < length (circ_content c)")
  case True
  with assms show ?thesis
    by (auto simp: circ_retrieve_def circ_reset_def circ_length_def circ_inv_def circ_content_simps)
next
  case False
  then have ne: "\<not> cb_empty c" "n \<noteq> 0" "n < length (circ_content c)" by simp_all
  with i have rw: "cb_r c < length (cb_buf c)" "cb_w c < length (cb_buf c)"
    by (simp_all add: circ_inv_def)
  let ?s = "length (cb_buf c)" and ?r = "cb_r c" and ?w = "cb_w c"
  have ret: "circ_retrieve c n = c\<lparr>cb_r := (if ?r + n < ?s then ?r + n else ?r + n - ?s)\<rparr>"
    using ne by (simp add: circ_retrieve_def circ_length_def)
  consider "?r < ?w" | "\<not> ?r < ?w" "?r + n < ?s" | "\<not> ?r < ?w" "\<not> ?r + n < ?s" by blast
  then show ?thesis
  proof cases
    case 1
    with ne rw have "?r + n < ?w" by (simp add: circ_content_simps)
    with 1 ne rw show ?thesis
      by (simp add: ret circ_inv_def circ_content_simps drop_take add.commute)
  next
    case 2
    with ne rw show ?thesis
      by (simp add: ret circ_inv_def circ_content_simps add.commute)
  next
    case 3
    with ne rw have "?r + n - ?s < ?w" "n - (?s - ?r) = ?r + n - ?s" by (simp_all add: circ_content_simps)
    with 3 ne rw show ?thesis
      by (simp add: ret circ_inv_def circ_content_simps drop_take)
  qed
qed

lemma circ_push_spec:
  assumes i: "circ_inv c" and l: "length (circ_content c) < length (cb_buf c)"
  shows "circ_inv (circ_push c x) \<and> circ_content (circ_push c x) = circ_content c @ [x]"
proof -
  let ?s = "length (cb_buf c)" and ?r = "cb_r c" and ?w = "cb_w c"
  have rw: "?r < ?s" "?w < ?s" using i l by (auto simp: circ_inv_def split: if_splits)
  have u: "(cb_buf c)[?w := x] = take ?w (cb_buf c) @ x # drop (Suc ?w) (cb_buf c)"
    using rw by (simp add: upd_conv_take_nth_drop)
  have inv: "circ_inv (circ_push c x)" using rw by (auto simp: circ_inv_def)
  consider "cb_empty c" | "\<not> cb_empty c" "?r < ?w" | "\<not> cb_empty c" "\<not> ?r < ?w" by blast
  then show ?thesis
  proof cases
    case 1
    with i have "?r = ?w" by (simp add: circ_inv_def)
    with 1 rw inv show ?thesis by (auto simp: circ_content_simps u)
  next
    case 2
    with rw inv show ?thesis by (auto simp: circ_content_simps u drop_take Suc_diff_le)
  next
    case 3
    with l rw have "?w < ?r" by (simp add: circ_content_simps)
    moreover from this have "drop ?r ((cb_buf c)[?w := x]) = drop ?r (cb_buf c)"
      "take (Suc ?w) ((cb_buf c)[?w := x]) = take ?w (cb_buf c) @ [x]"
      using rw by (simp_all add: take_Suc_conv_app_nth)
    ultimately show ?thesis using 3 rw inv by (simp add: circ_content_simps)
  qed
qed

lemma circ_pushes_spec:
  "circ_inv c \<Longrightarrow> length (circ_content c) + length xs \<le> length (cb_buf c) \<Longrightarrow>
   circ_inv (foldl circ_push c xs) \<and> circ_content (foldl circ_push c xs) = circ_content c @ xs"
proof (induction xs arbitrary: c)
  case (Cons x xs)
  then have "length (circ_content c) < length (cb_buf c)" by simp
  note p = circ_push_spec [OF Cons.prems(1) this, of x]
  have "length (cb_buf (circ_push c x)) = length (cb_buf c)" by simp
  then show ?case using Cons.IH [of "circ_push c x"] Cons.prems p by (simp del: circ_push.simps)
qed simp

lemma circ_with_spec: "circ_inv (circ_with xs)" "circ_content (circ_with xs) = xs"
  by (simp_all add: circ_with_def circ_inv_def circ_content_def circ_all_def)

lemma circ_write_spec:
  assumes "circ_inv c"
  shows "\<exists>c'. circ_write c xs = (c', None) \<and> circ_inv c' \<and> circ_content c' = circ_content c @ xs"
  using circ_pushes_spec [OF assms, of xs] circ_with_spec [of "circ_content c @ xs"]
  by (auto simp: circ_write_def circ_length_def)

lemma circ_read_spec:
  assumes "circ_inv c" and "n \<le> length (circ_content c)"
  shows "\<exists>c'. circ_read c n = (c', take n (circ_content c), None) \<and> circ_inv c' \<and>
           circ_content c' = drop n (circ_content c)"
  using assms circ_retrieve_spec [OF assms]
  by (auto simp: circ_read_def circ_peek_take circ_content_simps(1))

lemma circ_uint_spec:
  "n \<le> length (circ_content c) \<Longrightarrow> \<exists>v. dec (take n (circ_content c)) = Some v \<Longrightarrow>
   dec (take n (circ_content c)) = Some (circ_uint dec n c)"
  by (auto simp: circ_uint_def circ_peek_take)

lemma circ_flat_all: "circ_inv c \<Longrightarrow> circ_flat c \<Longrightarrow> snd (circ_all c) = []"
  by (auto simp: circ_flat_def circ_all_def circ_inv_def)

lemma circ_flat_retrieve: "circ_flat c \<Longrightarrow> circ_flat (circ_retrieve c n)"
  by (auto simp: circ_flat_def circ_retrieve_def circ_reset_def)

interpretation circ: ring_buffer_flat circ_ops circ_content circ_inv circ_flat
proof (unfold_locales, goal_cases)
  case (1 b)
  show ?case by (simp add: circ_ops_def circ_length_def)
next
  case (2 b)
  then show ?case by (simp add: circ_ops_def circ_content_empty)
next
  case (3 b)
  then show ?case
    by (cases "circ_content b") (simp_all add: circ_ops_def circ_uint_def circ_peek_take)
next
  case (4 b)
  then show ?case by (simp add: circ_ops_def circ_uint_spec be_Uint_total)
next
  case (5 b)
  then show ?case by (simp add: circ_ops_def circ_uint_spec be_Uint_total)
next
  case (6 b)
  then show ?case by (simp add: circ_ops_def circ_uint_spec be_Uint_total)
next
  case (7 b n)
  show ?case by (simp add: circ_ops_def circ_peek_take)
next
  case (8 b)
  show ?case by (simp add: circ_ops_def circ_content_def)
next
  case (9 b n)
  then show ?case by (simp add: circ_ops_def circ_retrieve_spec)
next
  case (10 b n)
  then show ?case by (simp add: circ_ops_def circ_retrieve_spec)
next
  case (11 b n)
  then show ?case by (simp add: circ_ops_def circ_read_spec)
next
  case (12 n)
  show ?case by (simp add: circ_ops_def circ_new_def circ_inv_def)
next
  case (13 n)
  show ?case by (simp add: circ_ops_def circ_new_def circ_content_simps)
next
  case (14 xs)
  show ?case by (simp add: circ_ops_def circ_with_spec)
next
  case (15 xs)
  show ?case by (simp add: circ_ops_def circ_with_spec)
next
  case (16 b)
  show ?case by (simp add: circ_ops_def circ_reset_def circ_inv_def)
next
  case (17 b)
  show ?case by (simp add: circ_ops_def circ_reset_def circ_content_simps)
next
  case (18 b xs)
  then show ?case by (simp add: circ_ops_def circ_write_spec)
next
  case (19 xs)
  show ?case by (simp add: circ_ops_def circ_with_def circ_flat_def)
next
  case (20 b n)
  then show ?case by (simp add: circ_ops_def circ_flat_retrieve)
next
  case (21 b n)
  then show ?case by (simp add: circ_ops_def circ_read_def circ_flat_retrieve)
next
  case (22 b)
  then show ?case by (simp add: circ_ops_def circ_flat_all)
qed

end
