(* ===== verification/V1_Header.thy ===== *)
theory V1_Header
  imports Packet Ring_Buffer
begin

text \<open>
  The version 1 frame header (\<open>go/v1/header.go\<close>).

  A header is a record; version 2 extends it by one field, so the methods that version 2 inherits
  (\<open>Metadata\<close>, \<open>IsUnknownPacket\<close>, \<open>Unpacked\<close>) are defined on the record scheme.  \<open>UnpackBytes\<close> and
  \<open>Unpack\<close> mutate the header: they take it and return the updated one, on the error paths, too.
  \<open>Unpack\<close> reads from a ring buffer through the parameter \<open>rb\<close>.  The object that
  \<open>sync.Pool.Get\<close> returns is an argument of \<open>Get\<close>: any header used before.

  The lemmas reduce both readers to the frame layout (\<open>v1_wire\<close>, \<open>set_prefix\<close>): the length of a
  header is fixed by its type, packing then unpacking restores the transmitted fields, and the
  ring-buffer reader consumes the first byte at once and the rest when it has arrived.
\<close>

type_synonym v1_PacketType = "8 word"

definition v1_UnkownPacket :: v1_PacketType where "v1_UnkownPacket = 0"
definition v1_RequestPacket :: v1_PacketType where "v1_RequestPacket = 1"
definition v1_ResponsePacket :: v1_PacketType where "v1_ResponsePacket = 2"
definition v1_PushPacket :: v1_PacketType where "v1_PushPacket = 3"

definition v1_RequestHeaderLen :: nat where "v1_RequestHeaderLen = 11"
definition v1_ResponseHeaderLen :: nat where "v1_ResponseHeaderLen = 10"
definition v1_PushHeaderLen :: nat where "v1_PushHeaderLen = 5"

definition HeaderTypeMask :: "8 word" where "HeaderTypeMask = 0xf"
definition MaxBodyLength :: nat where "MaxBodyLength = 2 ^ 24 - 1"

record Header =
  h_RequestId :: "32 word"
  h_BodyLength :: "32 word"
  h_Timeout :: "16 word"
  h_Type :: "8 word"
  h_Verify :: "8 word"
  h_Gzip :: "8 word"
  h_Reserve :: "8 word"
  h_CmdCode :: "8 word"
  h_StatusCode :: "8 word"
  h_BeginUnpack :: bool
  h_IsUnpacked :: bool

definition Header_Metadata :: "'a Header_scheme \<Rightarrow> ('h, 'i) Context \<Rightarrow> Metadata" where
  "Header_Metadata h ctx =
     (let t = (if h_Type h = v1_RequestPacket then RequestPacket
               else if h_Type h = v1_ResponsePacket then ResponsePacket
               else if h_Type h = v1_PushPacket then PushPacket
               else [])
      in Metadata_zero\<lparr>md_Type := t, md_Codec := ctx_Codec ctx, md_Timeout := h_Timeout h,
           md_CmdCode := ucast (h_CmdCode h), md_RequestId := h_RequestId h,
           md_StatusCode := h_StatusCode h, md_Verify := (h_Verify h = 1), md_Gzip := (h_Gzip h = 1)\<rparr>)"

definition IsUnknownPacket :: "'a Header_scheme \<Rightarrow> bool" where
  "IsUnknownPacket h =
     (if h_Type h = v1_RequestPacket then False
      else if h_Type h = v1_ResponsePacket then False
      else if h_Type h = v1_PushPacket then False
      else True)"

definition Unpacked :: "'a Header_scheme \<Rightarrow> bool" where
  "Unpacked h = h_IsUnpacked h"

definition v1_Header_length :: "'a Header_scheme \<Rightarrow> nat" where
  "v1_Header_length h =
     (if h_Type h = v1_RequestPacket then v1_RequestHeaderLen
      else if h_Type h = v1_ResponsePacket then v1_ResponseHeaderLen
      else v1_PushHeaderLen)"

subsection \<open>Packing\<close>

definition v1_Header_Pack :: "Header \<Rightarrow> (error + bytes) go" where
  "v1_Header_Pack h =
     (if IsUnknownPacket h then Some (Inl ErrUnknowPacket)
      else if unat (h_BodyLength h) > MaxBodyLength then Some (Inl ErrBodyLenHitLimit)
      else do {
        let len = v1_Header_length h;
        let data = replicate len 0;
        let i = 0;
        let b = (h_Type h AND 0xf) OR push_bit 4 (h_Verify h AND 1) OR push_bit 5 (h_Gzip h AND 1)
                  OR push_bit 6 (h_Reserve h AND 3);
        data \<leftarrow> upd data i b;
        let i = i + 1;
        data \<leftarrow> upd data i (h_CmdCode h);
        let i = i + 1;
        let t = h_Type h;
        (data, i) \<leftarrow>
          (if t = v1_RequestPacket \<or> t = v1_ResponsePacket then do {
             data \<leftarrow> put_at data i (be_PutUint32 (h_RequestId h));
             let i = i + 4;
             (data, i) \<leftarrow>
               (if t = v1_RequestPacket then do {
                  data \<leftarrow> put_at data i (be_PutUint16 (h_Timeout h));
                  Some (data, i + 2) }
                else Some (data, i));
             (if t = v1_ResponsePacket then do {
                data \<leftarrow> upd data i (h_StatusCode h);
                Some (data, i + 1) }
              else Some (data, i)) }
           else Some (data, i));
        data \<leftarrow> upd data i (ucast (drop_bit 16 (h_BodyLength h)));
        data \<leftarrow> upd data (i + 1) (ucast (drop_bit 8 (h_BodyLength h)));
        data \<leftarrow> upd data (i + 2) (ucast (h_BodyLength h));
        Some (Inr data) })"

subsection \<open>Unpacking\<close>

text \<open>The assignments of the first byte's bit fields, which all four readers share.\<close>

definition set_flags :: "'a Header_scheme \<Rightarrow> byte \<Rightarrow> 'a Header_scheme" where
  "set_flags h b =
     h\<lparr>h_Type := HeaderTypeMask AND b, h_Verify := drop_bit 4 b AND 1,
       h_Gzip := drop_bit 5 b AND 1, h_Reserve := drop_bit 6 b AND 3\<rparr>"

definition v1_Header_UnpackBytes :: "Header \<Rightarrow> bytes \<Rightarrow> (Header \<times> (error + bytes)) go" where
  "v1_Header_UnpackBytes h frame =
     (if length frame = 0 then Some (h, Inl ErrInvalidFrame)
      else do {
        let i = 0;
        b \<leftarrow> idx frame i;
        let i = i + 1;
        let h = set_flags h b;
        (if IsUnknownPacket h then Some (h, Inl ErrUnknowPacket)
         else do {
           let t = h_Type h;
           let remainLen = (if t = v1_RequestPacket then v1_RequestHeaderLen - 1
                            else if t = v1_ResponsePacket then v1_ResponseHeaderLen - 1
                            else v1_PushHeaderLen - 1);
           (if length frame < remainLen + 1 then Some (h, Inl ErrInvalidFrame)
            else do {
              c \<leftarrow> idx frame i;
              let h = h\<lparr>h_CmdCode := c\<rparr>;
              let i = i + 1;
              (h, i) \<leftarrow>
                (if t = v1_RequestPacket \<or> t = v1_ResponsePacket then do {
                   s \<leftarrow> slice frame i (i + 4);
                   v \<leftarrow> be_Uint32 s;
                   Some (h\<lparr>h_RequestId := v\<rparr>, i + 4) }
                 else Some (h, i));
              (h, i) \<leftarrow>
                (if t = v1_RequestPacket then do {
                   s \<leftarrow> slice frame i (i + 2);
                   v \<leftarrow> be_Uint16 s;
                   Some (h\<lparr>h_Timeout := v\<rparr>, i + 2) }
                 else Some (h, i));
              (h, i) \<leftarrow>
                (if t = v1_ResponsePacket then do {
                   v \<leftarrow> idx frame i;
                   Some (h\<lparr>h_StatusCode := v\<rparr>, i + 1) }
                 else Some (h, i));
              fb \<leftarrow> idx frame i;
              sb \<leftarrow> idx frame (i + 1);
              tb \<leftarrow> idx frame (i + 2);
              let i = i + 3;
              let h = h\<lparr>h_BodyLength := push_bit 16 (ucast fb) OR push_bit 8 (ucast sb) OR ucast tb\<rparr>;
              body \<leftarrow> slice_from frame i;
              Some (h, Inr body) }) }) })"

text \<open>The switch over the two pieces of a three-byte \<open>Peek\<close>.\<close>

definition peek3_bytes :: "bytes \<Rightarrow> bytes \<Rightarrow> (byte \<times> byte \<times> byte) go" where
  "peek3_bytes f e =
     (if length f = 0 then do { fb \<leftarrow> idx e 0; sb \<leftarrow> idx e 1; tb \<leftarrow> idx e 2; Some (fb, sb, tb) }
      else if length f = 1 then do { fb \<leftarrow> idx f 0; sb \<leftarrow> idx e 0; tb \<leftarrow> idx e 1; Some (fb, sb, tb) }
      else if length f = 2 then do { fb \<leftarrow> idx f 0; sb \<leftarrow> idx f 1; tb \<leftarrow> idx e 0; Some (fb, sb, tb) }
      else do { fb \<leftarrow> idx f 0; sb \<leftarrow> idx f 1; tb \<leftarrow> idx f 2; Some (fb, sb, tb) })"

definition v1_Header_Unpack ::
    "'b rb_ops \<Rightarrow> Header \<Rightarrow> 'b \<Rightarrow> (Header \<times> 'b \<times> bool \<times> error option) go" where
  "v1_Header_Unpack rb h buf =
     (if rb_Length rb buf = 0 then Some (h, buf, False, None)
      else if h_IsUnpacked h then Some (h, buf, True, None)
      else do {
        let (h, buf) =
          (if \<not> h_BeginUnpack h then
             let b = rb_PeekUint8 rb buf;
                 h = set_flags (h\<lparr>h_BeginUnpack := True\<rparr>) b
             in (h, rb_Retrieve rb buf 1)
           else (h, buf));
        (if IsUnknownPacket h then Some (h, buf, False, Some ErrUnknowPacket)
         else do {
           let t = h_Type h;
           let remainLen = (if t = v1_RequestPacket then v1_RequestHeaderLen - 1
                            else if t = v1_ResponsePacket then v1_ResponseHeaderLen - 1
                            else v1_PushHeaderLen - 1);
           (if rb_Length rb buf < remainLen then Some (h, buf, False, None)
            else do {
              let h = h\<lparr>h_IsUnpacked := True\<rparr>;
              let h = h\<lparr>h_CmdCode := rb_PeekUint8 rb buf\<rparr>;
              let buf = rb_Retrieve rb buf 1;
              let (h, buf) =
                (if t = v1_RequestPacket \<or> t = v1_ResponsePacket
                 then (h\<lparr>h_RequestId := rb_PeekUint32 rb buf\<rparr>, rb_Retrieve rb buf 4)
                 else (h, buf));
              let (h, buf) =
                (if t = v1_RequestPacket
                 then (h\<lparr>h_Timeout := rb_PeekUint16 rb buf\<rparr>, rb_Retrieve rb buf 2)
                 else (h, buf));
              let (h, buf) =
                (if t = v1_ResponsePacket
                 then (h\<lparr>h_StatusCode := rb_PeekUint8 rb buf\<rparr>, rb_Retrieve rb buf 1)
                 else (h, buf));
              let (f, e) = rb_Peek rb buf 3;
              let buf = rb_Retrieve rb buf 3;
              (fb, sb, tb) \<leftarrow> peek3_bytes f e;
              Some (h\<lparr>h_BodyLength := push_bit 16 (ucast fb) OR push_bit 8 (ucast sb) OR ucast tb\<rparr>,
                    buf, True, None) }) }) })"

subsection \<open>Pool and conversions\<close>

definition Header_zero :: Header where
  "Header_zero =
     \<lparr>h_RequestId = 0, h_BodyLength = 0, h_Timeout = 0, h_Type = 0, h_Verify = 0, h_Gzip = 0,
      h_Reserve = 0, h_CmdCode = 0, h_StatusCode = 0, h_BeginUnpack = False, h_IsUnpacked = False\<rparr>"

definition v1_headerPool_Get :: "Header \<Rightarrow> Header" where
  "v1_headerPool_Get v =
     v\<lparr>h_Type := 0, h_Verify := 0, h_Gzip := 0, h_Reserve := 0, h_CmdCode := 0, h_Timeout := 0,
       h_RequestId := 0, h_StatusCode := 0, h_BodyLength := 0,
       h_BeginUnpack := False, h_IsUnpacked := False\<rparr>"

definition v1_headerFromContext ::
    "Header \<Rightarrow> (Header, 'i) Context \<Rightarrow> (Header, 'i) Context \<times> Header" where
  "v1_headerFromContext pooled ctx =
     (case GetHeader ctx of
        None \<Rightarrow> let h = v1_headerPool_Get pooled in (SetHeader ctx (Some h), h)
      | Some h \<Rightarrow> (ctx, h))"

definition v1_headerFromMetadata :: "Header \<Rightarrow> Metadata \<Rightarrow> Header" where
  "v1_headerFromMetadata pooled md =
     (let h = v1_headerPool_Get pooled;
          h = (if md_Gzip md then h\<lparr>h_Gzip := 1\<rparr> else h);
          h = (if md_Verify md then h\<lparr>h_Verify := 1\<rparr> else h);
          h = (if md_Type md = RequestPacket then h\<lparr>h_Type := v1_RequestPacket\<rparr>
               else if md_Type md = ResponsePacket then h\<lparr>h_Type := v1_ResponsePacket\<rparr>
               else if md_Type md = PushPacket then h\<lparr>h_Type := v1_PushPacket\<rparr>
               else h)
      in h\<lparr>h_RequestId := md_RequestId md, h_CmdCode := ucast (md_CmdCode md AND 0xff),
           h_Timeout := md_Timeout md, h_StatusCode := md_StatusCode md\<rparr>)"

subsection \<open>The frame layout\<close>

text \<open>The bytes of a header after the first: a prefix that depends on the type, then the lengths.\<close>

definition known_type :: "8 word \<Rightarrow> bool" where
  "known_type t \<longleftrightarrow> t = v1_RequestPacket \<or> t = v1_ResponsePacket \<or> t = v1_PushPacket"

definition prefix_len :: "8 word \<Rightarrow> nat" where
  "prefix_len t = (if t = v1_RequestPacket then 7 else if t = v1_ResponsePacket then 6 else 1)"

definition flags_byte :: "'a Header_scheme \<Rightarrow> byte" where
  "flags_byte h = (h_Type h AND 0xf) OR push_bit 4 (h_Verify h AND 1) OR push_bit 5 (h_Gzip h AND 1)
                  OR push_bit 6 (h_Reserve h AND 3)"

definition prefix_bytes :: "'a Header_scheme \<Rightarrow> bytes" where
  "prefix_bytes h =
     h_CmdCode h #
     (if h_Type h = v1_RequestPacket then be_PutUint32 (h_RequestId h) @ be_PutUint16 (h_Timeout h)
      else if h_Type h = v1_ResponsePacket then be_PutUint32 (h_RequestId h) @ [h_StatusCode h]
      else [])"

definition v1_wire :: "'a Header_scheme \<Rightarrow> bytes" where
  "v1_wire h = flags_byte h # prefix_bytes h @ put24 (h_BodyLength h)"

definition set_prefix :: "'a Header_scheme \<Rightarrow> bytes \<Rightarrow> 'a Header_scheme" where
  "set_prefix h bs =
     (let h = h\<lparr>h_CmdCode := bs ! 0\<rparr> in
      if h_Type h = v1_RequestPacket
      then h\<lparr>h_RequestId := dec32 (take 4 (drop 1 bs)), h_Timeout := dec16 (take 2 (drop 5 bs))\<rparr>
      else if h_Type h = v1_ResponsePacket
      then h\<lparr>h_RequestId := dec32 (take 4 (drop 1 bs)), h_StatusCode := bs ! 5\<rparr>
      else h)"

definition set_length :: "'a Header_scheme \<Rightarrow> bytes \<Rightarrow> 'a Header_scheme" where
  "set_length h bs = h\<lparr>h_BodyLength := be24 (bs ! 0) (bs ! 1) (bs ! 2)\<rparr>"

definition v1_fields :: "'a Header_scheme \<Rightarrow> bytes \<Rightarrow> 'a Header_scheme" where
  "v1_fields h bs = set_length (set_prefix h bs) (drop (prefix_len (h_Type h)) bs)"

lemma type_distinct [simp]:
  "v1_RequestPacket \<noteq> v1_ResponsePacket" "v1_RequestPacket \<noteq> v1_PushPacket"
  "v1_ResponsePacket \<noteq> v1_PushPacket" "v1_ResponsePacket \<noteq> v1_RequestPacket"
  "v1_PushPacket \<noteq> v1_RequestPacket" "v1_PushPacket \<noteq> v1_ResponsePacket"
  by (simp_all add: v1_RequestPacket_def v1_ResponsePacket_def v1_PushPacket_def)

lemma IsUnknownPacket_iff: "IsUnknownPacket h \<longleftrightarrow> \<not> known_type (h_Type h)"
  by (simp add: IsUnknownPacket_def known_type_def)

lemma known_cases [consumes 1, case_names request response push]:
  assumes "known_type t"
  obtains "t = v1_RequestPacket" | "t = v1_ResponsePacket" | "t = v1_PushPacket"
  using assms by (auto simp: known_type_def)

lemma prefix_len_pos [simp]: "0 < prefix_len t"
  by (simp add: prefix_len_def)

lemma length_prefix_bytes [simp]: "length (prefix_bytes h) = prefix_len (h_Type h)"
  by (simp add: prefix_bytes_def prefix_len_def)

lemma length_v1_wire: "length (v1_wire h) = prefix_len (h_Type h) + 4"
  by (simp add: v1_wire_def)

lemma v1_Header_length_eq:
  "known_type (h_Type h) \<Longrightarrow> v1_Header_length h = prefix_len (h_Type h) + 4"
  by (auto simp: known_type_def v1_Header_length_def prefix_len_def v1_RequestHeaderLen_def
      v1_ResponseHeaderLen_def v1_PushHeaderLen_def)

lemma v1_Header_Pack_eq:
  "v1_Header_Pack h =
     Some (if \<not> known_type (h_Type h) then Inl ErrUnknowPacket
           else if unat (h_BodyLength h) > MaxBodyLength then Inl ErrBodyLenHitLimit
           else Inr (v1_wire h))"
proof (cases "known_type (h_Type h)")
  case True
  then show ?thesis
    by (cases rule: known_cases)
       (simp_all add: v1_Header_Pack_def IsUnknownPacket_def v1_Header_length_def v1_RequestHeaderLen_def
        v1_ResponseHeaderLen_def v1_PushHeaderLen_def known_type_def numeral_eq_Suc
        upd_def put_at_def v1_wire_def flags_byte_def prefix_bytes_def put24_def be_PutUint32_def be_PutUint16_def)
next
  case False
  then show ?thesis by (simp add: v1_Header_Pack_def IsUnknownPacket_iff)
qed

lemma v1_Header_UnpackBytes_eq:
  "v1_Header_UnpackBytes h frame =
     Some (case frame of
       [] \<Rightarrow> (h, Inl ErrInvalidFrame)
     | b # bs \<Rightarrow>
         let h1 = set_flags h b in
         if \<not> known_type (h_Type h1) then (h1, Inl ErrUnknowPacket)
         else if length bs < prefix_len (h_Type h1) + 3 then (h1, Inl ErrInvalidFrame)
         else (v1_fields h1 bs, Inr (drop (prefix_len (h_Type h1) + 3) bs)))"
proof (cases frame)
  case Nil
  then show ?thesis by (simp add: v1_Header_UnpackBytes_def)
next
  case (Cons b bs)
  define h1 where "h1 = set_flags h b"
  show ?thesis
  proof (cases "known_type (h_Type h1)")
    case False
    with Cons show ?thesis by (simp add: v1_Header_UnpackBytes_def h1_def IsUnknownPacket_iff)
  next
    case True
    have len: "(if h_Type h1 = v1_RequestPacket then v1_RequestHeaderLen - 1
               else if h_Type h1 = v1_ResponsePacket then v1_ResponseHeaderLen - 1
               else v1_PushHeaderLen - 1) = prefix_len (h_Type h1) + 3"
      by (simp add: v1_RequestHeaderLen_def v1_ResponseHeaderLen_def v1_PushHeaderLen_def prefix_len_def)
    show ?thesis
    proof (cases "length bs < prefix_len (h_Type h1) + 3")
      case short: True
      with Cons True show ?thesis
        by (simp add: v1_Header_UnpackBytes_def h1_def [symmetric] IsUnknownPacket_iff len Let_def)
    next
      case False
      then have "bs \<noteq> []" by auto
      from True show ?thesis
        using False Cons \<open>bs \<noteq> []\<close>
        by (cases rule: known_cases)
           (simp_all add: v1_Header_UnpackBytes_def h1_def [symmetric] IsUnknownPacket_def Let_def
            v1_RequestHeaderLen_def v1_ResponseHeaderLen_def v1_PushHeaderLen_def
            prefix_len_def known_type_def idx_def slice_def slice_from_def be_Uint_dec
            v1_fields_def set_prefix_def set_length_def be24_def add.commute)
    qed
  qed
qed

text \<open>The header reader on the bytes a buffer holds.\<close>

definition header_step ::
    "('a Header_scheme \<Rightarrow> bytes \<Rightarrow> 'a Header_scheme) \<Rightarrow> nat
     \<Rightarrow> 'a Header_scheme \<Rightarrow> bytes \<Rightarrow> 'a Header_scheme \<times> bytes \<times> bool \<times> error option" where
  "header_step flds n h c =
     (if c = [] then (h, c, False, None)
      else if h_IsUnpacked h then (h, c, True, None)
      else
        let (h, c) = (if h_BeginUnpack h then (h, c)
                      else (set_flags (h\<lparr>h_BeginUnpack := True\<rparr>) (hd c), tl c)) in
        if \<not> known_type (h_Type h) then (h, c, False, Some ErrUnknowPacket)
        else if length c < prefix_len (h_Type h) + n then (h, c, False, None)
        else (flds (h\<lparr>h_IsUnpacked := True\<rparr>) c, drop (prefix_len (h_Type h) + n) c, True, None))"

definition v1_header_step :: "Header \<Rightarrow> bytes \<Rightarrow> Header \<times> bytes \<times> bool \<times> error option" where
  "v1_header_step = header_step v1_fields 3"

lemmas v1_header_step_eq = header_step_def [of "v1_fields :: Header \<Rightarrow> bytes \<Rightarrow> Header" 3, folded v1_header_step_def]

lemma peek3_bytes_eq: "f @ e = [x, y, z] \<Longrightarrow> peek3_bytes f e = Some (x, y, z)"
  by (cases f; cases "tl f"; cases "tl (tl f)") (auto simp: peek3_bytes_def)

context ring_reader
begin

lemma PeekUint_dec:
  "inv b \<Longrightarrow> 2 \<le> length (content b) \<Longrightarrow> rb_PeekUint16 rb b = dec16 (take 2 (content b))"
  "inv b \<Longrightarrow> 4 \<le> length (content b) \<Longrightarrow> rb_PeekUint32 rb b = dec32 (take 4 (content b))"
  "inv b \<Longrightarrow> 8 \<le> length (content b) \<Longrightarrow> rb_PeekUint64 rb b = dec64 (take 8 (content b))"
  using PeekUint16 [of b] PeekUint32 [of b] PeekUint64 [of b]
  by (auto simp: dec16_def dec32_def dec64_def)

lemma PeekUint8_nth: "inv b \<Longrightarrow> 1 \<le> length (content b) \<Longrightarrow> rb_PeekUint8 rb b = content b ! 0"
  using PeekUint8 [of b] by (cases "content b") auto

lemma peek3_content:
  assumes "inv b" and "3 \<le> length (content b)"
  shows "(case rb_Peek rb b 3 of (f, e) \<Rightarrow> Option.bind (peek3_bytes f e) k) =
     k (content b ! 0, content b ! 1, content b ! 2)"
proof -
  have "take 3 (content b) = [content b ! 0, content b ! 1, content b ! 2]"
    using assms(2) by (intro nth_equalityI) (auto simp: less_Suc_eq numeral_3_eq_3 numeral_2_eq_2)
  then show ?thesis
    using Peek [OF assms] by (simp add: case_prod_unfold peek3_bytes_eq)
qed

lemmas buffer_simps = Length Retrieve PeekUint8_nth PeekUint_dec peek3_content

lemma v1_Header_Unpack_refines:
  assumes "inv buf" and "v1_header_step h (content buf) = (h', c', done, err)"
  shows "\<exists>buf'. v1_Header_Unpack rb h buf = Some (h', buf', done, err) \<and> inv buf' \<and> content buf' = c'"
proof (cases "content buf = [] \<or> h_IsUnpacked h")
  case True
  with assms show ?thesis by (auto simp: v1_header_step_eq v1_Header_Unpack_def Length)
next
  case False
  define h1 where "h1 = (if h_BeginUnpack h then h else set_flags (h\<lparr>h_BeginUnpack := True\<rparr>) (content buf ! 0))"
  define buf1 where "buf1 = (if h_BeginUnpack h then buf else rb_Retrieve rb buf 1)"
  define c1 where "c1 = (if h_BeginUnpack h then content buf else tl (content buf))"
  have 1: "inv buf1" "content buf1 = c1"
    using False assms(1) by (cases "content buf"; simp add: buf1_def c1_def Retrieve)+
  have hd: "hd (content buf) = content buf ! 0" using False by (simp add: hd_conv_nth)
  have s: "(if \<not> h_BeginUnpack h then
             let b = rb_PeekUint8 rb buf; h = set_flags (h\<lparr>h_BeginUnpack := True\<rparr>) b
             in (h, rb_Retrieve rb buf 1)
           else (h, buf)) = (h1, buf1)"
    using False assms(1) by (simp add: h1_def buf1_def PeekUint8_nth Suc_le_eq)
  show ?thesis
  proof (cases "known_type (h_Type h1)")
    case unknown: False
    with False assms 1 show ?thesis
      by (auto simp: v1_header_step_eq v1_Header_Unpack_def Length s IsUnknownPacket_iff h1_def c1_def hd Let_def)
  next
    case known: True
    have st: "v1_header_step h (content buf) =
        (if length c1 < prefix_len (h_Type h1) + 3 then (h1, c1, False, None)
         else (v1_fields (h1\<lparr>h_IsUnpacked := True\<rparr>) c1, drop (prefix_len (h_Type h1) + 3) c1, True, None))"
      using False known by (cases "h_BeginUnpack h") (simp_all add: v1_header_step_eq h1_def c1_def hd)
    show ?thesis
    proof (cases "length c1 < prefix_len (h_Type h1) + 3")
      case True
      from known show ?thesis
        using True False assms 1
        by (cases rule: known_cases)
           (auto simp: st v1_Header_Unpack_def s IsUnknownPacket_def known_type_def Length Let_def
            v1_RequestHeaderLen_def v1_ResponseHeaderLen_def v1_PushHeaderLen_def prefix_len_def)
    next
      case enough: False
      from known show ?thesis
        using False enough assms 1
        by (cases rule: known_cases)
           (auto simp: st v1_Header_Unpack_def s IsUnknownPacket_def known_type_def
            v1_RequestHeaderLen_def v1_ResponseHeaderLen_def v1_PushHeaderLen_def
            prefix_len_def buffer_simps Let_def v1_fields_def set_prefix_def set_length_def be24_def add.commute)
    qed
  qed
qed

end

subsection \<open>Round trip of the header fields\<close>

lemma mask_bits: "(1 :: 8 word) = mask 1" "(3 :: 8 word) = mask 2" "(0xf :: 8 word) = mask 4"
  by (simp_all add: mask_eq_exp_minus_1)

lemma bit_field1: "bit (push_bit k (v AND 1 :: 8 word)) n \<longleftrightarrow> n = k \<and> k < 8 \<and> bit v 0"
  by (auto simp only: bit_push_bit_iff bit_and_iff bit_1_iff) simp_all

lemma bit_field2: "bit (push_bit 6 (v AND 3 :: 8 word)) n \<longleftrightarrow> 6 \<le> n \<and> n < 8 \<and> bit v (n - 6)"
  unfolding mask_bits by (auto simp only: bit_push_bit_iff bit_and_iff bit_mask_iff) simp_all

lemma bit_flags_byte:
  "bit (flags_byte h) n \<longleftrightarrow>
     n < 4 \<and> bit (h_Type h) n \<or> n = 4 \<and> bit (h_Verify h) 0 \<or> n = 5 \<and> bit (h_Gzip h) 0 \<or>
     6 \<le> n \<and> n < 8 \<and> bit (h_Reserve h) (n - 6)"
proof -
  have "bit (h_Type h AND 0xf) n \<longleftrightarrow> n < 4 \<and> bit (h_Type h) n"
    unfolding mask_bits by (auto simp: bit_and_iff bit_mask_iff)
  then show ?thesis
    unfolding flags_byte_def bit_or_iff bit_field1 bit_field2 by auto
qed

lemma set_flags_flags_byte:
  "set_flags h0 (flags_byte h) =
     h0\<lparr>h_Type := h_Type h AND 0xf, h_Verify := h_Verify h AND 1, h_Gzip := h_Gzip h AND 1,
        h_Reserve := h_Reserve h AND 3\<rparr>"
proof -
  have "HeaderTypeMask AND flags_byte h = h_Type h AND 0xf"
    unfolding HeaderTypeMask_def mask_bits
    by (rule bit_word_eqI) (auto simp: bit_and_iff bit_mask_iff bit_flags_byte)
  moreover have "drop_bit 4 (flags_byte h) AND 1 = h_Verify h AND 1"
    "drop_bit 5 (flags_byte h) AND 1 = h_Gzip h AND 1"
    unfolding mask_bits
    by (rule bit_word_eqI; auto simp: bit_and_iff bit_mask_iff bit_flags_byte bit_drop_bit_eq simp del: mask_Suc_0)+
  moreover have "drop_bit 6 (flags_byte h) AND 3 = h_Reserve h AND 3"
    unfolding mask_bits
    by (rule bit_word_eqI) (auto simp: bit_and_iff bit_mask_iff bit_flags_byte bit_drop_bit_eq)
  ultimately show ?thesis by (simp add: set_flags_def)
qed

lemma known_type_nibble: "known_type t \<Longrightarrow> t AND 0xf = t"
  by (auto simp: known_type_def v1_RequestPacket_def v1_ResponsePacket_def v1_PushPacket_def)

text \<open>The fields that a frame carries after the first byte, given its type.\<close>

definition copy_prefix :: "'a Header_scheme \<Rightarrow> 'b Header_scheme \<Rightarrow> 'a Header_scheme" where
  "copy_prefix h src =
     (let h = h\<lparr>h_CmdCode := h_CmdCode src\<rparr> in
      if h_Type src = v1_RequestPacket then h\<lparr>h_RequestId := h_RequestId src, h_Timeout := h_Timeout src\<rparr>
      else if h_Type src = v1_ResponsePacket
      then h\<lparr>h_RequestId := h_RequestId src, h_StatusCode := h_StatusCode src\<rparr>
      else h)"

lemma set_prefix_bytes:
  "h_Type h = h_Type src \<Longrightarrow> set_prefix h (prefix_bytes src @ rest) = copy_prefix h src"
  by (simp add: set_prefix_def copy_prefix_def prefix_bytes_def nth_append)

lemma set_length_put24:
  "unat (h_BodyLength src) < 2 ^ 24 \<Longrightarrow>
   set_length h (put24 (h_BodyLength src) @ rest) = h\<lparr>h_BodyLength := h_BodyLength src\<rparr>"
  using be24_put24 [of "h_BodyLength src"] by (simp add: set_length_def put24_def numeral_2_eq_2)

lemma v1_fields_wire:
  assumes "h_Type h = h_Type src" and "unat (h_BodyLength src) < 2 ^ 24"
  shows "v1_fields h (prefix_bytes src @ put24 (h_BodyLength src) @ rest) =
     (copy_prefix h src)\<lparr>h_BodyLength := h_BodyLength src\<rparr>"
proof -
  have "drop (prefix_len (h_Type h)) (prefix_bytes src @ put24 (h_BodyLength src) @ rest) =
      put24 (h_BodyLength src) @ rest"
    using assms(1) by simp
  then show ?thesis
    using assms by (simp add: v1_fields_def set_prefix_bytes set_length_put24)
qed

lemma v1_headerPool_Get_zero [simp]: "v1_headerPool_Get v = Header_zero"
  by (simp add: v1_headerPool_Get_def Header_zero_def)

lemma be24_unat_less: "unat (h_BodyLength (set_length h bs)) < 2 ^ 24"
  using be24_less [of "bs ! 0" "bs ! 1" "bs ! 2"] by (simp add: set_length_def)

subsection \<open>Resuming a header\<close>

lemma set_prefix_append: "prefix_len (h_Type h) \<le> length c \<Longrightarrow> set_prefix h (c @ d) = set_prefix h c"
  by (cases "h_Type h = v1_RequestPacket"; cases "h_Type h = v1_ResponsePacket"; cases "c = []")
     (simp_all add: set_prefix_def prefix_len_def nth_append)

lemma set_length_append: "3 \<le> length c \<Longrightarrow> set_length h (c @ d) = set_length h c"
  by (cases "c = []") (simp_all add: set_length_def nth_append)

lemma v1_fields_append:
  "prefix_len (h_Type h) + 3 \<le> length c \<Longrightarrow> v1_fields h (c @ d) = v1_fields h c"
  by (simp add: v1_fields_def set_prefix_append set_length_append)

lemma v1_fields_IsUnpacked [simp]: "h_IsUnpacked (v1_fields h c) = h_IsUnpacked h"
  by (simp add: v1_fields_def set_prefix_def set_length_def Let_def)

lemma set_flags_state [simp]:
  "h_IsUnpacked (set_flags h b) = h_IsUnpacked h" "h_BeginUnpack (set_flags h b) = h_BeginUnpack h"
  by (simp_all add: set_flags_def)

text \<open>After the first byte.\<close>

definition header_rest ::
    "('a Header_scheme \<Rightarrow> bytes \<Rightarrow> 'a Header_scheme) \<Rightarrow> nat
     \<Rightarrow> 'a Header_scheme \<Rightarrow> bytes \<Rightarrow> 'a Header_scheme \<times> bytes \<times> bool \<times> error option" where
  "header_rest flds n h c =
     (if \<not> known_type (h_Type h) then (h, c, False, Some ErrUnknowPacket)
      else if length c < prefix_len (h_Type h) + n then (h, c, False, None)
      else (flds (h\<lparr>h_IsUnpacked := True\<rparr>) c, drop (prefix_len (h_Type h) + n) c, True, None))"

text \<open>
  A layout: how the fields after the type-dependent prefix are read, and how many bytes they take.  A reader
  of such a header can be resumed.
\<close>

locale header_layout =
  fixes flds :: "'a Header_scheme \<Rightarrow> bytes \<Rightarrow> 'a Header_scheme" and n :: nat
  assumes append: "prefix_len (h_Type h) + n \<le> length c \<Longrightarrow> flds h (c @ d) = flds h c"
    and state: "h_IsUnpacked (flds h c) = h_IsUnpacked h"
begin

lemma step_rest:
  assumes "\<not> h_IsUnpacked h"
  shows "header_step flds n h [] = (h, [], False, None)"
    and "header_step flds n h (b # bs) =
      (if h_BeginUnpack h then header_rest flds n h (b # bs)
       else header_rest flds n (set_flags (h\<lparr>h_BeginUnpack := True\<rparr>) b) bs)"
  using assms by (simp_all add: header_step_def header_rest_def)

lemma rest_more:
  assumes "header_rest flds n h c = (h', c', ok, e)"
  shows "ok \<Longrightarrow> e = None \<and> h_IsUnpacked h' \<and> length c' < length c"
    and "ok \<or> e \<noteq> None \<Longrightarrow> header_rest flds n h (c @ d) = (h', c' @ d, ok, e)"
    and "\<not> ok \<Longrightarrow> e = None \<Longrightarrow> h' = h \<and> c' = c \<and> known_type (h_Type h)"
  using assms prefix_len_pos [of "h_Type h"]
  by (auto simp: header_rest_def append state split: if_splits simp del: prefix_len_pos)

lemma step_prefix: "header_step flds n h c = (h', c', ok, e) \<Longrightarrow> \<exists>k. c' = drop k c"
proof (cases "c = [] \<or> h_IsUnpacked h")
  case True
  moreover assume "header_step flds n h c = (h', c', ok, e)"
  ultimately show ?thesis
    by (intro exI [of _ 0]) (cases "c = []"; simp add: header_step_def)
next
  case False
  assume st: "header_step flds n h c = (h', c', ok, e)"
  have "c' = c \<or> c' = tl c \<or> (\<exists>k. c' = drop k c) \<or> (\<exists>k. c' = drop k (tl c))"
    using st False by (auto simp: header_step_def Let_def split: if_splits)
  then show ?thesis by (metis drop0 drop_Suc)
qed

lemma step_more:
  assumes "\<not> h_IsUnpacked h" "header_step flds n h c = (h', c', ok, e)"
  shows "ok \<Longrightarrow> e = None \<and> h_IsUnpacked h' \<and> length c' < length c"
    and "ok \<or> e \<noteq> None \<Longrightarrow> header_step flds n h (c @ d) = (h', c' @ d, ok, e)"
    and "\<not> ok \<Longrightarrow> e = None \<Longrightarrow> \<not> h_IsUnpacked h' \<and> header_step flds n h (c @ d) = header_step flds n h' (c' @ d)"
proof -
  note rest = step_rest [OF assms(1)]
  have "(ok \<longrightarrow> e = None \<and> h_IsUnpacked h' \<and> length c' < length c) \<and>
    (ok \<or> e \<noteq> None \<longrightarrow> header_step flds n h (c @ d) = (h', c' @ d, ok, e)) \<and>
    (\<not> ok \<longrightarrow> e = None \<longrightarrow> \<not> h_IsUnpacked h' \<and> header_step flds n h (c @ d) = header_step flds n h' (c' @ d))"
  proof (cases c)
    case Nil
    then show ?thesis using assms rest by simp
  next
    case (Cons b bs)
    show ?thesis
    proof (cases "h_BeginUnpack h")
      case True
      then have "header_rest flds n h c = (h', c', ok, e)" using assms(2) rest(2) Cons by simp
      from rest_more [OF this] True show ?thesis
        using assms(1) rest(2) Cons by auto
    next
      case False
      define h1 where "h1 = set_flags (h\<lparr>h_BeginUnpack := True\<rparr>) b"
      have h1: "\<not> h_IsUnpacked h1" "h_BeginUnpack h1" using assms(1) by (simp_all add: h1_def)
      have r: "header_rest flds n h1 bs = (h', c', ok, e)" using assms(2) rest(2) Cons False by (simp add: h1_def)
      have w: "header_step flds n h1 (bs @ d) = header_rest flds n h1 (bs @ d)" if "known_type (h_Type h1)"
        using that step_rest [OF h1(1)] h1(2) by (cases "bs @ d") (auto simp: header_rest_def)
      from rest_more [OF r] w h1 False show ?thesis
        using assms(1) rest(2) Cons by (auto simp: h1_def [symmetric])
    qed
  qed
  then show "ok \<Longrightarrow> e = None \<and> h_IsUnpacked h' \<and> length c' < length c"
    "ok \<or> e \<noteq> None \<Longrightarrow> header_step flds n h (c @ d) = (h', c' @ d, ok, e)"
    "\<not> ok \<Longrightarrow> e = None \<Longrightarrow> \<not> h_IsUnpacked h' \<and> header_step flds n h (c @ d) = header_step flds n h' (c' @ d)"
    by blast+
qed

end

interpretation v1h: header_layout "v1_fields :: Header \<Rightarrow> bytes \<Rightarrow> Header" 3
  by unfold_locales (simp_all add: v1_fields_append)

lemmas v1_header_step_rest = v1h.step_rest [folded v1_header_step_def]

end
