(* ===== verification/Gzip.thy ===== *)
theory Gzip
  imports Go_Errors
begin

text \<open>
  Body compression (\<open>go/gzip/gzip.go\<close>).

  The DEFLATE codec itself is Go's \<open>compress/gzip\<close>; it is the parameter \<open>gz\<close>, whose fields are
  the calls the package makes: write a whole input and close (\<open>gzw_Write\<close>, \<open>gzw_Close\<close>), open or
  reset a reader (\<open>gzr_NewReader\<close>, \<open>gzr_Reset\<close>) and read at most \<open>n\<close> bytes into a buffer through an
  \<open>io.LimitReader\<close> (\<open>gzr_ReadLimit\<close>).  The locale \<open>gzip_codec\<close> states what RFC 1952 and the library's
  documentation promise.  The object a \<open>sync.Pool\<close> hands out is an argument: the pool may be empty
  (\<open>None\<close>) or return any reader used before.

  The instance \<open>stored\<close> at the end is a gzip codec that uses stored blocks only, with the CRC-32
  and length trailer checked on reading; it shows that the contract can be met and lets examples be evaluated.
\<close>

record ('w, 'r) gz_lib =
  gzw_Write :: "int \<Rightarrow> bytes \<Rightarrow> error + 'w"
  gzw_Close :: "'w \<Rightarrow> error + bytes"
  gzr_NewReader :: "bytes \<Rightarrow> error + 'r"
  gzr_Reset :: "'r \<Rightarrow> bytes \<Rightarrow> error + 'r"
  gzr_ReadLimit :: "'r \<Rightarrow> int \<Rightarrow> bytes \<times> error option"

subsection \<open>The compressor\<close>

text \<open>The level that \<open>poolCompressor.New\<close> gives to the writers it makes.\<close>

definition gzip_DefaultCompression :: int where "gzip_DefaultCompression = -1"
definition gzip_BestCompression :: int where "gzip_BestCompression = 9"

definition SetLevel :: "int \<Rightarrow> int \<Rightarrow> int \<times> error option" where
  "SetLevel cur level =
     (if level < gzip_DefaultCompression \<or> level > gzip_BestCompression
      then (cur, Some (ErrNew ''grpc: invalid gzip compression level''))
      else (level, None))"

definition compressor_Decompress :: "('w, 'r) gz_lib \<Rightarrow> 'r option \<Rightarrow> bytes \<Rightarrow> error + 'r" where
  "compressor_Decompress gz pooled r =
     (case pooled of
        None \<Rightarrow> gzr_NewReader gz r
      | Some z \<Rightarrow> gzr_Reset gz z r)"

definition DecompressedSize :: "bytes \<Rightarrow> int go" where
  "DecompressedSize buf =
     (let last = length buf in
      if last < 4 then Some (- 1)
      else do {
        s \<leftarrow> slice buf (last - 4) last;
        v \<leftarrow> le_Uint32 s;
        Some (uint v) })"

definition gzip_Compress :: "('w, 'r) gz_lib \<Rightarrow> int \<Rightarrow> bytes \<Rightarrow> bytes \<times> error option" where
  "gzip_Compress gz level inp =
     (case gzw_Write gz level inp of
        Inl err \<Rightarrow> ([], Some (ErrWrap err ''compress data''))
      | Inr z \<Rightarrow>
          (case gzw_Close gz z of
             Inl err \<Rightarrow> ([], Some (ErrWrap err ''finish gzip compress''))
           | Inr out \<Rightarrow> (out, None)))"

definition bytes_MinRead :: int where "bytes_MinRead = 512"

definition gzip_Decompress ::
    "('w, 'r) gz_lib \<Rightarrow> 'r option \<Rightarrow> bytes \<Rightarrow> (bytes \<times> int \<times> error option) go" where
  "gzip_Decompress gz pooled inp =
     (case compressor_Decompress gz pooled inp of
        Inl err \<Rightarrow> Some ([], 0, Some (ErrWrap err ''create gzip reader''))
      | Inr r \<Rightarrow> do {
          dsize \<leftarrow> DecompressedSize inp;
          \<comment> \<open>\<open>make([]byte, 0, dsize+bytes.MinRead)\<close> panics on a negative capacity\<close>
          buf \<leftarrow> (if dsize + bytes_MinRead < 0 then None else Some ([] :: bytes));
          let (out, err) = gzr_ReadLimit gz r (dsize + 1);
          Some (buf @ out, int (length out), err) })"

definition DecompressSize :: "bytes \<Rightarrow> int go" where
  "DecompressSize inp = DecompressedSize inp"

subsection \<open>The contract of compress/gzip\<close>

locale gzip_codec =
  fixes gz :: "('w, 'r) gz_lib"
  assumes writes: "- 1 \<le> level \<Longrightarrow> level \<le> 9 \<Longrightarrow>
        \<exists>w out. gzw_Write gz level x = Inr w \<and> gzw_Close gz w = Inr out"
    and reads: "gzw_Write gz level x = Inr w \<Longrightarrow> gzw_Close gz w = Inr out \<Longrightarrow>
        \<exists>r. gzr_NewReader gz out = Inr r \<and> (\<forall>n\<ge>0. gzr_ReadLimit gz r n = (take (nat n) x, None))"
    and trailer: "gzw_Write gz level x = Inr w \<Longrightarrow> gzw_Close gz w = Inr out \<Longrightarrow>
        4 \<le> length out \<and> le_Uint32 (drop (length out - 4) out) = Some (word_of_nat (length x))"
    and resets: "gzr_Reset gz z b = gzr_NewReader gz b"
    and limits: "length (fst (gzr_ReadLimit gz r n)) \<le> nat n"
begin

lemma compress_decompress:
  assumes "- 1 \<le> level" "level \<le> 9" and x: "length x < 2 ^ 32"
  shows "\<exists>out. gzip_Compress gz level x = (out, None) \<and>
     (\<forall>pooled. gzip_Decompress gz pooled out = Some (x, int (length x), None))"
proof -
  obtain w out where wo: "gzw_Write gz level x = Inr w" "gzw_Close gz w = Inr out"
    using writes assms by blast
  obtain r where r: "gzr_NewReader gz out = Inr r" "\<And>n. 0 \<le> n \<Longrightarrow> gzr_ReadLimit gz r n = (take (nat n) x, None)"
    using reads [OF wo] by blast
  have t: "4 \<le> length out" "le_Uint32 (drop (length out - 4) out) = Some (word_of_nat (length x))"
    using trailer [OF wo] by simp_all
  have "uint (word_of_nat (length x) :: 32 word) = int (length x)"
    using x by (simp add: uint_nat unat_of_nat)
  then have "DecompressedSize out = Some (int (length x))"
    using t by (simp add: DecompressedSize_def slice_def)
  moreover have "compressor_Decompress gz pooled out = Inr r" for pooled
    by (cases pooled) (simp_all add: compressor_Decompress_def r resets)
  ultimately show ?thesis
    using wo r(2) [of "int (length x) + 1"]
    by (simp add: gzip_Compress_def gzip_Decompress_def bytes_MinRead_def nat_add_distrib)
qed

end

lemma DecompressedSize_total: "\<exists>n. DecompressedSize buf = Some n \<and> - 1 \<le> n \<and> n < 2 ^ 32"
proof (cases "length buf < 4")
  case False
  then have "4 \<le> length (take 4 (drop (length buf - 4) buf))" by simp
  then obtain v where "le_Uint32 (take 4 (drop (length buf - 4) buf)) = Some v"
    using be_Uint_total(4) by blast
  moreover have "- 1 \<le> uint v" "uint v < 2 ^ 32"
    using uint_lt2p [of v] uint_ge_0 [of v] by (linarith, simp)
  ultimately show ?thesis using False by (simp add: DecompressedSize_def slice_def)
qed (simp add: DecompressedSize_def)

lemma gzip_Decompress_total: "\<exists>r. gzip_Decompress gz pooled inp = Some r"
  using DecompressedSize_total [of inp]
  by (auto simp: gzip_Decompress_def bytes_MinRead_def split: sum.splits prod.splits)

subsection \<open>A codec with stored blocks\<close>

fun crc_bits :: "nat \<Rightarrow> 32 word \<Rightarrow> 32 word" where
  "crc_bits 0 c = c"
| "crc_bits (Suc n) c =
     crc_bits n (if bit c 0 then drop_bit 1 c XOR 0xEDB88320 else drop_bit 1 c)"

definition crc32 :: "bytes \<Rightarrow> 32 word" where
  "crc32 xs = NOT (foldl (\<lambda>c b. crc_bits 8 (c XOR ucast b)) 0xFFFFFFFF xs)"

definition stored_block :: "bool \<Rightarrow> bytes \<Rightarrow> bytes" where
  "stored_block final xs =
     (let lo = word_of_nat (length xs mod 256); hi = word_of_nat (length xs div 256)
      in [if final then 1 else 0, lo, hi, NOT lo, NOT hi] @ xs)"

fun stored_blocks :: "bytes \<Rightarrow> bytes" where
  "stored_blocks xs =
     (if length xs \<le> 65535 then stored_block True xs
      else stored_block False (take 65535 xs) @ stored_blocks (drop 65535 xs))"

declare stored_blocks.simps [simp del]

definition stored_trailer :: "bytes \<Rightarrow> bytes" where
  "stored_trailer xs = le_PutUint32 (crc32 xs) @ le_PutUint32 (word_of_nat (length xs))"

definition stored_header :: bytes where
  "stored_header = [31, 139, 8, 0, 0, 0, 0, 0, 0, 255]"

definition stored_encode :: "bytes \<Rightarrow> bytes" where
  "stored_encode xs = stored_header @ stored_blocks xs @ stored_trailer xs"

definition stored_open :: "bytes \<Rightarrow> error + bytes" where
  "stored_open b =
     (if length b < 10 then Inl (ErrLib ''unexpected EOF'')
      else if take 4 b \<noteq> take 4 stored_header then Inl (ErrLib ''gzip: invalid header'')
      else Inr (drop 10 b))"

fun inflate :: "bytes \<Rightarrow> bytes \<Rightarrow> bytes \<times> error option" where
  "inflate acc (h # lo # hi # nlo # nhi # rest) =
     (let n = unat hi * 256 + unat lo in
      if h \<noteq> 0 \<and> h \<noteq> 1 \<or> nlo \<noteq> NOT lo \<or> nhi \<noteq> NOT hi
      then (acc, Some (ErrLib ''flate: corrupt input''))
      else if length rest < n then (acc @ rest, Some (ErrLib ''unexpected EOF''))
      else
        let acc' = acc @ take n rest; rest' = drop n rest in
        if h = 0 then inflate acc' rest'
        else if take 8 rest' = stored_trailer acc' then (acc', None)
        else (acc', Some (ErrLib ''gzip: invalid checksum'')))"
| "inflate acc _ = (acc, Some (ErrLib ''unexpected EOF''))"

definition stored_read :: "bytes \<Rightarrow> int \<Rightarrow> bytes \<times> error option" where
  "stored_read r n =
     (let (c, e) = inflate [] r in if n \<le> int (length c) then (take (nat n) c, None) else (c, e))"

definition stored_gz :: "(bytes, bytes) gz_lib" where
  "stored_gz =
     \<lparr>gzw_Write = (\<lambda>level x. if - 1 \<le> level \<and> level \<le> 9 then Inr x else Inl (ErrLib ''gzip: invalid compression level'')),
      gzw_Close = (\<lambda>x. Inr (stored_encode x)),
      gzr_NewReader = stored_open, gzr_Reset = (\<lambda>_. stored_open), gzr_ReadLimit = stored_read\<rparr>"

lemma inflate_block:
  assumes "length xs \<le> 65535"
  shows "inflate acc (stored_block final xs @ rest) =
    (if \<not> final then inflate (acc @ xs) rest
     else if take 8 rest = stored_trailer (acc @ xs) then (acc @ xs, None)
     else (acc @ xs, Some (ErrLib ''gzip: invalid checksum'')))"
proof -
  have "length xs div 256 < 256" using assms by simp
  then have "unat (word_of_nat (length xs div 256) :: byte) * 256 + unat (word_of_nat (length xs mod 256) :: byte) = length xs"
    by (simp add: unat_byte)
  then show ?thesis by (simp add: stored_block_def Let_def)
qed

lemma inflate_blocks:
  "inflate acc (stored_blocks xs @ stored_trailer (acc @ xs)) = (acc @ xs, None)"
proof (induction xs arbitrary: acc rule: stored_blocks.induct)
  case (1 xs)
  show ?case
  proof (cases "length xs \<le> 65535")
    case True
    then show ?thesis
      by (simp add: stored_blocks.simps [of xs] inflate_block)
         (simp add: stored_trailer_def)
  next
    case False
    then show ?thesis
      using "1.IH" [OF False, of "acc @ take 65535 xs"]
      by (simp add: stored_blocks.simps [of xs] inflate_block)
  qed
qed

interpretation stored: gzip_codec stored_gz
proof (unfold_locales, goal_cases)
  case (1 level x)
  then show ?case by (simp add: stored_gz_def)
next
  case (2 level x w out)
  then have "out = stored_encode x" by (auto simp: stored_gz_def split: if_splits)
  then show ?case
    using inflate_blocks [of "[]" x]
    by (auto simp: stored_gz_def stored_open_def stored_encode_def stored_header_def stored_read_def)
next
  case (3 level x w out)
  then have "out = stored_encode x" by (auto simp: stored_gz_def split: if_splits)
  then show ?case by (simp add: stored_encode_def stored_trailer_def wire)
next
  case (4 z b)
  show ?case by (simp add: stored_gz_def)
next
  case (5 r n)
  show ?case by (simp add: stored_gz_def stored_read_def case_prod_unfold Let_def) arith
qed

subsection \<open>Properties\<close>

text \<open>
  C34. Compressing a body of less than \<open>2^32\<close> bytes at any valid level succeeds, and decompressing the
  result gives the body back, whether the pool supplies a fresh reader or a used one.
\<close>

theorem gzip_roundtrip:
  assumes "gzip_codec gz" and "- 1 \<le> level" and "level \<le> 9" and "length x < 2 ^ 32"
  shows "\<exists>out. gzip_Compress gz level x = (out, None) \<and>
     (\<forall>pooled. gzip_Decompress gz pooled out = Some (x, int (length x), None))"
  using assms by (rule gzip_codec.compress_decompress)

theorem gzip_roundtrip_witness:
  "\<exists>out. gzip_Compress stored_gz 6 [1, 2, 3] = (out, None) \<and>
     (\<forall>pooled. gzip_Decompress stored_gz pooled out = Some ([1, 2, 3], 3, None))"
  using gzip_roundtrip [OF stored.gzip_codec_axioms, of 6 "[1, 2, 3]"] by simp

text \<open>
  C35. Decompressing any input returns, without a panic; the number of bytes reported is the length
  of the output, which is at most one more than the size the last four bytes of the input declare.
\<close>

theorem gzip_Decompress_bounded:
  assumes "gzip_codec gz"
  shows "\<exists>out n err size. gzip_Decompress gz pooled inp = Some (out, n, err) \<and> n = int (length out) \<and>
     DecompressSize inp = Some size \<and> int (length out) \<le> size + 1 \<and> size < 2 ^ 32"
proof -
  obtain size where s: "DecompressedSize inp = Some size" "- 1 \<le> size" "size < 2 ^ 32"
    using DecompressedSize_total by blast
  show ?thesis
  proof (cases "compressor_Decompress gz pooled inp")
    case (Inl e)
    with s show ?thesis by (simp add: gzip_Decompress_def DecompressSize_def)
  next
    case (Inr r)
    have "length (fst (gzr_ReadLimit gz r (size + 1))) \<le> nat (size + 1)"
      by (rule gzip_codec.limits [OF assms])
    with Inr s show ?thesis
      by (auto simp: gzip_Decompress_def DecompressSize_def bytes_MinRead_def split: prod.splits)
  qed
qed

theorem gzip_Decompress_bounded_witness:
  "\<exists>out n err size. gzip_Decompress stored_gz None [1, 2, 3, 4, 5] = Some (out, n, err) \<and>
     DecompressSize [1, 2, 3, 4, 5] = Some size \<and> int (length out) \<le> size + 1"
  using gzip_Decompress_bounded [OF stored.gzip_codec_axioms, of None "[1, 2, 3, 4, 5]"] by blast

end
