(* ===== verification/Stream_Reader.thy ===== *)
theory Stream_Reader
  imports Go_Errors
begin

text \<open>
  Reading packets from a byte stream.

  A step reader takes a state (the connection's context) and the bytes received so far; it returns the
  new state, the bytes it left, a packet, whether the packet is complete, and an error.  This is the
  signature of \<open>Protocol.Unpack\<close> over the bytes of the ring buffer.  The locale \<open>stream_reader\<close>
  states what the read loop of a connection relies on: a complete packet is progress, more bytes behind
  what a step has already consumed do not change what it returned, and a step that waits resumes where it stopped.

  \<open>drain\<close> is the loop of \<open>tcpConn.readPacket\<close> on byte lists: it calls the step until it waits or fails.
  It is a partial function; that it returns is part of the contract's consequences (\<open>drain_returns\<close>).  \<open>feed\<close>
  gives the loop one chunk after the other.  The main consequence is that the packets delivered do not
  depend on how the stream was split (\<open>feed_concat\<close>).
\<close>

type_synonym ('s, 'p) reader = "'s \<Rightarrow> bytes \<Rightarrow> 's \<times> bytes \<times> 'p option \<times> bool \<times> error option"

partial_function (option) drain ::
    "('s, 'p) reader \<Rightarrow> 's \<Rightarrow> bytes \<Rightarrow> ('s \<times> bytes \<times> 'p option list \<times> error option) option" where
  "drain step s c =
     (case step s c of (s', c', p, done, err) \<Rightarrow>
        if err \<noteq> None \<or> \<not> done then Some (s', c', [], err)
        else do {
          (s'', c'', ps, e) \<leftarrow> drain step s' c';
          Some (s'', c'', p # ps, e) })"

fun feed :: "('s, 'p) reader \<Rightarrow> 's \<Rightarrow> bytes \<Rightarrow> bytes list \<Rightarrow> ('s \<times> bytes \<times> 'p option list \<times> error option) option" where
  "feed step s c [] = Some (s, c, [], None)"
| "feed step s c (d # ds) = do {
     (s', c', ps, e) \<leftarrow> drain step s (c @ d);
     if e \<noteq> None then Some (s', c', ps, e)
     else do {
       (s'', c'', qs, e') \<leftarrow> feed step s' c' ds;
       Some (s'', c'', ps @ qs, e') } }"

lemma drain_stop:
  "step s c = (s', c', p, done, err) \<Longrightarrow> err \<noteq> None \<or> \<not> done \<Longrightarrow> drain step s c = Some (s', c', [], err)"
  by (simp add: drain.simps)

lemma drain_done:
  "step s c = (s', c', p, True, None) \<Longrightarrow>
   drain step s c = map_option (\<lambda>(s'', c'', ps, e). (s'', c'', p # ps, e)) (drain step s' c')"
  by (subst drain.simps) (cases "drain step s' c'"; auto)

locale stream_reader =
  fixes step :: "('s, 'p) reader" and pending :: "'s \<Rightarrow> nat"
  assumes progress: "step s c = (s', c', p, True, None) \<Longrightarrow> length c' + pending s' < length c + pending s"
    and complete: "step s c = (s', c', p, True, err) \<Longrightarrow> p \<noteq> None \<and> err = None"
    and done_more: "step s c = (s', c', p, True, None) \<Longrightarrow> step s (c @ d) = (s', c' @ d, p, True, None)"
    and fail_more: "step s c = (s', c', p, done, Some e) \<Longrightarrow> step s (c @ d) = (s', c' @ d, p, done, Some e)"
    and wait_more: "step s c = (s', c', p, False, None) \<Longrightarrow> step s (c @ d) = step s' (c' @ d)"
begin

lemma drain_returns: "\<exists>s' c' ps e. drain step s c = Some (s', c', ps, e)"
proof (induction "length c + pending s" arbitrary: s c rule: less_induct)
  case less
  obtain s' c' p dn err where st: "step s c = (s', c', p, dn, err)" by (metis prod_cases5)
  show ?case
  proof (cases "err \<noteq> None \<or> \<not> dn")
    case True
    then show ?thesis using drain_stop [of step, OF st] by simp
  next
    case False
    with st have st': "step s c = (s', c', p, True, None)" by simp
    obtain s2 c2 ps e where "drain step s' c' = Some (s2, c2, ps, e)"
      using less [OF progress [OF st']] by blast
    then show ?thesis using drain_done [of step, OF st'] by simp
  qed
qed

lemma drain_packets: "drain step s c = Some (s', c', ps, e) \<Longrightarrow> None \<notin> set ps"
proof (induction "length c + pending s" arbitrary: s c s' c' ps e rule: less_induct)
  case less
  obtain s1 c1 p dn err where st: "step s c = (s1, c1, p, dn, err)" by (metis prod_cases5)
  show ?case
  proof (cases "err \<noteq> None \<or> \<not> dn")
    case True
    then show ?thesis using drain_stop [of step, OF st] less.prems by simp
  next
    case False
    with st have st': "step s c = (s1, c1, p, True, None)" by simp
    obtain s2 c2 qs e2 where d: "drain step s1 c1 = Some (s2, c2, qs, e2)"
      using drain_returns by blast
    then have "ps = p # qs" using drain_done [of step, OF st'] less.prems by simp
    then show ?thesis using less.hyps [OF progress [OF st'] d] complete [OF st'] by auto
  qed
qed

lemma drain_append:
  assumes "drain step s c = Some (s', c', ps, None)"
  shows "drain step s (c @ d) = map_option (\<lambda>(s2, c2, qs, e). (s2, c2, ps @ qs, e)) (drain step s' (c' @ d))"
  using assms
proof (induction "length c + pending s" arbitrary: s c s' c' ps rule: less_induct)
  case less
  obtain s1 c1 p dn err where st: "step s c = (s1, c1, p, dn, err)" by (metis prod_cases5)
  show ?case
  proof (cases "err \<noteq> None \<or> \<not> dn")
    case True
    then have w: "s' = s1" "c' = c1" "ps = []" "err = None" "\<not> dn"
      using drain_stop [of step, OF st] less.prems by auto
    with st have "step s (c @ d) = step s1 (c1 @ d)" by (intro wait_more [of s c s1 c1 p]) simp
    then have "drain step s (c @ d) = drain step s1 (c1 @ d)"
      by (subst (1 2) drain.simps) simp
    then show ?thesis using w by (cases "drain step s1 (c1 @ d)") auto
  next
    case False
    with st have st': "step s c = (s1, c1, p, True, None)" by simp
    obtain s2 c2 qs e2 where d: "drain step s1 c1 = Some (s2, c2, qs, e2)"
      using drain_returns by blast
    then have e: "ps = p # qs" "s2 = s'" "c2 = c'" "e2 = None"
      using drain_done [of step, OF st'] less.prems by auto
    have "drain step s (c @ d) = map_option (\<lambda>(s'', c'', ps, e). (s'', c'', p # ps, e)) (drain step s1 (c1 @ d))"
      by (rule drain_done [of step, OF done_more [OF st']])
    also have "drain step s1 (c1 @ d) =
        map_option (\<lambda>(s2, c2, rs, e). (s2, c2, qs @ rs, e)) (drain step s' (c' @ d))"
      using less.hyps [OF progress [OF st'], of s' c' qs] d e by simp
    finally show ?thesis
      using e(1) by (cases "drain step s' (c' @ d)") auto
  qed
qed

lemma drain_append_fail:
  assumes "drain step s c = Some (s', c', ps, Some e)"
  shows "drain step s (c @ d) = Some (s', c' @ d, ps, Some e)"
  using assms
proof (induction "length c + pending s" arbitrary: s c ps rule: less_induct)
  case less
  obtain s1 c1 p dn err where st: "step s c = (s1, c1, p, dn, err)" by (metis prod_cases5)
  show ?case
  proof (cases "err \<noteq> None \<or> \<not> dn")
    case True
    then have w: "s' = s1" "c' = c1" "ps = []" "err = Some e"
      using drain_stop [of step, OF st] less.prems by auto
    with st have "step s (c @ d) = (s1, c1 @ d, p, dn, Some e)" by (intro fail_more) simp
    then show ?thesis using w drain_stop [of step s "c @ d"] by simp
  next
    case False
    with st have st': "step s c = (s1, c1, p, True, None)" by simp
    obtain s2 c2 qs e2 where d: "drain step s1 c1 = Some (s2, c2, qs, e2)"
      using drain_returns by blast
    then have e: "ps = p # qs" "s2 = s'" "c2 = c'" "e2 = Some e"
      using drain_done [of step, OF st'] less.prems by auto
    then show ?thesis
      using drain_done [of step, OF done_more [OF st', of d]] less.hyps [OF progress [OF st'], of qs] d by simp
  qed
qed

text \<open>A run of complete frames in front of the rest.\<close>

lemma drain_frames:
  assumes "\<And>f q rest. (f, q) \<in> set fqs \<Longrightarrow> step s (f @ rest) = (s, rest, Some q, True, None)"
    and "drain step s rest = Some (s', c', ps, e)"
  shows "drain step s (concat (map fst fqs) @ rest) = Some (s', c', map (Some \<circ> snd) fqs @ ps, e)"
  using assms(1)
proof (induction fqs)
  case (Cons x fqs)
  have "step s (fst x @ concat (map fst fqs) @ rest) = (s, concat (map fst fqs) @ rest, Some (snd x), True, None)"
    using Cons.prems [of "fst x" "snd x"] by simp
  from drain_done [of step, OF this] Cons show ?case by simp
qed (use assms(2) in simp)

text \<open>Chunk by chunk or all at once: the same packets, state, error; and without an error the same rest.\<close>

lemma feed_returns: "\<exists>s' c' ps e. feed step s c ds = Some (s', c', ps, e)"
proof (induction ds arbitrary: s c)
  case (Cons d ds)
  obtain s1 c1 ps e where d: "drain step s (c @ d) = Some (s1, c1, ps, e)" using drain_returns by blast
  obtain s2 c2 qs e2 where "feed step s1 c1 ds = Some (s2, c2, qs, e2)" using Cons.IH by blast
  with d show ?case by simp
qed simp

lemma feed_concat:
  assumes "feed step s c (d # ds) = Some (s', c', ps, e)"
  shows "\<exists>c''. drain step s (c @ concat (d # ds)) = Some (s', c'', ps, e) \<and> (e = None \<longrightarrow> c'' = c')"
  using assms
proof (induction ds arbitrary: s c d s' c' ps e)
  case Nil
  obtain s1 c1 qs e1 where "drain step s (c @ d) = Some (s1, c1, qs, e1)" using drain_returns by blast
  with Nil show ?case by (auto split: if_splits)
next
  case (Cons d2 ds)
  obtain s1 c1 qs e1 where dr: "drain step s (c @ d) = Some (s1, c1, qs, e1)" using drain_returns by blast
  show ?case
  proof (cases e1)
    case (Some x)
    with dr Cons.prems show ?thesis
      using drain_append_fail [of s "c @ d" s1 c1 qs x "d2 @ concat ds"] by auto
  next
    case None
    obtain s2 c2 rs e2 where f: "feed step s1 c1 (d2 # ds) = Some (s2, c2, rs, e2)"
      using feed_returns by blast
    from Cons.prems dr None f have r: "s2 = s'" "c2 = c'" "qs @ rs = ps" "e2 = e"
      by (auto simp del: feed.simps(2) simp: feed.simps(2) [of step s c d])
    show ?thesis
      using Cons.IH [OF f] drain_append [OF dr [unfolded None], of "concat (d2 # ds)"] r by fastforce
  qed
qed

end

end
