(* ===== verification/Frame_Reader.thy ===== *)
theory Frame_Reader
  imports Stream_Reader Protocol_Context
begin

text \<open>
  Readers of framed streams.

  Both protocol versions read a frame in two stages: a header, whose state survives in the context while
  bytes are missing, then a part of known size.  \<open>frame_step\<close> is that scheme.  The locale
  \<open>frame_reader\<close> is the contract of its parts (a header reader that can be resumed, a \<open>finish\<close> that
  looks at the announced bytes only); every frame reader is a \<open>stream_reader\<close>.
\<close>

definition frame_step ::
    "('h \<Rightarrow> bool) \<Rightarrow> 'h \<Rightarrow> ('h \<Rightarrow> bytes \<Rightarrow> 'h \<times> bytes \<times> bool \<times> error option) \<Rightarrow> ('h \<Rightarrow> nat)
     \<Rightarrow> ('h \<Rightarrow> ('h, 'i) Context \<Rightarrow> bytes \<Rightarrow> 'p \<times> nat \<times> error option) \<Rightarrow> (('h, 'i) Context, 'p) reader" where
  "frame_step unpacked zero hstep size' finish ctx c =
     (let h = (case ctx_Header ctx of None \<Rightarrow> zero | Some h \<Rightarrow> h);
          (h, c, ok, e) = (if unpacked h then (h, c, True, None) else hstep h c);
          off = ctx\<lparr>ctx_beginUnpack := True, ctx_Header := None\<rparr>;
          wait = ctx\<lparr>ctx_beginUnpack := True, ctx_Header := Some h\<rparr>
      in case e of
        Some e \<Rightarrow> (off, c, None, False, Some e)
      | None \<Rightarrow>
          if \<not> ok \<or> length c < size' h then (wait, c, None, False, None)
          else (case finish h ctx (take (size' h) c) of
                  (p, k, Some e) \<Rightarrow> (off, drop k c, Some p, False, Some e)
                | (p, _, None) \<Rightarrow> (off\<lparr>ctx_beginUnpack := False\<rparr>, drop (size' h) c, Some p, True, None)))"

definition ctx_pending :: "('h, 'i) Context \<Rightarrow> nat" where
  "ctx_pending ctx = (if ctx_Header ctx = None then 0 else 1)"

locale frame_reader =
  fixes unpacked :: "'h \<Rightarrow> bool" and zero :: 'h
    and hstep :: "'h \<Rightarrow> bytes \<Rightarrow> 'h \<times> bytes \<times> bool \<times> error option"
    and size' :: "'h \<Rightarrow> nat"
    and finish :: "'h \<Rightarrow> ('h, 'i) Context \<Rightarrow> bytes \<Rightarrow> 'p \<times> nat \<times> error option"
  assumes zero: "\<not> unpacked zero"
    and header_done: "\<not> unpacked h \<Longrightarrow> hstep h c = (h', c', True, er) \<Longrightarrow>
          er = None \<and> unpacked h' \<and> length c' < length c \<and> hstep h (c @ d) = (h', c' @ d, True, None)"
    and header_fail: "\<not> unpacked h \<Longrightarrow> hstep h c = (h', c', ok, Some e) \<Longrightarrow> hstep h (c @ d) = (h', c' @ d, ok, Some e)"
    and header_wait: "\<not> unpacked h \<Longrightarrow> hstep h c = (h', c', False, None) \<Longrightarrow>
          \<not> unpacked h' \<and> hstep h (c @ d) = hstep h' (c' @ d)"
    and header_prefix: "\<not> unpacked h \<Longrightarrow> hstep h c = (h', c', ok, er) \<Longrightarrow> \<exists>k. c' = drop k c"
    and finish_ctx: "finish h (ctx\<lparr>ctx_beginUnpack := b, ctx_Header := x\<rparr>) bs = finish h ctx bs"
    and finish_le: "finish h ctx bs = (p, k, er) \<Longrightarrow> k \<le> size' h"
begin

definition head :: "('h, 'i) Context \<Rightarrow> bytes \<Rightarrow> 'h \<times> bytes \<times> bool \<times> error option" where
  "head ctx c = (let h = (case ctx_Header ctx of None \<Rightarrow> zero | Some h \<Rightarrow> h) in
     if unpacked h then (h, c, True, None) else hstep h c)"

lemma step_head:
  "head ctx c = (h, c1, ok, e) \<Longrightarrow>
   frame_step unpacked zero hstep size' finish ctx c =
     (let off = ctx\<lparr>ctx_beginUnpack := True, ctx_Header := None\<rparr>;
          wait = ctx\<lparr>ctx_beginUnpack := True, ctx_Header := Some h\<rparr>
      in case e of
        Some e \<Rightarrow> (off, c1, None, False, Some e)
      | None \<Rightarrow>
          if \<not> ok \<or> length c1 < size' h then (wait, c1, None, False, None)
          else (case finish h ctx (take (size' h) c1) of
                  (p, k, Some e) \<Rightarrow> (off, drop k c1, Some p, False, Some e)
                | (p, _, None) \<Rightarrow> (off\<lparr>ctx_beginUnpack := False\<rparr>, drop (size' h) c1, Some p, True, None)))"
  unfolding head_def frame_step_def Let_def by (simp only: case_prod_conv)

lemma head_ok:
  assumes "head ctx c = (h, c1, True, e)"
  shows "e = None" "unpacked h" "length c1 + (if ctx_Header ctx = None then 1 else 0) \<le> length c"
    "head ctx (c @ d) = (h, c1 @ d, True, None)"
    "head (ctx\<lparr>ctx_beginUnpack := b, ctx_Header := Some h\<rparr>) (c1 @ d) = (h, c1 @ d, True, None)"
proof -
  define h0 where "h0 = (case ctx_Header ctx of None \<Rightarrow> zero | Some h \<Rightarrow> h)"
  have *: "(if unpacked h0 then (h0, c, True, None) else hstep h0 c) = (h, c1, True, e)"
    using assms unfolding head_def h0_def Let_def .
  have **: "e = None \<and> unpacked h \<and> length c1 + (if ctx_Header ctx = None then 1 else 0) \<le> length c \<and>
      head ctx (c @ d) = (h, c1 @ d, True, None)"
  proof (cases "unpacked h0")
    case True
    with zero have "ctx_Header ctx \<noteq> None" by (auto simp: h0_def split: option.splits)
    with * True show ?thesis by (auto simp: head_def h0_def [symmetric])
  next
    case False
    with * header_done [OF False, of c h c1 e d] show ?thesis by (auto simp: head_def h0_def [symmetric] Suc_le_eq)
  qed
  then show "e = None" "unpacked h" "length c1 + (if ctx_Header ctx = None then 1 else 0) \<le> length c"
    "head ctx (c @ d) = (h, c1 @ d, True, None)" by simp_all
  then show "head (ctx\<lparr>ctx_beginUnpack := b, ctx_Header := Some h\<rparr>) (c1 @ d) = (h, c1 @ d, True, None)"
    by (simp add: head_def)
qed

lemma head_fail: "head ctx c = (h, c1, ok, Some e) \<Longrightarrow> head ctx (c @ d) = (h, c1 @ d, ok, Some e)"
  using header_fail by (auto simp: head_def Let_def split: if_splits)

lemma head_wait:
  "head ctx c = (h, c1, False, None) \<Longrightarrow>
   head ctx (c @ d) = head (ctx\<lparr>ctx_beginUnpack := b, ctx_Header := Some h\<rparr>) (c1 @ d)"
  using header_wait by (auto simp: head_def Let_def split: if_splits)

lemma frame_step_done:
  assumes "frame_step unpacked zero hstep size' finish ctx c = (ctx', c', p, True, err)"
  obtains h c1 pk k where "head ctx c = (h, c1, True, None)" "size' h \<le> length c1"
    "finish h ctx (take (size' h) c1) = (pk, k, None)" "p = Some pk" "c' = drop (size' h) c1" "err = None"
    "ctx' = ctx\<lparr>ctx_beginUnpack := False, ctx_Header := None\<rparr>"
proof -
  obtain h c1 ok e where hd: "head ctx c = (h, c1, ok, e)" by (metis prod_cases4)
  obtain pk k fe where f: "finish h ctx (take (size' h) c1) = (pk, k, fe)" by (metis prod_cases3)
  show thesis
    using assms hd f unfolding step_head [OF hd]
    by (cases e; cases fe) (auto simp: Let_def split: if_splits intro: that)
qed

lemma frame_step_wait:
  assumes "frame_step unpacked zero hstep size' finish ctx c = (ctx', c', p, False, None)"
  obtains h ok where "head ctx c = (h, c', ok, None)" "\<not> ok \<or> length c' < size' h"
    "ctx' = ctx\<lparr>ctx_beginUnpack := True, ctx_Header := Some h\<rparr>"
proof -
  obtain h c1 ok e where hd: "head ctx c = (h, c1, ok, e)" by (metis prod_cases4)
  obtain pk k fe where f: "finish h ctx (take (size' h) c1) = (pk, k, fe)" by (metis prod_cases3)
  show thesis
    using assms hd f unfolding step_head [OF hd]
    by (cases e; cases fe) (auto simp: Let_def split: if_splits intro: that)
qed

lemma head_prefix: "head ctx c = (h, c1, ok, e) \<Longrightarrow> \<exists>k. c1 = drop k c"
  using header_prefix by (auto simp: head_def Let_def split: if_splits intro: exI [of _ 0])

lemma frame_step_result:
  assumes "frame_step unpacked zero hstep size' finish ctx c = (ctx', c', p, dn, err)"
  shows "(\<exists>k. c' = drop k c) \<and> ctx' = ctx\<lparr>ctx_beginUnpack := ctx_beginUnpack ctx', ctx_Header := ctx_Header ctx'\<rparr> \<and>
    (ctx_Header ctx' = None \<longleftrightarrow> dn \<or> err \<noteq> None) \<and> \<not> (dn \<and> (p = None \<or> err \<noteq> None))"
proof -
  obtain h c1 ok e where hd: "head ctx c = (h, c1, ok, e)" by (metis prod_cases4)
  obtain pk j fe where f: "finish h ctx (take (size' h) c1) = (pk, j, fe)" by (metis prod_cases3)
  obtain k where k: "c1 = drop k c" using head_prefix [OF hd] by blast
  show ?thesis
    using assms f unfolding step_head [OF hd]
    by (cases e; cases fe; cases "ok \<and> \<not> length c1 < size' h") (auto simp: Let_def k)
qed

lemma frame_step_fail:
  assumes "frame_step unpacked zero hstep size' finish ctx c = (ctx', c', p, dn, Some e)"
  shows "frame_step unpacked zero hstep size' finish ctx (c @ d) = (ctx', c' @ d, p, dn, Some e)"
proof -
  obtain h c1 ok e1 where hd: "head ctx c = (h, c1, ok, e1)" by (metis prod_cases4)
  obtain pk k fe where f: "finish h ctx (take (size' h) c1) = (pk, k, fe)" by (metis prod_cases3)
  have k: "k \<le> size' h" by (rule finish_le [OF f])
  show ?thesis
  proof (cases e1)
    case (Some x)
    then show ?thesis
      using assms hd unfolding step_head [OF hd] step_head [OF head_fail [OF hd [unfolded Some]]]
      by (simp add: Let_def)
  next
    case None
    have go: "ok" "\<not> length c1 < size' h" "fe = Some e" "dn = False" "p = Some pk" "c' = drop k c1"
      "ctx' = ctx\<lparr>ctx_beginUnpack := True, ctx_Header := None\<rparr>"
      using assms f None unfolding step_head [OF hd]
      by (cases fe; auto simp: Let_def split: if_splits)+
    have "head ctx (c @ d) = (h, c1 @ d, True, None)" using head_ok(4) [of ctx c h c1 None] hd go(1) None by simp
    from step_head [OF this] show ?thesis using go f k by (simp add: Let_def)
  qed
qed

lemma frame_step_resume:
  assumes "frame_step unpacked zero hstep size' finish ctx c = (ctx', c', p, False, None)"
  shows "frame_step unpacked zero hstep size' finish ctx (c @ d) =
         frame_step unpacked zero hstep size' finish ctx' (c' @ d)"
proof -
  obtain h ok where w: "head ctx c = (h, c', ok, None)"
    "ctx' = ctx\<lparr>ctx_beginUnpack := True, ctx_Header := Some h\<rparr>"
    using frame_step_wait [OF assms] by metis
  obtain h2 c2 ok2 e2 where h2: "head ctx (c @ d) = (h2, c2, ok2, e2)" by (metis prod_cases4)
  have h3: "head ctx' (c' @ d) = (h2, c2, ok2, e2)"
    using w head_ok(4) [of ctx c h c' None d] head_ok(5) [of ctx c h c' None True d] head_wait [of ctx c h c' d True] h2
    by (cases ok) auto
  have f: "finish h2 ctx' bs = finish h2 ctx bs" for bs by (simp only: w(2) finish_ctx)
  have u: "ctx'\<lparr>ctx_beginUnpack := True, ctx_Header := x\<rparr> = ctx\<lparr>ctx_beginUnpack := True, ctx_Header := x\<rparr>" for x
    by (simp add: w(2))
  show ?thesis unfolding step_head [OF h2] step_head [OF h3] f u ..
qed

end

sublocale frame_reader \<subseteq> stream_reader "frame_step unpacked zero hstep size' finish" ctx_pending
proof (unfold_locales, goal_cases)
  case (1 s c s' c' p)
  then obtain h c1 where "head s c = (h, c1, True, None)" "c' = drop (size' h) c1" "ctx_Header s' = None"
    by (auto elim: frame_step_done)
  then show ?case using head_ok(3) [of s c h c1 None] by (auto simp: ctx_pending_def)
next
  case (2 s c s' c' p err)
  then show ?case by (auto elim: frame_step_done)
next
  case (3 s c s' c' p d)
  then obtain h c1 pk k where x: "head s c = (h, c1, True, None)" "size' h \<le> length c1"
    "finish h s (take (size' h) c1) = (pk, k, None)" "p = Some pk" "c' = drop (size' h) c1"
    "s' = s\<lparr>ctx_beginUnpack := False, ctx_Header := None\<rparr>"
    by (rule frame_step_done)
  from step_head [OF head_ok(4) [OF x(1), of d]] x show ?case by (simp add: Let_def)
next
  case (4 s c s' c' p dn e d)
  then show ?case by (rule frame_step_fail)
next
  case (5 s c s' c' p d)
  then show ?case by (rule frame_step_resume)
qed

end
