(* ===== verification/V1.thy ===== *)
theory V1
  imports V1_Header Gzip Frame_Reader
begin

text \<open>
  Protocol version 1 (\<open>go/v1/v1.go\<close>): whole frames.

  \<open>UnpackBytes\<close> reads one frame from a byte slice (a WebSocket message), \<open>Unpack\<close> reads from a ring
  buffer (a TCP stream) and may be called again when more bytes have arrived; the header of a half-read
  frame stays in the context in between.  Go's deferred function is the local function \<open>ret\<close>.  The arguments
  \<open>pooled\<close> and \<open>zr\<close> are the objects that the header pool and the gzip reader pool
  hand out.  \<open>Pack\<close> compresses in place, so it returns the packet it has changed
  next to the frame.

  The lemmas reduce the three operations to the frame layout.  The properties: no input makes the
  readers panic, a packed packet is read back by both readers, the two readers agree, and the
  stream reader's result does not depend on how the bytes were split.
\<close>

definition NonceLength :: nat where "NonceLength = 8"
definition SignatureLength :: nat where "SignatureLength = 16"

definition protocolV1_Version :: "8 word" where "protocolV1_Version = 1"

definition protocolV1_UnpackBytes ::
    "('w, 'r) gz_lib \<Rightarrow> 'r option \<Rightarrow> Header \<Rightarrow> (Header, 'i) Context \<Rightarrow> bytes
     \<Rightarrow> ((Header, 'i) Context \<times> Packet option \<times> error option) go" where
  "protocolV1_UnpackBytes gz zr pooled ctx bs = do {
     let ctx = BeginUnpack ctx;
     let (ctx, header) = v1_headerFromContext pooled ctx;
     let ret = (\<lambda>ctx packet err. Some (SetHeader ctx None, packet, err));
     (header, r) \<leftarrow> v1_Header_UnpackBytes header bs;
     (case r of
        Inl e \<Rightarrow> ret ctx None (Some e)
      | Inr data \<Rightarrow>
          if length data < unat (h_BodyLength header) then ret ctx None (Some ErrInvalidFrame)
          else do {
            body \<leftarrow> slice data 0 (unat (h_BodyLength header));
            let md = Header_Metadata header ctx;
            v \<leftarrow> (if h_Verify header = 1 then
                    let i = unat (h_BodyLength header) in
                    if length data < i + NonceLength + SignatureLength then Some (Inl ErrInvalidFrame)
                    else do {
                      s \<leftarrow> slice data i (i + NonceLength);
                      nonce \<leftarrow> be_Uint64 s;
                      signature \<leftarrow> slice_from data (i + NonceLength);
                      Some (Inr (md\<lparr>md_Nonce := nonce, md_Signature := signature\<rparr>)) }
                  else Some (Inr md));
            (case v of
               Inl e \<Rightarrow> ret ctx (Some \<lparr>pk_Metadata = Some md, pk_Body = body\<rparr>) (Some e)
             | Inr md \<Rightarrow>
                 if h_Gzip header = 1 then do {
                   (body, _, err) \<leftarrow> gzip_Decompress gz zr body;
                   (case err of
                      Some e \<Rightarrow> ret ctx (Some \<lparr>pk_Metadata = Some md, pk_Body = body\<rparr>) (Some e)
                    | None \<Rightarrow> ret (EndUnpack ctx) (Some \<lparr>pk_Metadata = Some md, pk_Body = body\<rparr>) None) }
                 else ret (EndUnpack ctx) (Some \<lparr>pk_Metadata = Some md, pk_Body = body\<rparr>) None) }) }"

text \<open>\<open>buf.Read\<close> into a fresh slice of \<open>n\<close> bytes.\<close>

definition read_full :: "'b rb_ops \<Rightarrow> 'b \<Rightarrow> nat \<Rightarrow> 'b \<times> bytes \<times> error option" where
  "read_full rb buf n =
     (let (buf, d, err) = rb_Read rb buf n in (buf, d @ replicate (n - length d) 0, err))"

definition protocolV1_Unpack ::
    "'b rb_ops \<Rightarrow> ('w, 'r) gz_lib \<Rightarrow> 'r option \<Rightarrow> Header \<Rightarrow> (Header, 'i) Context \<Rightarrow> 'b
     \<Rightarrow> ((Header, 'i) Context \<times> 'b \<times> Packet option \<times> bool \<times> error option) go" where
  "protocolV1_Unpack rb gz zr pooled ctx buf = do {
     let ctx = BeginUnpack ctx;
     let (ctx, header) = v1_headerFromContext pooled ctx;
     let ret = (\<lambda>ctx buf packet done err.
       Some (if done \<or> err \<noteq> None then SetHeader ctx None else ctx, buf, packet, done, err));
     (header, buf, ok, e) \<leftarrow>
       (if \<not> h_IsUnpacked header then v1_Header_Unpack rb header buf
        else Some (header, buf, True, None));
     let ctx = SetHeader ctx (Some header);
     (case e of
        Some e \<Rightarrow> ret ctx buf None False (Some e)
      | None \<Rightarrow>
          if \<not> ok then ret ctx buf None False None
          else do {
            let len = unat (h_BodyLength header);
            let len = (if h_Verify header = 1 then len + NonceLength + SignatureLength else len);
            (if rb_Length rb buf < len then ret ctx buf None False None
             else do {
               let (buf, body, err) = read_full rb buf (unat (h_BodyLength header));
               (case err of
                  Some e \<Rightarrow> ret ctx buf None False (Some e)
                | None \<Rightarrow> do {
                    let md = Header_Metadata header ctx;
                    let (buf, md, err) =
                      (if h_Verify header = 1 then
                         let md = md\<lparr>md_Nonce := rb_PeekUint64 rb buf\<rparr>;
                             buf = rb_Retrieve rb buf NonceLength;
                             (buf, s, err) = read_full rb buf SignatureLength
                         in (buf, if err = None then md\<lparr>md_Signature := s\<rparr> else md, err)
                       else (buf, md, None));
                    (case err of
                       Some e \<Rightarrow> ret ctx buf (Some \<lparr>pk_Metadata = Some md, pk_Body = body\<rparr>) False (Some e)
                     | None \<Rightarrow> do {
                         (body, err) \<leftarrow>
                           (if h_Gzip header = 1 then do {
                              (body, _, err) \<leftarrow> gzip_Decompress gz zr body;
                              Some (body, err) }
                            else Some (body, None));
                         (case err of
                            Some e \<Rightarrow> ret ctx buf (Some \<lparr>pk_Metadata = Some md, pk_Body = body\<rparr>) False (Some e)
                          | None \<Rightarrow>
                              ret (EndUnpack ctx) buf (Some \<lparr>pk_Metadata = Some md, pk_Body = body\<rparr>) True None) }) }) }) }) }"

definition protocolV1_Pack ::
    "('w, 'r) gz_lib \<Rightarrow> int \<Rightarrow> Header \<Rightarrow> Packet \<Rightarrow> PackOption list
     \<Rightarrow> (Packet \<times> (error + bytes)) go" where
  "protocolV1_Pack gz level pooled packet opts = do {
     let o' = NewPackOptions opts;
     let bl = length (pk_Body packet);
     (packet, bl, err) \<leftarrow>
       (if MinGzipSize o' \<noteq> 0 \<and> int bl \<ge> MinGzipSize o' then
          let (body, err) = gzip_Compress gz level (pk_Body packet);
              packet = packet\<lparr>pk_Body := body\<rparr>
          in (case err of
                Some e \<Rightarrow> Some (packet, bl, Some e)
              | None \<Rightarrow> do {
                  md \<leftarrow> pk_Metadata packet;
                  Some (packet\<lparr>pk_Metadata := Some (md\<lparr>md_Gzip := True\<rparr>)\<rparr>, length body, None) })
        else Some (packet, bl, None));
     (case err of
        Some e \<Rightarrow> Some (packet, Inl e)
      | None \<Rightarrow>
          if bl > MaxBodyLength then Some (packet, Inl ErrBodyLenHitLimit)
          else do {
            md \<leftarrow> pk_Metadata packet;
            let h = v1_headerFromMetadata pooled md;
            let h = h\<lparr>h_BodyLength := word_of_nat bl\<rparr>;
            r \<leftarrow> v1_Header_Pack h;
            (case r of
               Inl e \<Rightarrow> Some (packet, Inl e)
             | Inr hd' \<Rightarrow> do {
                 let hl = (if h_Type h = v1_RequestPacket then v1_RequestHeaderLen
                           else if h_Type h = v1_ResponsePacket then v1_ResponseHeaderLen
                           else if h_Type h = v1_PushPacket then v1_PushHeaderLen
                           else 0);
                 let l = hl + bl;
                 let l = (if md_Verify md then l + NonceLength + SignatureLength else l);
                 let data = replicate l 0;
                 data \<leftarrow> copy_at data 0 hd';
                 data \<leftarrow> copy_at data (length hd') (pk_Body packet);
                 data \<leftarrow>
                   (if md_Verify md then do {
                      data \<leftarrow> put_at data (hl + bl) (be_PutUint64 (md_Nonce md));
                      copy_at data (hl + bl + NonceLength) (md_Signature md) }
                    else Some data);
                 Some (packet, Inr data) }) }) }"

subsection \<open>Frames as byte lists\<close>

definition gunzip :: "('w, 'r) gz_lib \<Rightarrow> 'r option \<Rightarrow> bytes \<Rightarrow> bytes \<times> error option" where
  "gunzip gz zr b = (case gzip_Decompress gz zr b of None \<Rightarrow> ([], None) | Some (out, _, err) \<Rightarrow> (out, err))"

text \<open>What follows the header: the body, then nonce and signature when the frame is signed.\<close>

definition finish_packet ::
    "('w, 'r) gz_lib \<Rightarrow> 'r option \<Rightarrow> 'a Header_scheme \<Rightarrow> Metadata \<Rightarrow> bytes \<Rightarrow> bytes \<Rightarrow> Packet \<times> error option" where
  "finish_packet gz zr h md body tl' =
     (let md = (if h_Verify h = 1 then md\<lparr>md_Nonce := dec64 (take 8 tl'), md_Signature := drop 8 tl'\<rparr> else md);
          (body, err) = (if h_Gzip h = 1 then gunzip gz zr body else (body, None))
      in (\<lparr>pk_Metadata = Some md, pk_Body = body\<rparr>, err))"

definition tail_len :: "'a Header_scheme \<Rightarrow> nat" where
  "tail_len h = (if h_Verify h = 1 then 24 else 0)"

definition current_header :: "(Header, 'i) Context \<Rightarrow> Header" where
  "current_header ctx = (case ctx_Header ctx of None \<Rightarrow> Header_zero | Some h \<Rightarrow> h)"

definition v1_bytes_spec ::
    "('w, 'r) gz_lib \<Rightarrow> 'r option \<Rightarrow> (Header, 'i) Context \<Rightarrow> bytes
     \<Rightarrow> (Header, 'i) Context \<times> Packet option \<times> error option" where
  "v1_bytes_spec gz zr ctx bs =
     (let ctx' = ctx\<lparr>ctx_beginUnpack := True, ctx_Header := None\<rparr> in
      case the (v1_Header_UnpackBytes (current_header ctx) bs) of
        (h, Inl e) \<Rightarrow> (ctx', None, Some e)
      | (h, Inr data) \<Rightarrow>
          let n = unat (h_BodyLength h); md = Header_Metadata h ctx in
          if length data < n then (ctx', None, Some ErrInvalidFrame)
          else if length data < n + tail_len h
          then (ctx', Some \<lparr>pk_Metadata = Some md, pk_Body = take n data\<rparr>, Some ErrInvalidFrame)
          else (case finish_packet gz zr h md (take n data) (drop n data) of
                  (p, Some e) \<Rightarrow> (ctx', Some p, Some e)
                | (p, None) \<Rightarrow> (ctx'\<lparr>ctx_beginUnpack := False\<rparr>, Some p, None)))"


lemma gzip_Decompress_gunzip: "\<exists>n. gzip_Decompress gz zr b = Some (fst (gunzip gz zr b), n, snd (gunzip gz zr b))"
  using gzip_Decompress_total [of gz zr b] by (auto simp: gunzip_def)

lemma Header_Metadata_ctx [simp]:
  "Header_Metadata h (BeginUnpack ctx) = Header_Metadata h ctx"
  "Header_Metadata h (SetHeader ctx x) = Header_Metadata h ctx"
  "Header_Metadata h (ctx\<lparr>ctx_beginUnpack := b\<rparr>) = Header_Metadata h ctx"
  "Header_Metadata h (ctx\<lparr>ctx_Header := x\<rparr>) = Header_Metadata h ctx"
  by (simp_all add: Header_Metadata_def BeginUnpack_def SetHeader_def)

lemma v1_headerFromContext_eq:
  "v1_headerFromContext pooled (BeginUnpack ctx) =
     (SetHeader (BeginUnpack ctx) (Some (current_header ctx)), current_header ctx)"
  by (cases ctx) (auto simp: v1_headerFromContext_def current_header_def unpack_ctx_defs split: option.splits)

lemma v1_Header_UnpackBytes_total: "\<exists>h' r. v1_Header_UnpackBytes h bs = Some (h', r)"
  by (simp add: v1_Header_UnpackBytes_eq)

lemma protocolV1_UnpackBytes_eq:
  "protocolV1_UnpackBytes gz zr pooled ctx bs = Some (v1_bytes_spec gz zr ctx bs)"
proof -
  obtain h r where u: "v1_Header_UnpackBytes (current_header ctx) bs = Some (h, r)"
    using v1_Header_UnpackBytes_total by blast
  obtain k where g: "gzip_Decompress gz zr (take (unat (h_BodyLength h)) (projr r)) =
      Some (fst (gunzip gz zr (take (unat (h_BodyLength h)) (projr r))), k,
            snd (gunzip gz zr (take (unat (h_BodyLength h)) (projr r))))"
    using gzip_Decompress_gunzip by blast
  show ?thesis
  proof (cases r)
    case (Inl e)
    with u show ?thesis
      unfolding protocolV1_UnpackBytes_def Let_def v1_headerFromContext_eq case_prod_conv u
      by (simp add: v1_bytes_spec_def unpack_ctx_defs u Let_def)
  next
    case (Inr data)
    define n where "n = unat (h_BodyLength h)"
    have g': "gzip_Decompress gz zr (take n data) =
        Some (fst (gunzip gz zr (take n data)), k, snd (gunzip gz zr (take n data)))"
      using g Inr by (simp add: n_def)
    note unf = protocolV1_UnpackBytes_def Let_def v1_headerFromContext_eq case_prod_conv u bind.bind_lunit Inr
      sum.case n_def [symmetric]
    note defs = v1_bytes_spec_def u Inr Let_def unpack_ctx_defs n_def [symmetric] tail_len_def
      NonceLength_def SignatureLength_def
    consider "length data < n" | "n \<le> length data" "h_Verify h = 1" "length data < n + 24"
      | "n + 24 \<le> length data" "h_Verify h = 1" | "n \<le> length data" "h_Verify h \<noteq> 1"
      by linarith
    then show ?thesis
    proof cases
      case 1
      then show ?thesis unfolding unf by (simp add: defs)
    next
      case 2
      then show ?thesis unfolding unf by (simp add: defs slice_def)
    next
      case 3
      have "slice data 0 n = Some (take n data)"
        "slice data n (n + NonceLength) = Some (take 8 (drop n data))"
        "be_Uint64 (take 8 (drop n data)) = Some (dec64 (take 8 (drop n data)))"
        "slice_from data (n + NonceLength) = Some (drop 8 (drop n data))"
        using 3(1) by (simp_all add: slice_def slice_from_def NonceLength_def be_Uint_dec add.commute)
      note s = this
      have l: "\<not> length data < n" "\<not> length data < n + NonceLength + SignatureLength"
        "\<not> length data < n + tail_len h"
        using 3(1) by (simp_all add: NonceLength_def SignatureLength_def tail_len_def)
      show ?thesis
        unfolding unf v1_bytes_spec_def option.sel s
        by (cases "h_Gzip h = 1"; cases "snd (gunzip gz zr (take n data))")
           (simp_all add: l 3(2) s g' unpack_ctx_defs finish_packet_def case_prod_unfold)
    next
      case 4
      have "slice data 0 n = Some (take n data)" using 4 by (simp add: slice_def)
      note s = this
      have l: "\<not> length data < n" "\<not> length data < n + tail_len h"
        using 4 by (simp_all add: tail_len_def)
      show ?thesis
        unfolding unf v1_bytes_spec_def option.sel s
        by (cases "h_Gzip h = 1"; cases "snd (gunzip gz zr (take n data))")
           (simp_all add: l 4(2) g' unpack_ctx_defs finish_packet_def case_prod_unfold)
    qed
  qed
qed

subsection \<open>The stream reader on the bytes of its buffer\<close>

definition v1_step ::
    "('w, 'r) gz_lib \<Rightarrow> 'r option \<Rightarrow> (Header, 'i) Context \<Rightarrow> bytes
     \<Rightarrow> (Header, 'i) Context \<times> bytes \<times> Packet option \<times> bool \<times> error option" where
  "v1_step gz zr ctx c =
     (let h = current_header ctx;
          (h, c, ok, e) = (if h_IsUnpacked h then (h, c, True, None) else v1_header_step h c);
          off = ctx\<lparr>ctx_beginUnpack := True, ctx_Header := None\<rparr>;
          wait = ctx\<lparr>ctx_beginUnpack := True, ctx_Header := Some h\<rparr>;
          n = unat (h_BodyLength h);
          m = n + tail_len h
      in case e of
        Some e \<Rightarrow> (off, c, None, False, Some e)
      | None \<Rightarrow>
          if \<not> ok \<or> length c < m then (wait, c, None, False, None)
          else (case finish_packet gz zr h (Header_Metadata h ctx) (take n c) (drop n (take m c)) of
                  (p, Some e) \<Rightarrow> (off, drop m c, Some p, False, Some e)
                | (p, None) \<Rightarrow> (off\<lparr>ctx_beginUnpack := False\<rparr>, drop m c, Some p, True, None)))"

context ring_reader
begin

lemma read_full_spec:
  assumes "inv b" and "n \<le> length (content b)"
  shows "\<exists>b'. read_full rb b n = (b', take n (content b), None) \<and> inv b' \<and> content b' = drop n (content b)"
  using Read [OF assms] assms(2) by (auto simp: read_full_def)

lemma protocolV1_Unpack_refines:
  assumes "inv buf" and "v1_step gz zr ctx (content buf) = (ctx', c', p, done, err)"
  shows "\<exists>buf'. protocolV1_Unpack rb gz zr pooled ctx buf = Some (ctx', buf', p, done, err) \<and>
           inv buf' \<and> content buf' = c'"
proof -
  obtain h c ok e where hs: "(if h_IsUnpacked (current_header ctx) then (current_header ctx, content buf, True, None)
      else v1_header_step (current_header ctx) (content buf)) = (h, c, ok, e)"
    by (metis prod_cases4)
  obtain b1 where b1: "(if \<not> h_IsUnpacked (current_header ctx) then v1_Header_Unpack rb (current_header ctx) buf
      else Some (current_header ctx, buf, True, None)) = Some (h, b1, ok, e)" "inv b1" "content b1 = c"
    using v1_Header_Unpack_refines [OF assms(1), of "current_header ctx"] hs assms(1)
    by (cases "h_IsUnpacked (current_header ctx)") auto
  have st: "(case e of
        Some e \<Rightarrow> (ctx\<lparr>ctx_beginUnpack := True, ctx_Header := None\<rparr>, c, None, False, Some e)
      | None \<Rightarrow>
          if \<not> ok \<or> length c < unat (h_BodyLength h) + tail_len h
          then (ctx\<lparr>ctx_beginUnpack := True, ctx_Header := Some h\<rparr>, c, None, False, None)
          else (case finish_packet gz zr h (Header_Metadata h ctx) (take (unat (h_BodyLength h)) c)
                     (drop (unat (h_BodyLength h)) (take (unat (h_BodyLength h) + tail_len h) c)) of
                  (p, Some e) \<Rightarrow> (ctx\<lparr>ctx_beginUnpack := True, ctx_Header := None\<rparr>,
                     drop (unat (h_BodyLength h) + tail_len h) c, Some p, False, Some e)
                | (p, None) \<Rightarrow> (ctx\<lparr>ctx_beginUnpack := True, ctx_Header := None\<rparr>\<lparr>ctx_beginUnpack := False\<rparr>,
                     drop (unat (h_BodyLength h) + tail_len h) c, Some p, True, None)))
      = (ctx', c', p, done, err)"
    using assms(2) unfolding v1_step_def Let_def hs case_prod_conv .
  have lm: "(if h_Verify h = 1 then k + NonceLength + SignatureLength else k) = k + tail_len h" for k
    by (simp add: tail_len_def NonceLength_def SignatureLength_def)
  note unf = protocolV1_Unpack_def Let_def v1_headerFromContext_eq case_prod_conv b1(1)
    bind.bind_lunit lm Length [OF b1(2)] b1(3)
  consider (fail) x where "e = Some x" | (wait) "e = None" "\<not> ok \<or> length c < unat (h_BodyLength h) + tail_len h"
    | (go) "e = None" "ok" "\<not> length c < unat (h_BodyLength h) + tail_len h" by (cases e) auto
  then show ?thesis
  proof cases
    case fail
    with st b1(2,3) show ?thesis unfolding unf by (auto simp: unpack_ctx_defs b1(3))
  next
    case wait
    with st b1(2,3) show ?thesis unfolding unf by (cases ok) (auto simp: unpack_ctx_defs b1(3))
  next
    case go
    define n where "n = unat (h_BodyLength h)"
    have len: "n + tail_len h \<le> length c" using go by (simp add: n_def)
    obtain b2 where b2: "read_full rb b1 n = (b2, take n c, None)" "inv b2" "content b2 = drop n c"
      using read_full_spec [OF b1(2), of n] len b1(3) by auto
    obtain out er where gun: "gunzip gz zr (take n c) = (out, er)" by fastforce
    obtain k where g: "gzip_Decompress gz zr (take n c) = Some (out, k, er)"
      using gzip_Decompress_gunzip [of gz zr "take n c"] gun by auto
    show ?thesis
    proof (cases "h_Verify h = 1")
      case True
      then have t: "24 \<le> length (content b2)" using len b2(3) by (simp add: tail_len_def)
      then have t16: "16 \<le> length c - (n + 8)" using b2(3) by simp
      obtain b3 where b3: "read_full rb (rb_Retrieve rb b2 NonceLength) SignatureLength = (b3, take 16 (drop (n + 8) c), None)"
        "inv b3" "content b3 = drop (n + 24) c"
        using read_full_spec [of "rb_Retrieve rb b2 8" 16] t b2(2,3) t16
        by (auto simp: Retrieve add.commute NonceLength_def SignatureLength_def)
      have nonce: "rb_PeekUint64 rb b2 = dec64 (take 8 (drop n c))"
        using PeekUint_dec(3) [OF b2(2)] t b2(3) by simp
      have tl': "take 8 (drop n (take (n + 24) c)) = take 8 (drop n c)"
        "drop (8 + n) (take (n + 24) c) = take 16 (drop (n + 8) c)"
        by (simp_all add: drop_take add.commute)
      show ?thesis
        using st go True b3(2,3)
        unfolding unf n_def [symmetric]
        by (cases "h_Gzip h = 1"; cases er)
           (auto simp: unpack_ctx_defs b2(1) b3(1) nonce finish_packet_def tail_len_def tl' g gun)
    next
      case False
      show ?thesis
        using st go False b2(2,3)
        unfolding unf n_def [symmetric]
        by (cases "h_Gzip h = 1"; cases er)
           (auto simp: unpack_ctx_defs b2(1) finish_packet_def tail_len_def g gun)
    qed
  qed
qed

end

subsection \<open>Packing\<close>

definition pad_signature :: "bytes \<Rightarrow> bytes" where
  "pad_signature s = take 16 s @ replicate (16 - length s) 0"

definition v1_send_header :: "Metadata \<Rightarrow> bytes \<Rightarrow> Header" where
  "v1_send_header md body = (v1_headerFromMetadata Header_zero md)\<lparr>h_BodyLength := word_of_nat (length body)\<rparr>"

definition v1_frame :: "Metadata \<Rightarrow> bytes \<Rightarrow> bytes" where
  "v1_frame md body =
     v1_wire (v1_send_header md body) @ body @
     (if md_Verify md then be_PutUint64 (md_Nonce md) @ pad_signature (md_Signature md) else [])"

definition known_ptype :: "PacketType \<Rightarrow> bool" where
  "known_ptype t \<longleftrightarrow> t = RequestPacket \<or> t = ResponsePacket \<or> t = PushPacket"

text \<open>Packing without the compression step.\<close>

definition v1_pack_plain :: "Metadata \<Rightarrow> bytes \<Rightarrow> error + bytes" where
  "v1_pack_plain md body =
     (if length body > MaxBodyLength then Inl ErrBodyLenHitLimit
      else if \<not> known_ptype (md_Type md) then Inl ErrUnknowPacket
      else Inr (v1_frame md body))"

lemma v1_headerFromMetadata_pooled: "v1_headerFromMetadata pooled md = v1_headerFromMetadata Header_zero md"
  by (simp add: v1_headerFromMetadata_def)

lemma v1_headerFromMetadata_fields:
  "h_RequestId (v1_headerFromMetadata p md) = md_RequestId md"
  "h_Timeout (v1_headerFromMetadata p md) = md_Timeout md"
  "h_StatusCode (v1_headerFromMetadata p md) = md_StatusCode md"
  "h_CmdCode (v1_headerFromMetadata p md) = ucast (md_CmdCode md AND 0xff)"
  "h_Verify (v1_headerFromMetadata p md) = (if md_Verify md then 1 else 0)"
  "h_Gzip (v1_headerFromMetadata p md) = (if md_Gzip md then 1 else 0)"
  "h_Reserve (v1_headerFromMetadata p md) = 0"
  "h_Type (v1_headerFromMetadata p md) =
     (if md_Type md = RequestPacket then v1_RequestPacket
      else if md_Type md = ResponsePacket then v1_ResponsePacket
      else if md_Type md = PushPacket then v1_PushPacket else 0)"
  by (auto simp: v1_headerFromMetadata_def Header_zero_def Let_def)

lemma known_type_headerFromMetadata:
  "known_type (h_Type (v1_headerFromMetadata p md)) \<longleftrightarrow> known_ptype (md_Type md)"
  by (auto simp: v1_headerFromMetadata_fields known_type_def known_ptype_def
      v1_RequestPacket_def v1_ResponsePacket_def v1_PushPacket_def)

lemma v1_Header_Pack_frame:
  assumes "length body \<le> MaxBodyLength"
  shows "v1_Header_Pack ((v1_headerFromMetadata pooled md)\<lparr>h_BodyLength := word_of_nat (length body)\<rparr>) =
    Some (if known_ptype (md_Type md) then Inr (v1_wire (v1_send_header md body)) else Inl ErrUnknowPacket)"
proof -
  have "unat (word_of_nat (length body) :: 32 word) = length body"
    using assms by (simp add: unat_of_nat MaxBodyLength_def)
  then show ?thesis
    using assms known_type_headerFromMetadata [of pooled md]
    by (simp add: v1_Header_Pack_eq v1_send_header_def v1_headerFromMetadata_pooled [of pooled])
qed

text \<open>Writing header, body and signed tail into a zeroed slice.\<close>

lemma copy_frame:
  assumes "length hd' = hl" "length body = bl"
  shows "copy_at (replicate (hl + bl) 0) 0 hd' = Some (hd' @ replicate bl 0)"
    and "copy_at (replicate (hl + bl + NonceLength + SignatureLength) 0) 0 hd' = Some (hd' @ replicate (bl + 24) 0)"
    and "copy_at (hd' @ replicate bl 0) (length hd') body = Some (hd' @ body)"
    and "copy_at (hd' @ replicate (bl + 24) 0) (length hd') body = Some (hd' @ body @ replicate 24 0)"
    and "put_at (hd' @ body @ replicate 24 0) (hl + bl) (be_PutUint64 nonce) =
       Some (hd' @ body @ be_PutUint64 nonce @ replicate 16 0)"
    and "copy_at (hd' @ body @ be_PutUint64 nonce @ replicate 16 0) (hl + bl + NonceLength) s =
       Some (hd' @ body @ be_PutUint64 nonce @ pad_signature s)"
  using assms
  by (simp_all add: copy_at_def put_at_def NonceLength_def SignatureLength_def pad_signature_def)

lemma protocolV1_Pack_plain:
  assumes "pk_Metadata p = Some md"
    and "\<not> (MinGzipSize (NewPackOptions opts) \<noteq> 0 \<and> int (length (pk_Body p)) \<ge> MinGzipSize (NewPackOptions opts))"
  shows "protocolV1_Pack gz level pooled p opts = Some (p, v1_pack_plain md (pk_Body p))"
proof (cases "length (pk_Body p) > MaxBodyLength \<or> \<not> known_ptype (md_Type md)")
  case True
  with assms show ?thesis
    unfolding protocolV1_Pack_def Let_def v1_pack_plain_def
    using v1_Header_Pack_frame [of "pk_Body p" pooled md] by auto
next
  case False
  define h where "h = v1_send_header md (pk_Body p)"
  define hl where "hl = (if h_Type h = v1_RequestPacket then v1_RequestHeaderLen
                           else if h_Type h = v1_ResponsePacket then v1_ResponseHeaderLen
                           else if h_Type h = v1_PushPacket then v1_PushHeaderLen
                           else 0)"
  have h: "(v1_headerFromMetadata pooled md)\<lparr>h_BodyLength := word_of_nat (length (pk_Body p))\<rparr> = h"
    by (simp add: h_def v1_send_header_def v1_headerFromMetadata_pooled [of pooled])
  have k: "known_type (h_Type h)"
    using False known_type_headerFromMetadata [of Header_zero md] by (simp add: h_def v1_send_header_def)
  then have hl: "length (v1_wire h) = hl"
    by (auto simp: length_v1_wire hl_def known_type_def prefix_len_def v1_RequestHeaderLen_def
        v1_ResponseHeaderLen_def v1_PushHeaderLen_def)
  have hp: "v1_Header_Pack h = Some (Inr (v1_wire h))"
    using v1_Header_Pack_frame [of "pk_Body p" pooled md] False unfolding h by (simp add: h_def)
  have l: "\<not> length (pk_Body p) > MaxBodyLength" using False by simp
  note cf = copy_frame [OF hl refl, of "pk_Body p"]
  show ?thesis
    unfolding protocolV1_Pack_def Let_def if_not_P [OF assms(2)] bind.bind_lunit case_prod_conv option.case
      if_not_P [OF l] assms(1) h hp sum.case hl_def [symmetric]
    using False
    by (cases "md_Verify md")
       (simp_all add: cf v1_pack_plain_def v1_frame_def h_def [symmetric])
qed

text \<open>With the compression step: the frame of the compressed packet, flagged.\<close>

lemma protocolV1_Pack_gzip:
  assumes "pk_Metadata p = Some md"
    and c: "MinGzipSize (NewPackOptions opts) \<noteq> 0 \<and> int (length (pk_Body p)) \<ge> MinGzipSize (NewPackOptions opts)"
    and z: "gzip_Compress gz level (pk_Body p) = (z, None)"
  shows "protocolV1_Pack gz level pooled p opts =
    Some (\<lparr>pk_Metadata = Some (md\<lparr>md_Gzip := True\<rparr>), pk_Body = z\<rparr>, v1_pack_plain (md\<lparr>md_Gzip := True\<rparr>) z)"
proof -
  define p' where "p' = \<lparr>pk_Metadata = Some (md\<lparr>md_Gzip := True\<rparr>), pk_Body = z\<rparr>"
  have p': "p\<lparr>pk_Body := z\<rparr>\<lparr>pk_Metadata := Some (md\<lparr>md_Gzip := True\<rparr>)\<rparr> = p'" "pk_Metadata (p\<lparr>pk_Body := z\<rparr>) = Some md"
    using assms(1) by (simp_all add: p'_def)
  have n: "\<not> (MinGzipSize (NewPackOptions []) \<noteq> 0 \<and>
      int (length (pk_Body p')) \<ge> MinGzipSize (NewPackOptions []))"
    by (simp add: NewPackOptions_def)
  have "protocolV1_Pack gz level pooled p opts = protocolV1_Pack gz level pooled p' []"
    unfolding protocolV1_Pack_def Let_def if_P [OF c] if_not_P [OF n] z case_prod_conv option.case
      p' bind.bind_lunit
    by (simp add: p'_def)
  also have "\<dots> = Some (p', v1_pack_plain (md\<lparr>md_Gzip := True\<rparr>) z)"
    using protocolV1_Pack_plain [OF _ n, of "md\<lparr>md_Gzip := True\<rparr>" gz level pooled] by (simp add: p'_def)
  finally show ?thesis by (simp add: p'_def)
qed

subsection \<open>Reading a packed frame\<close>

definition received_header :: "'a Header_scheme \<Rightarrow> 'b Header_scheme \<Rightarrow> 'a Header_scheme" where
  "received_header h0 h =
     (copy_prefix (h0\<lparr>h_Type := h_Type h, h_Verify := h_Verify h AND 1, h_Gzip := h_Gzip h AND 1,
                     h_Reserve := h_Reserve h AND 3\<rparr>) h)\<lparr>h_BodyLength := h_BodyLength h\<rparr>"

lemma v1_UnpackBytes_wire:
  assumes "known_type (h_Type h)" and "unat (h_BodyLength h) < 2 ^ 24"
  shows "v1_Header_UnpackBytes h0 (v1_wire h @ rest) = Some (received_header h0 h, Inr rest)"
  using assms v1_fields_wire [of "set_flags h0 (flags_byte h)" h rest]
  by (simp add: v1_Header_UnpackBytes_eq v1_wire_def set_flags_flags_byte known_type_nibble Let_def
      received_header_def)

lemma v1_header_step_wire:
  assumes "known_type (h_Type h)" and "unat (h_BodyLength h) < 2 ^ 24"
    and "\<not> h_BeginUnpack h0" "\<not> h_IsUnpacked h0"
  shows "v1_header_step h0 (v1_wire h @ rest) =
     (received_header (h0\<lparr>h_BeginUnpack := True, h_IsUnpacked := True\<rparr>) h, rest, True, None)"
proof -
  have e: "h0\<lparr>h_BeginUnpack := True, h_Type := t, h_Verify := v, h_Gzip := g, h_Reserve := r, h_IsUnpacked := True\<rparr> =
      h0\<lparr>h_BeginUnpack := True, h_IsUnpacked := True, h_Type := t, h_Verify := v, h_Gzip := g, h_Reserve := r\<rparr>" for t v g r
    by simp
  show ?thesis
    using assms v1_fields_wire [of "set_flags (h0\<lparr>h_BeginUnpack := True, h_IsUnpacked := True\<rparr>) (flags_byte h)" h rest]
    by (simp add: v1_header_step_eq v1_wire_def set_flags_flags_byte known_type_nibble received_header_def e)
qed

text \<open>What the receiver knows of the sender's metadata.\<close>

definition v1_received :: "('h, 'i) Context \<Rightarrow> Metadata \<Rightarrow> Metadata" where
  "v1_received ctx md =
     Metadata_zero\<lparr>md_Type := md_Type md, md_Codec := ctx_Codec ctx,
       md_CmdCode := md_CmdCode md AND 0xff,
       md_RequestId := (if md_Type md = PushPacket then 0 else md_RequestId md),
       md_Timeout := (if md_Type md = RequestPacket then md_Timeout md else 0),
       md_StatusCode := (if md_Type md = ResponsePacket then md_StatusCode md else 0),
       md_Verify := md_Verify md, md_Gzip := md_Gzip md,
       md_Nonce := (if md_Verify md then md_Nonce md else 0),
       md_Signature := (if md_Verify md then pad_signature (md_Signature md) else [])\<rparr>"

lemma ptype_distinct [simp]:
  "RequestPacket \<noteq> ResponsePacket" "RequestPacket \<noteq> PushPacket" "ResponsePacket \<noteq> PushPacket"
  "ResponsePacket \<noteq> RequestPacket" "PushPacket \<noteq> RequestPacket" "PushPacket \<noteq> ResponsePacket"
  by (simp_all add: RequestPacket_def ResponsePacket_def PushPacket_def)

lemma ucast_low_byte: "(ucast (ucast (w AND 0xff :: 32 word) :: 8 word) :: 32 word) = w AND 0xff"
proof -
  have m: "(0xff :: 32 word) = mask 8" by (simp add: mask_eq_exp_minus_1)
  show ?thesis
    unfolding m by (rule bit_word_eqI) (auto simp: bit_unsigned_iff bit_and_iff bit_mask_iff)
qed

text \<open>A fresh header: nothing transmitted has been stored in it.\<close>

definition fresh_header :: "'a Header_scheme \<Rightarrow> bool" where
  "fresh_header h \<longleftrightarrow> h_RequestId h = 0 \<and> h_Timeout h = 0 \<and> h_StatusCode h = 0"

lemma received_header_simps [simp]:
  "h_Verify (received_header h0 h) = h_Verify h AND 1"
  "h_Gzip (received_header h0 h) = h_Gzip h AND 1"
  "h_BodyLength (received_header h0 h) = h_BodyLength h"
  by (simp_all add: received_header_def copy_prefix_def Let_def)

lemma received_metadata:
  assumes "fresh_header h0" and "known_ptype (md_Type md)"
    and "h = (v1_headerFromMetadata p md)\<lparr>h_BodyLength := n\<rparr>"
  shows "(Header_Metadata (received_header h0 h) ctx)
     \<lparr>md_Nonce := (if md_Verify md then md_Nonce md else 0),
      md_Signature := (if md_Verify md then pad_signature (md_Signature md) else [])\<rparr> = v1_received ctx md"
  using assms(1,2) unfolding assms(3)
  by (auto simp: known_ptype_def Header_Metadata_def received_header_def copy_prefix_def fresh_header_def
      v1_headerFromMetadata_fields v1_received_def ucast_low_byte Let_def Metadata_zero_def)

definition signed_tail :: "Metadata \<Rightarrow> bytes" where
  "signed_tail md = (if md_Verify md then be_PutUint64 (md_Nonce md) @ pad_signature (md_Signature md) else [])"

definition maybe_gunzip :: "('w, 'r) gz_lib \<Rightarrow> 'r option \<Rightarrow> bool \<Rightarrow> bytes \<Rightarrow> bytes \<times> error option" where
  "maybe_gunzip gz zr g body = (if g then gunzip gz zr body else (body, None))"

lemma length_signed_tail: "length (signed_tail md) = (if md_Verify md then 24 else 0)"
  by (simp add: signed_tail_def pad_signature_def min_def)

lemma Header_Metadata_unsigned:
  "(Header_Metadata h ctx)\<lparr>md_Nonce := 0, md_Signature := []\<rparr> = Header_Metadata h ctx"
  by (simp add: Header_Metadata_def Metadata_zero_def Let_def)

lemma finish_received:
  assumes "fresh_header h0" and "known_ptype (md_Type md)"
    and h: "h = (v1_headerFromMetadata p md)\<lparr>h_BodyLength := n\<rparr>"
    and b: "maybe_gunzip gz zr (md_Gzip md) body = (out, err)"
  shows "finish_packet gz zr (received_header h0 h) (Header_Metadata (received_header h0 h) ctx) body (signed_tail md) =
     (\<lparr>pk_Metadata = Some (v1_received ctx md), pk_Body = out\<rparr>, err)"
proof -
  have f: "h_Verify h AND 1 = (if md_Verify md then 1 else 0)" "h_Gzip h AND 1 = (if md_Gzip md then 1 else 0)"
    by (simp_all add: h v1_headerFromMetadata_fields)
  have r: "(Header_Metadata (received_header h0 h) ctx)
     \<lparr>md_Nonce := (if md_Verify md then md_Nonce md else 0),
      md_Signature := (if md_Verify md then pad_signature (md_Signature md) else [])\<rparr> = v1_received ctx md"
    by (rule received_metadata [OF assms(1-3)])
  show ?thesis
    using b r Header_Metadata_unsigned [of "received_header h0 h" ctx]
    by (cases "md_Verify md"; cases "md_Gzip md")
       (simp_all add: finish_packet_def f signed_tail_def maybe_gunzip_def)
qed

lemma unat_len_body: "length body \<le> MaxBodyLength \<Longrightarrow> unat (word_of_nat (length body) :: 32 word) = length body"
  by (simp add: unat_of_nat MaxBodyLength_def)

lemma v1_send_header_ok:
  assumes "known_ptype (md_Type md)" and "length body \<le> MaxBodyLength"
  shows "known_type (h_Type (v1_send_header md body))"
    and "unat (h_BodyLength (v1_send_header md body)) = length body"
    and "unat (h_BodyLength (v1_send_header md body)) < 2 ^ 24"
  using assms known_type_headerFromMetadata [of Header_zero md]
  by (simp_all add: v1_send_header_def unat_len_body MaxBodyLength_def)

lemma tail_len_received:
  "h = (v1_headerFromMetadata p md)\<lparr>h_BodyLength := n\<rparr> \<Longrightarrow>
   tail_len (received_header h0 h) = length (signed_tail md)"
  by (simp add: tail_len_def length_signed_tail v1_headerFromMetadata_fields)

lemma fresh_Header_zero: "fresh_header Header_zero"
  "fresh_header (Header_zero\<lparr>h_BeginUnpack := True, h_IsUnpacked := True\<rparr>)"
  by (simp_all add: fresh_header_def Header_zero_def)

lemma v1_frame_parts: "v1_frame md body = v1_wire (v1_send_header md body) @ body @ signed_tail md"
  by (simp add: v1_frame_def signed_tail_def)

lemma v1_bytes_frame:
  assumes md: "known_ptype (md_Type md)" "length body \<le> MaxBodyLength" and ctx: "ctx_Header ctx = None"
    and b: "maybe_gunzip gz zr (md_Gzip md) body = (out, None)"
  shows "v1_bytes_spec gz zr ctx (v1_frame md body) =
    (ctx\<lparr>ctx_beginUnpack := False\<rparr>, Some \<lparr>pk_Metadata = Some (v1_received ctx md), pk_Body = out\<rparr>, None)"
proof -
  let ?h = "v1_send_header md body"
  note ok = v1_send_header_ok [OF md]
  note fin = finish_received [OF fresh_Header_zero(1) md(1) v1_send_header_def [of md body] b, of ctx]
  have "current_header ctx = Header_zero" by (simp add: current_header_def ctx)
  then have u: "v1_Header_UnpackBytes (current_header ctx) (v1_frame md body) =
      Some (received_header Header_zero ?h, Inr (body @ signed_tail md))"
    using v1_UnpackBytes_wire [OF ok(1,3), of Header_zero] by (simp add: v1_frame_parts)
  have t: "tail_len (received_header Header_zero ?h) = length (signed_tail md)"
    by (rule tail_len_received [OF v1_send_header_def])
  have c: "ctx\<lparr>ctx_beginUnpack := True, ctx_Header := None, ctx_beginUnpack := False\<rparr> = ctx\<lparr>ctx_beginUnpack := False\<rparr>"
    using ctx by simp
  show ?thesis
    unfolding v1_bytes_spec_def u option.sel Let_def case_prod_conv sum.case received_header_simps ok(2) t
    by (simp add: fin c)
qed

lemma v1_step_frame:
  assumes md: "known_ptype (md_Type md)" "length body \<le> MaxBodyLength" and ctx: "ctx_Header ctx = None"
    and b: "maybe_gunzip gz zr (md_Gzip md) body = (out, None)"
  shows "v1_step gz zr ctx (v1_frame md body @ rest) =
    (ctx\<lparr>ctx_beginUnpack := False\<rparr>, rest, Some \<lparr>pk_Metadata = Some (v1_received ctx md), pk_Body = out\<rparr>, True, None)"
proof -
  let ?h = "v1_send_header md body" and ?z = "Header_zero\<lparr>h_BeginUnpack := True, h_IsUnpacked := True\<rparr>"
  note ok = v1_send_header_ok [OF md]
  note fin = finish_received [OF fresh_Header_zero(2) md(1) v1_send_header_def [of md body] b, of ctx]
  have cur: "current_header ctx = Header_zero" by (simp add: current_header_def ctx)
  have z: "\<not> h_BeginUnpack Header_zero" "\<not> h_IsUnpacked Header_zero" by (simp_all add: Header_zero_def)
  have u: "v1_header_step Header_zero (v1_frame md body @ rest) =
      (received_header ?z ?h, body @ signed_tail md @ rest, True, None)"
    using v1_header_step_wire [OF ok(1,3) z] by (simp add: v1_frame_parts)
  have t: "tail_len (received_header ?z ?h) = length (signed_tail md)"
    by (rule tail_len_received [OF v1_send_header_def])
  have c: "ctx\<lparr>ctx_beginUnpack := True, ctx_Header := None, ctx_beginUnpack := False\<rparr> = ctx\<lparr>ctx_beginUnpack := False\<rparr>"
    using ctx by simp
  show ?thesis
    unfolding v1_step_def cur if_not_P [OF z(2)] u Let_def case_prod_conv option.case received_header_simps ok(2) t
    by (simp add: fin c)
qed

text \<open>Whether \<open>Pack\<close> compresses, and what a successful \<open>Pack\<close> has sent.\<close>

definition compresses :: "PackOption list \<Rightarrow> bytes \<Rightarrow> bool" where
  "compresses opts body \<longleftrightarrow>
     MinGzipSize (NewPackOptions opts) \<noteq> 0 \<and> int (length body) \<ge> MinGzipSize (NewPackOptions opts)"

lemma gunzip_compressed:
  assumes "gzip_codec gz" "- 1 \<le> level" "level \<le> 9" "length x < 2 ^ 32"
  shows "\<exists>z. gzip_Compress gz level x = (z, None) \<and> (\<forall>zr. gunzip gz zr z = (x, None))"
  using gzip_codec.compress_decompress [OF assms] by (auto simp: gunzip_def)

lemma v1_pack_plain_Inr:
  "v1_pack_plain md body = Inr frame \<longleftrightarrow>
     length body \<le> MaxBodyLength \<and> known_ptype (md_Type md) \<and> frame = v1_frame md body"
  "Inr frame = v1_pack_plain md body \<longleftrightarrow>
     length body \<le> MaxBodyLength \<and> known_ptype (md_Type md) \<and> frame = v1_frame md body"
  by (auto simp: v1_pack_plain_def)

lemma protocolV1_Pack_sent:
  assumes gz: "gzip_codec gz" "- 1 \<le> level" "level \<le> 9"
    and p: "pk_Metadata p = Some md" "\<not> md_Gzip md" "length (pk_Body p) < 2 ^ 32"
    and pack: "protocolV1_Pack gz level pooled p opts = Some (p', Inr frame)"
  obtains body where "p' = \<lparr>pk_Metadata = Some (md\<lparr>md_Gzip := compresses opts (pk_Body p)\<rparr>), pk_Body = body\<rparr>"
    "frame = v1_frame (md\<lparr>md_Gzip := compresses opts (pk_Body p)\<rparr>) body"
    "known_ptype (md_Type md)" "length body \<le> MaxBodyLength"
    "\<And>zr. maybe_gunzip gz zr (compresses opts (pk_Body p)) body = (pk_Body p, None)"
proof (cases "compresses opts (pk_Body p)")
  case True
  obtain z where z: "gzip_Compress gz level (pk_Body p) = (z, None)" "\<And>zr. gunzip gz zr z = (pk_Body p, None)"
    using gunzip_compressed [OF gz p(3)] by blast
  show ?thesis
    using that [of z] protocolV1_Pack_gzip [OF p(1) True [unfolded compresses_def] z(1), of pooled] pack True z(2)
    by (simp add: v1_pack_plain_Inr maybe_gunzip_def)
next
  case False
  have "md\<lparr>md_Gzip := False\<rparr> = md" "p = \<lparr>pk_Metadata = Some md, pk_Body = pk_Body p\<rparr>" using p by simp_all
  then show ?thesis
    using that [of "pk_Body p"] protocolV1_Pack_plain [OF p(1) False [unfolded compresses_def], of gz level pooled] pack False
    by (simp add: v1_pack_plain_Inr maybe_gunzip_def)
qed

subsection \<open>The stream reader as a frame reader\<close>

definition v1_size :: "Header \<Rightarrow> nat" where
  "v1_size h = unat (h_BodyLength h) + tail_len h"

definition v1_finish ::
    "('w, 'r) gz_lib \<Rightarrow> 'r option \<Rightarrow> Header \<Rightarrow> (Header, 'i) Context \<Rightarrow> bytes \<Rightarrow> Packet \<times> nat \<times> error option" where
  "v1_finish gz zr h ctx bs =
     (let n = unat (h_BodyLength h);
          (p, e) = finish_packet gz zr h (Header_Metadata h ctx) (take n bs) (drop n bs)
      in (p, v1_size h, e))"

lemma v1_step_frame_step:
  "v1_step gz zr ctx c = frame_step h_IsUnpacked Header_zero v1_header_step v1_size (v1_finish gz zr) ctx c"
proof -
  have fin: "(case v1_finish gz zr h ctx (take (v1_size h) c) of
        (p, k, Some e) \<Rightarrow> (x, drop k c, Some p, False, Some e)
      | (p, _, None) \<Rightarrow> (y, drop (v1_size h) c, Some p, True, None)) =
    (case finish_packet gz zr h (Header_Metadata h ctx) (take (unat (h_BodyLength h)) c)
           (drop (unat (h_BodyLength h)) (take (v1_size h) c)) of
        (p, Some e) \<Rightarrow> (x, drop (v1_size h) c, Some p, False, Some e)
      | (p, None) \<Rightarrow> (y, drop (v1_size h) c, Some p, True, None))" for h c x y
  proof -
    have "take (unat (h_BodyLength h)) (take (v1_size h) c) = take (unat (h_BodyLength h)) c"
      by (simp add: v1_size_def min_def)
    then show ?thesis
      unfolding v1_finish_def Let_def
      by (simp add: case_prod_unfold split: option.split)
  qed
  show ?thesis
    unfolding v1_step_def frame_step_def current_header_def Let_def v1_size_def [symmetric] fin ..
qed

interpretation v1: frame_reader h_IsUnpacked Header_zero v1_header_step v1_size "v1_finish gz zr" for gz zr
proof (unfold_locales, goal_cases)
  case 1
  show ?case by (simp add: Header_zero_def)
next
  case (2 h c h' c' er d)
  from v1h.step_more [OF 2 [unfolded v1_header_step_def]] show ?case by (simp add: v1_header_step_def)
next
  case (3 h c h' c' ok e d)
  from v1h.step_more [OF 3 [unfolded v1_header_step_def]] show ?case by (simp add: v1_header_step_def)
next
  case (4 h c h' c' d)
  from v1h.step_more [OF 4 [unfolded v1_header_step_def]] show ?case by (simp add: v1_header_step_def)
next
  case (5 h c h' c' ok er)
  from v1h.step_prefix [OF 5(2) [unfolded v1_header_step_def]] show ?case .
next
  case (6 h ctx b x bs)
  show ?case by (simp add: v1_finish_def)
next
  case (7 h ctx bs p k er)
  then show ?case by (auto simp: v1_finish_def Let_def split: prod.splits)
qed

subsection \<open>Properties\<close>

text \<open>
  C13. Packing a packet that has metadata never panics.  Its result is the frame of the packet (header, body,
  and nonce and padded signature when it is signed), computed after the compression step when the
  option asks for it; the errors are the compressor's, \<open>ErrBodyLenHitLimit\<close> and \<open>ErrUnknowPacket\<close>, in that order.
\<close>

theorem v1_Pack_result:
  "protocolV1_Pack gz level pooled \<lparr>pk_Metadata = Some md, pk_Body = body\<rparr> opts = Some (
     if compresses opts body then
       (case gzip_Compress gz level body of
          (z, Some e) \<Rightarrow> (\<lparr>pk_Metadata = Some md, pk_Body = z\<rparr>, Inl e)
        | (z, None) \<Rightarrow> (\<lparr>pk_Metadata = Some (md\<lparr>md_Gzip := True\<rparr>), pk_Body = z\<rparr>,
                        v1_pack_plain (md\<lparr>md_Gzip := True\<rparr>) z))
     else (\<lparr>pk_Metadata = Some md, pk_Body = body\<rparr>, v1_pack_plain md body))"
proof (cases "compresses opts body")
  case True
  obtain z er where z: "gzip_Compress gz level body = (z, er)" by fastforce
  show ?thesis
  proof (cases er)
    case None
    then show ?thesis
      using protocolV1_Pack_gzip [of "\<lparr>pk_Metadata = Some md, pk_Body = body\<rparr>" md opts gz level z pooled] True z
      by (simp add: compresses_def)
  next
    case (Some e)
    with True z show ?thesis
      unfolding protocolV1_Pack_def Let_def by (simp add: compresses_def)
  qed
next
  case False
  then show ?thesis
    using protocolV1_Pack_plain [of "\<lparr>pk_Metadata = Some md, pk_Body = body\<rparr>" md opts gz level pooled]
    by (auto simp: compresses_def)
qed

text \<open>What the other side reads from the frame of a packet.\<close>

lemma v1_pack_unpack:
  assumes "gzip_codec gz" "- 1 \<le> level" "level \<le> 9"
    and "pk_Metadata p = Some md" "\<not> md_Gzip md" "length (pk_Body p) < 2 ^ 32"
    and "protocolV1_Pack gz level pooled p opts = Some (p', Inr frame)" "ctx_Header ctx = None"
  shows "protocolV1_UnpackBytes gz zr pooled' ctx frame = Some (ctx\<lparr>ctx_beginUnpack := False\<rparr>,
      Some \<lparr>pk_Metadata = Some (v1_received ctx (md\<lparr>md_Gzip := compresses opts (pk_Body p)\<rparr>)), pk_Body = pk_Body p\<rparr>, None)"
proof -
  obtain body where b: "frame = v1_frame (md\<lparr>md_Gzip := compresses opts (pk_Body p)\<rparr>) body" "known_ptype (md_Type md)"
    "length body \<le> MaxBodyLength" "maybe_gunzip gz zr (compresses opts (pk_Body p)) body = (pk_Body p, None)"
    using protocolV1_Pack_sent [OF assms(1-7)] by metis
  show ?thesis
    unfolding protocolV1_UnpackBytes_eq b(1) by (subst v1_bytes_frame [where out = "pk_Body p"]) (use b assms(8) in simp_all)
qed

text \<open>
  C1. Round trip over a byte slice.  When \<open>Pack\<close> has produced a frame for a packet whose body is not
  compressed yet, \<open>UnpackBytes\<close> in a context with no half-read frame returns the original body,
  the metadata fields the frame type transmits (command code in 8 bits, request id except for pushes,
  timeout of requests, status of responses, signature padded to 16 bytes) and no error.
\<close>

theorem v1_roundtrip_bytes:
  assumes "gzip_codec gz" "- 1 \<le> level" "level \<le> 9"
    and "pk_Metadata p = Some md" "\<not> md_Gzip md" "length (pk_Body p) < 2 ^ 32"
    and "protocolV1_Pack gz level pooled p opts = Some (p', Inr frame)"
    and "ctx_Header ctx = None"
  shows "protocolV1_UnpackBytes gz zr pooled' ctx frame =
    Some (ctx\<lparr>ctx_beginUnpack := False\<rparr>,
      Some \<lparr>pk_Metadata = Some (v1_received ctx (md\<lparr>md_Gzip := compresses opts (pk_Body p)\<rparr>)),
            pk_Body = pk_Body p\<rparr>, None)"
  by (rule v1_pack_unpack [OF assms])

text \<open>
  C2. Round trip over a stream.  If a frame produced by \<open>Pack\<close> is at the front of the receive buffer,
  \<open>Unpack\<close> returns the same packet as \<open>UnpackBytes\<close> does, reports it as done and leaves in the buffer exactly
  the bytes that follow the frame.
\<close>

theorem v1_roundtrip_stream:
  assumes "gzip_codec gz" "- 1 \<le> level" "level \<le> 9"
    and "pk_Metadata p = Some md" "\<not> md_Gzip md" "length (pk_Body p) < 2 ^ 32"
    and "protocolV1_Pack gz level pooled p opts = Some (p', Inr frame)"
    and "ctx_Header ctx = None"
    and "ring_reader rb content ok" "ok buf" "content buf = frame @ rest"
  shows "\<exists>buf'. protocolV1_Unpack rb gz zr pooled' ctx buf =
    Some (ctx\<lparr>ctx_beginUnpack := False\<rparr>, buf',
      Some \<lparr>pk_Metadata = Some (v1_received ctx (md\<lparr>md_Gzip := compresses opts (pk_Body p)\<rparr>)),
            pk_Body = pk_Body p\<rparr>, True, None) \<and> ok buf' \<and> content buf' = rest"
proof -
  obtain body where b: "frame = v1_frame (md\<lparr>md_Gzip := compresses opts (pk_Body p)\<rparr>) body"
    "known_ptype (md_Type md)" "length body \<le> MaxBodyLength"
    "maybe_gunzip gz zr (compresses opts (pk_Body p)) body = (pk_Body p, None)"
    using protocolV1_Pack_sent [OF assms(1-7)] by metis
  show ?thesis
    by (rule ring_reader.protocolV1_Unpack_refines [OF assms(9,10)], unfold assms(11) b(1))
       (rule v1_step_frame, use b assms(8) in simp_all)
qed


definition v1_example :: Packet where
  "v1_example = \<lparr>pk_Metadata = Some (Metadata_zero\<lparr>md_Type := RequestPacket, md_CmdCode := 2, md_RequestId := 7,
     md_Timeout := 500, md_Verify := True, md_Nonce := 9, md_Signature := [1, 2, 3]\<rparr>), pk_Body = [4, 5, 6]\<rparr>"

definition v1_example_frame :: bytes where
  "v1_example_frame = v1_frame (the (pk_Metadata v1_example)) (pk_Body v1_example)"

lemma v1_example_packed:
  "protocolV1_Pack stored_gz 6 Header_zero v1_example [] = Some (v1_example, Inr v1_example_frame)"
  by (subst protocolV1_Pack_plain [where md = "the (pk_Metadata v1_example)"])
     (simp_all add: v1_example_def v1_example_frame_def NewPackOptions_def v1_pack_plain_def MaxBodyLength_def known_ptype_def Metadata_zero_def)



lemma v1_example_facts:
  "pk_Metadata v1_example = Some (the (pk_Metadata v1_example))" "\<not> md_Gzip (the (pk_Metadata v1_example))"
  "length (pk_Body v1_example) < 2 ^ 32"
  by (simp_all add: v1_example_def Metadata_zero_def)

theorem v1_roundtrip_bytes_witness:
  "\<exists>md. protocolV1_UnpackBytes stored_gz None Header_zero (NewContext ClientSide :: (Header, unit) Context)
       [17, 2, 0, 0, 0, 7, 1, 244, 0, 0, 3, 4, 5, 6, 0, 0, 0, 0, 0, 0, 0, 9, 1, 2, 3, 0, 0, 0, 0, 0, 0, 0, 0, 0, 0, 0, 0, 0] =
     Some (NewContext ClientSide, Some \<lparr>pk_Metadata = Some md, pk_Body = [4, 5, 6]\<rparr>, None) \<and>
     md_RequestId md = 7 \<and> md_Timeout md = 500 \<and> md_Nonce md = 9"
proof -
  have f: "v1_example_frame =
    [17, 2, 0, 0, 0, 7, 1, 244, 0, 0, 3, 4, 5, 6, 0, 0, 0, 0, 0, 0, 0, 9, 1, 2, 3, 0, 0, 0, 0, 0, 0, 0, 0, 0, 0, 0, 0, 0]"
    by code_simp
  show ?thesis
    using v1_roundtrip_bytes [OF stored.gzip_codec_axioms _ _ v1_example_facts v1_example_packed,
        of "NewContext ClientSide :: (Header, unit) Context" None Header_zero]
    by (simp add: f NewContext_def v1_received_def v1_example_def Metadata_zero_def)
qed

theorem v1_roundtrip_stream_witness:
  "\<exists>buf'. protocolV1_Unpack circ_ops stored_gz None Header_zero (NewContext ClientSide :: (Header, unit) Context)
       (circ_with (v1_example_frame @ [19, 1])) =
     Some (NewContext ClientSide, buf', Some \<lparr>pk_Metadata = Some (v1_received (NewContext ClientSide :: (Header, unit) Context)
       (the (pk_Metadata v1_example))), pk_Body = [4, 5, 6]\<rparr>, True, None) \<and> circ_content buf' = [19, 1]"
  using v1_roundtrip_stream [OF stored.gzip_codec_axioms _ _ v1_example_facts v1_example_packed _
      circ.ring_reader_axioms circ_with_spec, of "NewContext ClientSide :: (Header, unit) Context" None Header_zero]
  by (auto simp: NewContext_def v1_example_def Metadata_zero_def compresses_def NewPackOptions_def)

text \<open>The slice reader on the bytes that the stream reader has consumed.\<close>

lemma v1_fields_state:
  "v1_fields (set_flags (h\<lparr>h_BeginUnpack := x\<rparr>) b\<lparr>h_IsUnpacked := y\<rparr>) bs =
   (v1_fields (set_flags h b) bs)\<lparr>h_BeginUnpack := x, h_IsUnpacked := y\<rparr>"
  by (simp add: v1_fields_def set_prefix_def set_length_def set_flags_def Let_def)

lemma finish_packet_state [simp]:
  "finish_packet gz zr (h\<lparr>h_BeginUnpack := x, h_IsUnpacked := y\<rparr>) = finish_packet gz zr h"
  "Header_Metadata (h\<lparr>h_BeginUnpack := x, h_IsUnpacked := y\<rparr>) ctx = Header_Metadata h ctx"
  "tail_len (h\<lparr>h_BeginUnpack := x, h_IsUnpacked := y\<rparr>) = tail_len h"
  by (simp_all add: finish_packet_def [abs_def] Header_Metadata_def tail_len_def)

lemma h_Type_state [simp]: "h_Type (set_flags (h\<lparr>h_BeginUnpack := x\<rparr>) b) = h_Type (set_flags h b)"
  by (simp add: set_flags_def)

lemma v1_step_consumed:
  assumes st: "v1_step gz zr ctx c = (ctx', c', p, True, err)" and ctx: "ctx_Header ctx = None"
  shows "\<exists>frame. c = frame @ c' \<and> v1_bytes_spec gz zr ctx frame = (ctx', p, None)"
proof -
  have cur: "current_header ctx = Header_zero" by (simp add: current_header_def ctx)
  have z: "\<not> h_IsUnpacked Header_zero" "\<not> h_BeginUnpack Header_zero" by (simp_all add: Header_zero_def)
  have hd: "v1.head ctx c = v1_header_step Header_zero c" by (simp add: v1.head_def z ctx)
  obtain h c1 pk k where d: "v1_header_step Header_zero c = (h, c1, True, None)" "v1_size h \<le> length c1"
    "v1_finish gz zr h ctx (take (v1_size h) c1) = (pk, k, None)" "p = Some pk" "c' = drop (v1_size h) c1"
    "ctx' = ctx\<lparr>ctx_beginUnpack := False, ctx_Header := None\<rparr>"
    by (rule v1.frame_step_done [OF st [unfolded v1_step_frame_step], unfolded hd])
  obtain b bs where c: "c = b # bs" using d(1) v1_header_step_rest(1) [OF z(1)] by (cases c) auto
  define h1 where "h1 = set_flags Header_zero b"
  define j where "j = prefix_len (h_Type h1) + 3"
  define g where "g = v1_fields h1 bs"
  have r: "known_type (h_Type h1)" "j \<le> length bs" "c1 = drop j bs"
    and h: "h = g\<lparr>h_BeginUnpack := True, h_IsUnpacked := True\<rparr>"
    using d(1) v1_header_step_rest(2) [OF z(1)] z(2) v1_fields_state [where h = Header_zero and b = b and bs = bs]
    by (auto simp: c header_rest_def h1_def j_def g_def split: if_splits)
  have m: "v1_size h = unat (h_BodyLength g) + tail_len g" by (simp add: v1_size_def h)
  define frame where "frame = b # take (j + v1_size h) bs"
  have "v1_fields h1 (take (j + v1_size h) bs) = g"
    using v1_fields_append [of h1 "take (j + v1_size h) bs" "drop (j + v1_size h) bs"] r(2)
    by (simp add: g_def j_def)
  then have u: "v1_Header_UnpackBytes Header_zero frame = Some (g, Inr (take (v1_size h) c1))"
    using r by (simp add: v1_Header_UnpackBytes_eq frame_def h1_def [symmetric] Let_def j_def [symmetric] drop_take)
  have len: "length (take (v1_size h) c1) = unat (h_BodyLength g) + tail_len g" using d(2) m by simp
  have f: "finish_packet gz zr g (Header_Metadata g ctx) (take (unat (h_BodyLength g)) (take (v1_size h) c1))
      (drop (unat (h_BodyLength g)) (take (v1_size h) c1)) = (pk, None)"
    using d(3) by (auto simp: v1_finish_def h Let_def split: prod.splits)
  have "v1_bytes_spec gz zr ctx frame = (ctx', p, None)"
    unfolding v1_bytes_spec_def cur u option.sel Let_def case_prod_conv sum.case f len
    using d(4,6) by simp
  moreover have "c = frame @ c'" using d(2,5) r by (simp add: c frame_def add.commute)
  ultimately show ?thesis by blast
qed

text \<open>
  C10. The two readers agree.  Whenever \<open>Unpack\<close> in a context with no half-read frame reports a packet as done, the
  bytes it has taken from the buffer are one frame, for which \<open>UnpackBytes\<close> returns the same packet
  and leaves the same context.
\<close>

theorem v1_readers_agree:
  assumes "ring_reader rb content ok" "ok buf" "ctx_Header ctx = None"
    and "protocolV1_Unpack rb gz zr pooled ctx buf = Some (ctx', buf', packet, True, err)"
  shows "\<exists>frame. content buf = frame @ content buf' \<and>
    protocolV1_UnpackBytes gz zr pooled' ctx frame = Some (ctx', packet, None)"
proof -
  obtain ctx1 c1 p1 d1 e1 where st: "v1_step gz zr ctx (content buf) = (ctx1, c1, p1, d1, e1)"
    by (metis prod_cases5)
  then have "v1_step gz zr ctx (content buf) = (ctx', content buf', packet, True, err)"
    using ring_reader.protocolV1_Unpack_refines [OF assms(1,2) st, of pooled] assms(4) by auto
  from v1_step_consumed [OF this assms(3)] show ?thesis by (simp add: protocolV1_UnpackBytes_eq)
qed

theorem v1_readers_agree_witness:
  "\<exists>frame. v1_example_frame @ [19, 1] = frame @ [19, 1] \<and>
    protocolV1_UnpackBytes stored_gz None Header_zero (NewContext ClientSide :: (Header, unit) Context) frame =
      Some (NewContext ClientSide, Some \<lparr>pk_Metadata = Some (v1_received (NewContext ClientSide :: (Header, unit) Context)
        (the (pk_Metadata v1_example))), pk_Body = [4, 5, 6]\<rparr>, None)"
proof -
  let ?ctx = "NewContext ClientSide :: (Header, unit) Context"
  let ?md = "the (pk_Metadata v1_example)"
  have ctx: "ctx_Header ?ctx = None" by (simp add: NewContext_def)
  have ok: "known_ptype (md_Type ?md)" "length (pk_Body v1_example) \<le> MaxBodyLength"
    "maybe_gunzip stored_gz None (md_Gzip ?md) (pk_Body v1_example) = ([4, 5, 6], None)"
    by (simp_all add: v1_example_def known_ptype_def MaxBodyLength_def Metadata_zero_def maybe_gunzip_def)
  have c: "circ_content (circ_with (v1_example_frame @ [19, 1])) = v1_frame ?md (pk_Body v1_example) @ [19, 1]"
    by (simp add: circ_with_spec v1_example_frame_def)
  obtain buf' where b: "protocolV1_Unpack circ_ops stored_gz None Header_zero ?ctx (circ_with (v1_example_frame @ [19, 1])) =
      Some (?ctx\<lparr>ctx_beginUnpack := False\<rparr>, buf', Some \<lparr>pk_Metadata = Some (v1_received ?ctx ?md), pk_Body = [4, 5, 6]\<rparr>, True, None)"
    "circ_content buf' = [19, 1]"
    using circ.protocolV1_Unpack_refines [OF circ_with_spec(1), of stored_gz None ?ctx] v1_step_frame [OF ok(1,2) ctx ok(3), of "[19, 1]"] c
    by metis
  have "?ctx\<lparr>ctx_beginUnpack := False\<rparr> = ?ctx" by (simp add: NewContext_def)
  then show ?thesis
    using v1_readers_agree [OF circ.ring_reader_axioms circ_with_spec(1) ctx b(1), of Header_zero] b(2)
    by (simp add: circ_with_spec)
qed

text \<open>
  C11. On any buffer and in any context \<open>Unpack\<close> returns without a panic, having consumed a prefix of the buffer.
  It keeps a half-read header in the context exactly when it is neither done nor failed, so that the next
  call can continue, and a packet reported as done is there.
\<close>

theorem v1_Unpack_total:
  assumes "ring_reader rb content ok" "ok buf"
  shows "\<exists>ctx' buf' packet fin err k. protocolV1_Unpack rb gz zr pooled ctx buf = Some (ctx', buf', packet, fin, err) \<and>
    ok buf' \<and> content buf' = drop k (content buf) \<and> (ctx_Header ctx' = None \<longleftrightarrow> fin \<or> err \<noteq> None) \<and>
    \<not> (fin \<and> (packet = None \<or> err \<noteq> None))"
proof -
  obtain ctx1 c1 p1 d1 e1 where st: "v1_step gz zr ctx (content buf) = (ctx1, c1, p1, d1, e1)"
    by (metis prod_cases5)
  obtain buf' where b: "protocolV1_Unpack rb gz zr pooled ctx buf = Some (ctx1, buf', p1, d1, e1)" "ok buf'" "content buf' = c1"
    using ring_reader.protocolV1_Unpack_refines [OF assms st, of pooled] by blast
  obtain k where "c1 = drop k (content buf)" "ctx_Header ctx1 = None \<longleftrightarrow> d1 \<or> e1 \<noteq> None" "\<not> (d1 \<and> (p1 = None \<or> e1 \<noteq> None))"
    using v1.frame_step_result [OF st [unfolded v1_step_frame_step]] by (elim conjE exE)
  with b show ?thesis by (intro exI conjI) simp_all
qed

theorem v1_Unpack_total_witness:
  "\<exists>ctx' buf' packet fin err k. protocolV1_Unpack circ_ops stored_gz None Header_zero
      (NewContext ClientSide :: (Header, unit) Context) (circ_with [17, 2, 0]) = Some (ctx', buf', packet, fin, err) \<and>
    circ_inv buf' \<and> circ_content buf' = drop k [17, 2, 0] \<and> (ctx_Header ctx' = None \<longleftrightarrow> fin \<or> err \<noteq> None) \<and>
    \<not> (fin \<and> (packet = None \<or> err \<noteq> None))"
  using v1_Unpack_total [OF circ.ring_reader_axioms circ_with_spec(1) [of "[17, 2, 0]"], of stored_gz None Header_zero
      "NewContext ClientSide :: (Header, unit) Context"]
  unfolding circ_with_spec(2) .

lemma finish_packet_result:
  "finish_packet gz zr h md body tl' = (p, e) \<Longrightarrow> \<exists>md'. pk_Metadata p = Some md' \<and> md_Values md' = md_Values md"
  by (auto simp: finish_packet_def Let_def split: prod.splits if_splits)

lemma v1_bytes_spec_result:
  assumes "v1_bytes_spec gz zr ctx bs = (ctx', packet, err)"
  shows "ctx_Header ctx' = None" "ctx_beginUnpack ctx' \<longleftrightarrow> err \<noteq> None"
    "err = None \<Longrightarrow> \<exists>p md. packet = Some p \<and> pk_Metadata p = Some md \<and> md_Values md = None"
proof -
  obtain h r where u: "v1_Header_UnpackBytes (current_header ctx) bs = Some (h, r)"
    using v1_Header_UnpackBytes_total by blast
  have v: "md_Values (Header_Metadata h ctx) = None" by (simp add: Header_Metadata_def Metadata_zero_def Let_def)
  define f where "f = finish_packet gz zr h (Header_Metadata h ctx)
      (take (unat (h_BodyLength h)) (projr r)) (drop (unat (h_BodyLength h)) (projr r))"
  obtain p e where f': "f = (p, e)" by fastforce
  have *: "\<exists>md'. pk_Metadata p = Some md' \<and> md_Values md' = None"
    using finish_packet_result [OF f' [unfolded f_def]] v by simp
  note d = assms [unfolded v1_bytes_spec_def u option.sel Let_def case_prod_conv]
  show "ctx_Header ctx' = None" "ctx_beginUnpack ctx' \<longleftrightarrow> err \<noteq> None"
    "err = None \<Longrightarrow> \<exists>p md. packet = Some p \<and> pk_Metadata p = Some md \<and> md_Values md = None"
    using d f' * by (cases r; cases e; auto simp: f_def split: if_splits)+
qed

text \<open>
  C12. On any byte slice and in any context \<open>UnpackBytes\<close> returns without a panic and releases the header:
  no input can leave a half-read frame behind or make it index out of range.  It leaves the unpacking
  state exactly when there is no error; then there is a packet, whose metadata never has values.
\<close>

theorem v1_UnpackBytes_total:
  "\<exists>ctx' packet err. protocolV1_UnpackBytes gz zr pooled ctx bs = Some (ctx', packet, err) \<and>
     ctx_Header ctx' = None \<and> (InUnpack ctx' \<longleftrightarrow> err \<noteq> None) \<and>
     (case err of Some e \<Rightarrow> True
      | None \<Rightarrow> (\<exists>p md. packet = Some p \<and> pk_Metadata p = Some md \<and> md_Values md = None))"
proof -
  obtain ctx' packet err where s: "v1_bytes_spec gz zr ctx bs = (ctx', packet, err)" by (metis prod_cases3)
  from v1_bytes_spec_result [OF s] show ?thesis
    by (cases err) (auto simp: protocolV1_UnpackBytes_eq s InUnpack_def)
qed

end
