(* ===== verification/V2_Header.thy ===== *)
theory V2_Header
  imports V1
begin

text \<open>
  The version 2 frame header (\<open>go/v2/v2_header.go\<close>).

  The header embeds the version 1 header and adds a 16-bit metadata length, which the frame carries before
  the body length; the record extends \<open>Header\<close> by that field.  The operations are written out as the
  source does, which repeats the code of version 1.  The lemmas reduce them to the frame layout
  \<open>v2_wire\<close> in the same way as for version 1, with the prefix of the layout shared.
\<close>

definition MaxMetadataLength :: int where "MaxMetadataLength = 2 ^ 16 - 1"

definition v2_RequestHeaderLen :: nat where "v2_RequestHeaderLen = v1_RequestHeaderLen + 2"
definition v2_ResponseHeaderLen :: nat where "v2_ResponseHeaderLen = v1_ResponseHeaderLen + 2"
definition v2_PushHeaderLen :: nat where "v2_PushHeaderLen = v1_PushHeaderLen + 2"

record v2_Header = Header +
  h_MetadataLength :: "16 word"

definition v2_Header_UnpackBytes :: "v2_Header \<Rightarrow> bytes \<Rightarrow> (v2_Header \<times> (error + bytes)) go" where
  "v2_Header_UnpackBytes h frame =
     (if length frame = 0 then Some (h, Inl ErrInvalidFrame)
      else do {
        let i = 0;
        b \<leftarrow> idx frame i;
        let i = i + 1;
        let h = set_flags h b;
        (if IsUnknownPacket h then Some (h, Inl ErrUnknowPacket)
         else do {
           let t = h_Type h;
           let remainLen = (if t = v1_RequestPacket then v2_RequestHeaderLen - 1
                            else if t = v1_ResponsePacket then v2_ResponseHeaderLen - 1
                            else v2_PushHeaderLen - 1);
           (if length frame < remainLen + 1 then Some (h, Inl ErrInvalidFrame)
            else do {
              c \<leftarrow> idx frame i;
              let h = h\<lparr>h_CmdCode := c\<rparr>;
              let i = i + 1;
              (h, i) \<leftarrow>
                (if t = v1_RequestPacket \<or> t = v1_ResponsePacket then do {
                   s \<leftarrow> slice frame i (i + 4);
                   v \<leftarrow> be_Uint32 s;
                   Some (h\<lparr>h_RequestId := v\<rparr>, i + 4) }
                 else Some (h, i));
              (h, i) \<leftarrow>
                (if t = v1_RequestPacket then do {
                   s \<leftarrow> slice frame i (i + 2);
                   v \<leftarrow> be_Uint16 s;
                   Some (h\<lparr>h_Timeout := v\<rparr>, i + 2) }
                 else Some (h, i));
              (h, i) \<leftarrow>
                (if t = v1_ResponsePacket then do {
                   v \<leftarrow> idx frame i;
                   Some (h\<lparr>h_StatusCode := v\<rparr>, i + 1) }
                 else Some (h, i));
              s \<leftarrow> slice frame i (i + 2);
              v \<leftarrow> be_Uint16 s;
              let h = h\<lparr>h_MetadataLength := v\<rparr>;
              let i = i + 2;
              fb \<leftarrow> idx frame i;
              sb \<leftarrow> idx frame (i + 1);
              tb \<leftarrow> idx frame (i + 2);
              let i = i + 3;
              let h = h\<lparr>h_BodyLength := push_bit 16 (ucast fb) OR push_bit 8 (ucast sb) OR ucast tb\<rparr>;
              body \<leftarrow> slice_from frame i;
              Some (h, Inr body) }) }) })"

definition v2_Header_length :: "v2_Header \<Rightarrow> nat" where
  "v2_Header_length h =
     (if h_Type h = v1_RequestPacket then v2_RequestHeaderLen
      else if h_Type h = v1_ResponsePacket then v2_ResponseHeaderLen
      else v2_PushHeaderLen)"

definition v2_Header_Pack :: "v2_Header \<Rightarrow> (error + bytes) go" where
  "v2_Header_Pack h =
     (if IsUnknownPacket h then Some (Inl ErrUnknowPacket)
      else if unat (h_BodyLength h) > MaxBodyLength then Some (Inl ErrBodyLenHitLimit)
      else do {
        let len = v2_Header_length h;
        let data = replicate len 0;
        let i = 0;
        let b = (h_Type h AND 0xf) OR push_bit 4 (h_Verify h AND 1) OR push_bit 5 (h_Gzip h AND 1)
                  OR push_bit 6 (h_Reserve h AND 3);
        data \<leftarrow> upd data i b;
        let i = i + 1;
        data \<leftarrow> upd data i (h_CmdCode h);
        let i = i + 1;
        let t = h_Type h;
        (data, i) \<leftarrow>
          (if t = v1_RequestPacket \<or> t = v1_ResponsePacket then do {
             data \<leftarrow> put_at data i (be_PutUint32 (h_RequestId h));
             let i = i + 4;
             (data, i) \<leftarrow>
               (if t = v1_RequestPacket then do {
                  data \<leftarrow> put_at data i (be_PutUint16 (h_Timeout h));
                  Some (data, i + 2) }
                else Some (data, i));
             (if t = v1_ResponsePacket then do {
                data \<leftarrow> upd data i (h_StatusCode h);
                Some (data, i + 1) }
              else Some (data, i)) }
           else Some (data, i));
        data \<leftarrow> put_at data i (be_PutUint16 (h_MetadataLength h));
        let i = i + 2;
        data \<leftarrow> upd data i (ucast (drop_bit 16 (h_BodyLength h)));
        data \<leftarrow> upd data (i + 1) (ucast (drop_bit 8 (h_BodyLength h)));
        data \<leftarrow> upd data (i + 2) (ucast (h_BodyLength h));
        Some (Inr data) })"

definition v2_Header_Unpack ::
    "'b rb_ops \<Rightarrow> v2_Header \<Rightarrow> 'b \<Rightarrow> (v2_Header \<times> 'b \<times> bool \<times> error option) go" where
  "v2_Header_Unpack rb h buf =
     (if rb_Length rb buf = 0 then Some (h, buf, False, None)
      else if h_IsUnpacked h then Some (h, buf, True, None)
      else do {
        let (h, buf) =
          (if \<not> h_BeginUnpack h then
             let b = rb_PeekUint8 rb buf;
                 h = set_flags (h\<lparr>h_BeginUnpack := True\<rparr>) b
             in (h, rb_Retrieve rb buf 1)
           else (h, buf));
        (if IsUnknownPacket h then Some (h, buf, False, Some ErrUnknowPacket)
         else do {
           let t = h_Type h;
           let remainLen = (if t = v1_RequestPacket then v2_RequestHeaderLen - 1
                            else if t = v1_ResponsePacket then v2_ResponseHeaderLen - 1
                            else v2_PushHeaderLen - 1);
           (if rb_Length rb buf < remainLen then Some (h, buf, False, None)
            else do {
              let h = h\<lparr>h_IsUnpacked := True\<rparr>;
              let h = h\<lparr>h_CmdCode := rb_PeekUint8 rb buf\<rparr>;
              let buf = rb_Retrieve rb buf 1;
              let (h, buf) =
                (if t = v1_RequestPacket \<or> t = v1_ResponsePacket
                 then (h\<lparr>h_RequestId := rb_PeekUint32 rb buf\<rparr>, rb_Retrieve rb buf 4)
                 else (h, buf));
              let (h, buf) =
                (if t = v1_RequestPacket
                 then (h\<lparr>h_Timeout := rb_PeekUint16 rb buf\<rparr>, rb_Retrieve rb buf 2)
                 else (h, buf));
              let (h, buf) =
                (if t = v1_ResponsePacket
                 then (h\<lparr>h_StatusCode := rb_PeekUint8 rb buf\<rparr>, rb_Retrieve rb buf 1)
                 else (h, buf));
              let h = h\<lparr>h_MetadataLength := rb_PeekUint16 rb buf\<rparr>;
              let buf = rb_Retrieve rb buf 2;
              let (f, e) = rb_Peek rb buf 3;
              let buf = rb_Retrieve rb buf 3;
              (fb, sb, tb) \<leftarrow> peek3_bytes f e;
              Some (h\<lparr>h_BodyLength := push_bit 16 (ucast fb) OR push_bit 8 (ucast sb) OR ucast tb\<rparr>,
                    buf, True, None) }) }) })"

subsection \<open>Pool and conversions\<close>

definition v2_Header_zero :: v2_Header where
  "v2_Header_zero =
     \<lparr>h_RequestId = 0, h_BodyLength = 0, h_Timeout = 0, h_Type = 0, h_Verify = 0, h_Gzip = 0,
      h_Reserve = 0, h_CmdCode = 0, h_StatusCode = 0, h_BeginUnpack = False, h_IsUnpacked = False,
      h_MetadataLength = 0\<rparr>"

definition v2_headerPool_Get :: "v2_Header \<Rightarrow> v2_Header" where
  "v2_headerPool_Get v =
     v\<lparr>h_Type := 0, h_Verify := 0, h_Gzip := 0, h_Reserve := 0, h_CmdCode := 0, h_Timeout := 0,
       h_RequestId := 0, h_StatusCode := 0, h_BodyLength := 0, h_MetadataLength := 0,
       h_BeginUnpack := False, h_IsUnpacked := False\<rparr>"

definition v2_headerFromContext ::
    "v2_Header \<Rightarrow> (v2_Header, 'i) Context \<Rightarrow> (v2_Header, 'i) Context \<times> v2_Header" where
  "v2_headerFromContext pooled ctx =
     (case GetHeader ctx of
        None \<Rightarrow> let h = v2_headerPool_Get pooled in (SetHeader ctx (Some h), h)
      | Some h \<Rightarrow> (ctx, h))"

definition v2_headerFromMetadata :: "v2_Header \<Rightarrow> Metadata \<Rightarrow> v2_Header" where
  "v2_headerFromMetadata pooled md =
     (let h = v2_headerPool_Get pooled;
          h = (if md_Gzip md then h\<lparr>h_Gzip := 1\<rparr> else h);
          h = (if md_Verify md then h\<lparr>h_Verify := 1\<rparr> else h);
          h = (if md_Type md = RequestPacket then h\<lparr>h_Type := v1_RequestPacket\<rparr>
               else if md_Type md = ResponsePacket then h\<lparr>h_Type := v1_ResponsePacket\<rparr>
               else if md_Type md = PushPacket then h\<lparr>h_Type := v1_PushPacket\<rparr>
               else h)
      in h\<lparr>h_RequestId := md_RequestId md, h_CmdCode := ucast (md_CmdCode md AND 0xff),
           h_Timeout := md_Timeout md, h_StatusCode := md_StatusCode md\<rparr>)"

subsection \<open>The frame layout\<close>

definition v2_wire :: "v2_Header \<Rightarrow> bytes" where
  "v2_wire h = flags_byte h # prefix_bytes h @ be_PutUint16 (h_MetadataLength h) @ put24 (h_BodyLength h)"

definition v2_lengths :: "v2_Header \<Rightarrow> bytes \<Rightarrow> v2_Header" where
  "v2_lengths h bs = set_length (h\<lparr>h_MetadataLength := dec16 (take 2 bs)\<rparr>) (drop 2 bs)"

definition v2_fields :: "v2_Header \<Rightarrow> bytes \<Rightarrow> v2_Header" where
  "v2_fields h bs = v2_lengths (set_prefix h bs) (drop (prefix_len (h_Type h)) bs)"

definition v2_header_step :: "v2_Header \<Rightarrow> bytes \<Rightarrow> v2_Header \<times> bytes \<times> bool \<times> error option" where
  "v2_header_step = header_step v2_fields 5"

lemmas v2_header_step_eq = header_step_def [of v2_fields 5, folded v2_header_step_def]

lemmas v2_lens = v2_RequestHeaderLen_def v2_ResponseHeaderLen_def v2_PushHeaderLen_def
  v1_RequestHeaderLen_def v1_ResponseHeaderLen_def v1_PushHeaderLen_def prefix_len_def

lemma length_v2_wire: "length (v2_wire h) = prefix_len (h_Type h) + 6"
  by (simp add: v2_wire_def)

lemma v2_Header_Pack_eq:
  "v2_Header_Pack h =
     Some (if \<not> known_type (h_Type h) then Inl ErrUnknowPacket
           else if unat (h_BodyLength h) > MaxBodyLength then Inl ErrBodyLenHitLimit
           else Inr (v2_wire h))"
proof (cases "known_type (h_Type h)")
  case True
  then show ?thesis
    by (cases rule: known_cases)
       (simp_all add: v2_Header_Pack_def IsUnknownPacket_def v2_Header_length_def v2_lens known_type_def numeral_eq_Suc
        upd_def put_at_def v2_wire_def flags_byte_def prefix_bytes_def put24_def be_PutUint32_def be_PutUint16_def)
next
  case False
  then show ?thesis by (simp add: v2_Header_Pack_def IsUnknownPacket_iff)
qed

lemma v2_Header_UnpackBytes_eq:
  "v2_Header_UnpackBytes h frame =
     Some (case frame of
       [] \<Rightarrow> (h, Inl ErrInvalidFrame)
     | b # bs \<Rightarrow>
         let h1 = set_flags h b in
         if \<not> known_type (h_Type h1) then (h1, Inl ErrUnknowPacket)
         else if length bs < prefix_len (h_Type h1) + 5 then (h1, Inl ErrInvalidFrame)
         else (v2_fields h1 bs, Inr (drop (prefix_len (h_Type h1) + 5) bs)))"
proof (cases frame)
  case Nil
  then show ?thesis by (simp add: v2_Header_UnpackBytes_def)
next
  case (Cons b bs)
  define h1 where "h1 = set_flags h b"
  show ?thesis
  proof (cases "known_type (h_Type h1)")
    case False
    with Cons show ?thesis by (simp add: v2_Header_UnpackBytes_def h1_def IsUnknownPacket_iff)
  next
    case True
    have len: "(if h_Type h1 = v1_RequestPacket then v2_RequestHeaderLen - 1
               else if h_Type h1 = v1_ResponsePacket then v2_ResponseHeaderLen - 1
               else v2_PushHeaderLen - 1) = prefix_len (h_Type h1) + 5"
      by (simp add: v2_lens)
    show ?thesis
    proof (cases "length bs < prefix_len (h_Type h1) + 5")
      case short: True
      with Cons True show ?thesis
        by (simp add: v2_Header_UnpackBytes_def h1_def [symmetric] IsUnknownPacket_iff len Let_def)
    next
      case False
      then have "bs \<noteq> []" by auto
      from True show ?thesis
        using False Cons \<open>bs \<noteq> []\<close>
        by (cases rule: known_cases)
           (simp_all add: v2_Header_UnpackBytes_def h1_def [symmetric] IsUnknownPacket_def Let_def
            v2_lens known_type_def idx_def slice_def slice_from_def be_Uint_dec
            v2_fields_def v2_lengths_def set_prefix_def set_length_def be24_def add.commute numeral_2_eq_2)
    qed
  qed
qed

context ring_reader
begin

lemma v2_Header_Unpack_refines:
  assumes "inv buf" and "v2_header_step h (content buf) = (h', c', done, err)"
  shows "\<exists>buf'. v2_Header_Unpack rb h buf = Some (h', buf', done, err) \<and> inv buf' \<and> content buf' = c'"
proof (cases "content buf = [] \<or> h_IsUnpacked h")
  case True
  with assms show ?thesis by (auto simp: v2_header_step_eq v2_Header_Unpack_def Length)
next
  case False
  define h1 where "h1 = (if h_BeginUnpack h then h else set_flags (h\<lparr>h_BeginUnpack := True\<rparr>) (content buf ! 0))"
  define buf1 where "buf1 = (if h_BeginUnpack h then buf else rb_Retrieve rb buf 1)"
  define c1 where "c1 = (if h_BeginUnpack h then content buf else tl (content buf))"
  have 1: "inv buf1" "content buf1 = c1"
    using False assms(1) by (cases "content buf"; simp add: buf1_def c1_def Retrieve)+
  have hd: "hd (content buf) = content buf ! 0" using False by (simp add: hd_conv_nth)
  have s: "(if \<not> h_BeginUnpack h then
             let b = rb_PeekUint8 rb buf; h = set_flags (h\<lparr>h_BeginUnpack := True\<rparr>) b
             in (h, rb_Retrieve rb buf 1)
           else (h, buf)) = (h1, buf1)"
    using False assms(1) by (simp add: h1_def buf1_def PeekUint8_nth Suc_le_eq)
  show ?thesis
  proof (cases "known_type (h_Type h1)")
    case unknown: False
    with False assms 1 show ?thesis
      by (auto simp: v2_header_step_eq v2_Header_Unpack_def Length s IsUnknownPacket_iff h1_def c1_def hd Let_def)
  next
    case known: True
    have st: "v2_header_step h (content buf) =
        (if length c1 < prefix_len (h_Type h1) + 5 then (h1, c1, False, None)
         else (v2_fields (h1\<lparr>h_IsUnpacked := True\<rparr>) c1, drop (prefix_len (h_Type h1) + 5) c1, True, None))"
      using False known by (cases "h_BeginUnpack h") (simp_all add: v2_header_step_eq h1_def c1_def hd)
    show ?thesis
    proof (cases "length c1 < prefix_len (h_Type h1) + 5")
      case True
      from known show ?thesis
        using True False assms 1
        by (cases rule: known_cases)
           (auto simp: st v2_Header_Unpack_def s IsUnknownPacket_def known_type_def Length Let_def v2_lens)
    next
      case enough: False
      from known show ?thesis
        using False enough assms 1
        by (cases rule: known_cases)
           (auto simp: st v2_Header_Unpack_def s IsUnknownPacket_def known_type_def v2_lens
            buffer_simps Let_def v2_fields_def v2_lengths_def set_prefix_def set_length_def be24_def add.commute)
    qed
  qed
qed

end

subsection \<open>Round trip of the header fields\<close>

lemma v2_fields_wire:
  assumes "h_Type h = h_Type src" and "unat (h_BodyLength src) < 2 ^ 24"
  shows "v2_fields h (prefix_bytes src @ be_PutUint16 (h_MetadataLength src) @ put24 (h_BodyLength src) @ rest) =
     (copy_prefix h src)\<lparr>h_BodyLength := h_BodyLength src, h_MetadataLength := h_MetadataLength src\<rparr>"
proof -
  have "drop (prefix_len (h_Type h)) (prefix_bytes src @ be_PutUint16 (h_MetadataLength src) @ put24 (h_BodyLength src) @ rest) =
      be_PutUint16 (h_MetadataLength src) @ put24 (h_BodyLength src) @ rest"
    using assms(1) by simp
  then show ?thesis
    using assms by (simp add: v2_fields_def v2_lengths_def set_prefix_bytes set_length_put24 dec_Put)
qed

lemma v2_headerPool_Get_zero [simp]: "v2_headerPool_Get v = v2_Header_zero"
  by (simp add: v2_headerPool_Get_def v2_Header_zero_def)

lemma v2_fields_append:
  "prefix_len (h_Type h) + 5 \<le> length c \<Longrightarrow> v2_fields h (c @ d) = v2_fields h c"
  by (simp add: v2_fields_def v2_lengths_def set_prefix_append set_length_append)

lemma v2_fields_IsUnpacked [simp]: "h_IsUnpacked (v2_fields h c) = h_IsUnpacked h"
  by (simp add: v2_fields_def v2_lengths_def set_prefix_def set_length_def Let_def)

lemma v2_headerFromMetadata_pooled: "v2_headerFromMetadata pooled md = v2_headerFromMetadata v2_Header_zero md"
  by (simp add: v2_headerFromMetadata_def)

lemma v2_headerFromMetadata_fields:
  "h_RequestId (v2_headerFromMetadata p md) = md_RequestId md"
  "h_Timeout (v2_headerFromMetadata p md) = md_Timeout md"
  "h_StatusCode (v2_headerFromMetadata p md) = md_StatusCode md"
  "h_CmdCode (v2_headerFromMetadata p md) = ucast (md_CmdCode md AND 0xff)"
  "h_Verify (v2_headerFromMetadata p md) = (if md_Verify md then 1 else 0)"
  "h_Gzip (v2_headerFromMetadata p md) = (if md_Gzip md then 1 else 0)"
  "h_Reserve (v2_headerFromMetadata p md) = 0"
  "h_Type (v2_headerFromMetadata p md) =
     (if md_Type md = RequestPacket then v1_RequestPacket
      else if md_Type md = ResponsePacket then v1_ResponsePacket
      else if md_Type md = PushPacket then v1_PushPacket else 0)"
  by (auto simp: v2_headerFromMetadata_def v2_Header_zero_def Let_def)

interpretation v2h: header_layout v2_fields 5
  by unfold_locales (simp_all add: v2_fields_append)

lemmas v2_header_step_rest = v2h.step_rest [folded v2_header_step_def]

end
