(* ===== verification/V2.thy ===== *)
theory V2
  imports V2_Header
begin

text \<open>
  Protocol version 2 (\<open>go/v2/v2.go\<close>): frames with a metadata section between header and body.

  The structure is that of version 1; in addition \<open>uni\<close> is Go's Unicode lower-casing of non-ASCII strings, and \<open>ord\<close> the
  order in which \<open>Pack\<close> ranges over the value map.  \<open>Pack\<close> writes nonce and signature of a signed
  packet right after the place where a body without metadata would end (index \<open>hl+bl\<close>), as the source does, so
  the frames of signed packets with metadata are not what the readers expect; the round trips
  are stated for the other packets and the defect is a theorem of its own.
\<close>

definition protocolV2_Version :: "8 word" where "protocolV2_Version = 2"

definition protocolV2_UnpackBytes ::
    "(bytes \<Rightarrow> bytes) \<Rightarrow> ('w, 'r) gz_lib \<Rightarrow> 'r option \<Rightarrow> v2_Header \<Rightarrow> (v2_Header, 'i) Context \<Rightarrow> bytes
     \<Rightarrow> ((v2_Header, 'i) Context \<times> Packet option \<times> error option) go" where
  "protocolV2_UnpackBytes uni gz zr pooled ctx bs = do {
     let ctx = BeginUnpack ctx;
     let (ctx, header) = v2_headerFromContext pooled ctx;
     let ret = (\<lambda>ctx packet err. Some (SetHeader ctx None, packet, err));
     (header, r) \<leftarrow> v2_Header_UnpackBytes header bs;
     (case r of
        Inl e \<Rightarrow> ret ctx None (Some e)
      | Inr data \<Rightarrow>
          if length data < unat (h_BodyLength header) + unat (h_MetadataLength header)
          then ret ctx None (Some ErrInvalidFrame)
          else do {
            md \<leftarrow> slice data 0 (unat (h_MetadataLength header));
            body \<leftarrow> slice data (unat (h_MetadataLength header))
                      (unat (h_BodyLength header + ucast (h_MetadataLength header)));
            let packet = \<lparr>pk_Metadata = Some (Header_Metadata header ctx), pk_Body = body\<rparr>;
            (packet, err) \<leftarrow> Packet_UnmarshalMetadata uni packet md;
            (case err of
               Some e \<Rightarrow> ret ctx (Some packet) (Some e)
             | None \<Rightarrow> do {
                 (packet, err) \<leftarrow>
                   (if h_Verify header = 1 then
                      let i = unat (h_BodyLength header) + unat (h_MetadataLength header) in
                      if length data < i + NonceLength + SignatureLength then Some (packet, Some ErrInvalidFrame)
                      else do {
                        s \<leftarrow> slice data i (i + NonceLength);
                        nonce \<leftarrow> be_Uint64 s;
                        signature \<leftarrow> slice_from data (i + NonceLength);
                        md \<leftarrow> pk_Metadata packet;
                        Some (packet\<lparr>pk_Metadata := Some (md\<lparr>md_Nonce := nonce, md_Signature := signature\<rparr>)\<rparr>, None) }
                    else Some (packet, None));
                 (case err of
                    Some e \<Rightarrow> ret ctx (Some packet) (Some e)
                  | None \<Rightarrow>
                      if h_Gzip header = 1 then do {
                        (body, _, err) \<leftarrow> gzip_Decompress gz zr (pk_Body packet);
                        let packet = packet\<lparr>pk_Body := body\<rparr>;
                        (case err of
                           Some e \<Rightarrow> ret ctx (Some packet) (Some e)
                         | None \<Rightarrow> ret (EndUnpack ctx) (Some packet) None) }
                      else ret (EndUnpack ctx) (Some packet) None) }) }) }"

definition protocolV2_Unpack ::
    "'b rb_ops \<Rightarrow> (bytes \<Rightarrow> bytes) \<Rightarrow> ('w, 'r) gz_lib \<Rightarrow> 'r option \<Rightarrow> v2_Header \<Rightarrow> (v2_Header, 'i) Context \<Rightarrow> 'b
     \<Rightarrow> ((v2_Header, 'i) Context \<times> 'b \<times> Packet option \<times> bool \<times> error option) go" where
  "protocolV2_Unpack rb uni gz zr pooled ctx buf = do {
     let ctx = BeginUnpack ctx;
     let (ctx, header) = v2_headerFromContext pooled ctx;
     let ret = (\<lambda>ctx buf packet done err.
       Some (if done \<or> err \<noteq> None then SetHeader ctx None else ctx, buf, packet, done, err));
     (header, buf, ok, e) \<leftarrow>
       (if \<not> Unpacked header then v2_Header_Unpack rb header buf
        else Some (header, buf, True, None));
     let ctx = SetHeader ctx (Some header);
     (case e of
        Some e \<Rightarrow> ret ctx buf None False (Some e)
      | None \<Rightarrow>
          if \<not> ok then ret ctx buf None False None
          else do {
            let len = unat (h_BodyLength header) + unat (h_MetadataLength header);
            let len = (if h_Verify header = 1 then len + NonceLength + SignatureLength else len);
            (if rb_Length rb buf < len then ret ctx buf None False None
             else do {
               let (buf, md, err) = read_full rb buf (unat (h_MetadataLength header));
               (case err of
                  Some e \<Rightarrow> ret ctx buf None False (Some e)
                | None \<Rightarrow> do {
                    let (buf, body, err) = read_full rb buf (unat (h_BodyLength header));
                    (case err of
                       Some e \<Rightarrow> ret ctx buf None False (Some e)
                     | None \<Rightarrow> do {
                         let packet = \<lparr>pk_Metadata = Some (Header_Metadata header ctx), pk_Body = body\<rparr>;
                         (packet, err) \<leftarrow> Packet_UnmarshalMetadata uni packet md;
                         (case err of
                            Some e \<Rightarrow> ret ctx buf (Some packet) False (Some e)
                          | None \<Rightarrow> do {
                              (buf, packet, err) \<leftarrow>
                                (if h_Verify header = 1 then do {
                                   md \<leftarrow> pk_Metadata packet;
                                   let md = md\<lparr>md_Nonce := rb_PeekUint64 rb buf\<rparr>;
                                   let buf = rb_Retrieve rb buf NonceLength;
                                   let (buf, s, err) = read_full rb buf SignatureLength;
                                   let md = (if err = None then md\<lparr>md_Signature := s\<rparr> else md);
                                   Some (buf, packet\<lparr>pk_Metadata := Some md\<rparr>, err) }
                                 else Some (buf, packet, None));
                              (case err of
                                 Some e \<Rightarrow> ret ctx buf (Some packet) False (Some e)
                               | None \<Rightarrow> do {
                                   (packet, err) \<leftarrow>
                                     (if h_Gzip header = 1 then do {
                                        (body, _, err) \<leftarrow> gzip_Decompress gz zr (pk_Body packet);
                                        Some (packet\<lparr>pk_Body := body\<rparr>, err) }
                                      else Some (packet, None));
                                   (case err of
                                      Some e \<Rightarrow> ret ctx buf (Some packet) False (Some e)
                                    | None \<Rightarrow> ret (EndUnpack ctx) buf (Some packet) True None) }) }) }) }) }) }) }"

definition protocolV2_Pack ::
    "bytes list \<Rightarrow> ('w, 'r) gz_lib \<Rightarrow> int \<Rightarrow> v2_Header \<Rightarrow> Packet \<Rightarrow> PackOption list
     \<Rightarrow> (Packet \<times> (error + bytes)) go" where
  "protocolV2_Pack ord gz level pooled packet opts = do {
     let o' = NewPackOptions opts;
     let bl = length (pk_Body packet);
     (packet, bl, err) \<leftarrow>
       (if MinGzipSize o' \<noteq> 0 \<and> int bl \<ge> MinGzipSize o' then
          let (body, err) = gzip_Compress gz level (pk_Body packet);
              packet = packet\<lparr>pk_Body := body\<rparr>
          in (case err of
                Some e \<Rightarrow> Some (packet, bl, Some e)
              | None \<Rightarrow> do {
                  md \<leftarrow> pk_Metadata packet;
                  Some (packet\<lparr>pk_Metadata := Some (md\<lparr>md_Gzip := True\<rparr>)\<rparr>, length body, None) })
        else Some (packet, bl, None));
     (case err of
        Some e \<Rightarrow> Some (packet, Inl e)
      | None \<Rightarrow>
          if bl > MaxBodyLength then Some (packet, Inl ErrBodyLenHitLimit)
          else do {
            pmd \<leftarrow> pk_Metadata packet;
            let h = v2_headerFromMetadata pooled pmd;
            md \<leftarrow> Packet_MarshalMetadata ord packet MaxMetadataLength;
            let h = h\<lparr>h_MetadataLength := word_of_nat (length md)\<rparr>;
            let h = h\<lparr>h_BodyLength := word_of_nat bl\<rparr>;
            r \<leftarrow> v2_Header_Pack h;
            (case r of
               Inl e \<Rightarrow> Some (packet, Inl e)
             | Inr hd' \<Rightarrow> do {
                 let hl = (if h_Type h = v1_RequestPacket then v2_RequestHeaderLen
                           else if h_Type h = v1_ResponsePacket then v2_ResponseHeaderLen
                           else if h_Type h = v1_PushPacket then v2_PushHeaderLen
                           else 0);
                 let l = hl + bl + length md;
                 let l = (if md_Verify pmd then l + NonceLength + SignatureLength else l);
                 let data = replicate l 0;
                 data \<leftarrow> copy_at data 0 hd';
                 data \<leftarrow> copy_at data (length hd') md;
                 data \<leftarrow> copy_at data (length hd' + length md) (pk_Body packet);
                 data \<leftarrow>
                   (if md_Verify pmd then do {
                      data \<leftarrow> put_at data (hl + bl) (be_PutUint64 (md_Nonce pmd));
                      copy_at data (hl + bl + NonceLength) (md_Signature pmd) }
                    else Some data);
                 Some (packet, Inr data) }) }) }"

subsection \<open>Frames as byte lists\<close>

definition unmarshal :: "(bytes \<Rightarrow> bytes) \<Rightarrow> Metadata \<Rightarrow> bytes \<Rightarrow> Metadata \<times> error option" where
  "unmarshal uni md data = (case UnmarshalValues uni md data of None \<Rightarrow> (md, None) | Some r \<Rightarrow> r)"

definition v2_size :: "v2_Header \<Rightarrow> nat" where
  "v2_size h = unat (h_BodyLength h) + unat (h_MetadataLength h) + tail_len h"

text \<open>What follows the header, given all of its bytes: metadata section, body, signed tail.\<close>

definition v2_finish ::
    "(bytes \<Rightarrow> bytes) \<Rightarrow> ('w, 'r) gz_lib \<Rightarrow> 'r option \<Rightarrow> v2_Header \<Rightarrow> (v2_Header, 'i) Context \<Rightarrow> bytes
     \<Rightarrow> Packet \<times> nat \<times> error option" where
  "v2_finish uni gz zr h ctx bs =
     (let ml = unat (h_MetadataLength h); bl = unat (h_BodyLength h); body = take bl (drop ml bs) in
      case unmarshal uni (Header_Metadata h ctx) (take ml bs) of
        (md, Some e) \<Rightarrow> (\<lparr>pk_Metadata = Some md, pk_Body = body\<rparr>, bl + ml, Some e)
      | (md, None) \<Rightarrow>
          (case finish_packet gz zr h md body (drop (bl + ml) bs) of (p, e) \<Rightarrow> (p, v2_size h, e)))"

definition v2_current_header :: "(v2_Header, 'i) Context \<Rightarrow> v2_Header" where
  "v2_current_header ctx = (case ctx_Header ctx of None \<Rightarrow> v2_Header_zero | Some h \<Rightarrow> h)"

definition v2_bytes_spec ::
    "(bytes \<Rightarrow> bytes) \<Rightarrow> ('w, 'r) gz_lib \<Rightarrow> 'r option \<Rightarrow> (v2_Header, 'i) Context \<Rightarrow> bytes
     \<Rightarrow> (v2_Header, 'i) Context \<times> Packet option \<times> error option" where
  "v2_bytes_spec uni gz zr ctx bs =
     (let ctx' = ctx\<lparr>ctx_beginUnpack := True, ctx_Header := None\<rparr> in
      case the (v2_Header_UnpackBytes (v2_current_header ctx) bs) of
        (h, Inl e) \<Rightarrow> (ctx', None, Some e)
      | (h, Inr data) \<Rightarrow>
          let ml = unat (h_MetadataLength h); bl = unat (h_BodyLength h); body = take bl (drop ml data) in
          if length data < bl + ml then (ctx', None, Some ErrInvalidFrame)
          else (case unmarshal uni (Header_Metadata h ctx) (take ml data) of
                  (md, Some e) \<Rightarrow> (ctx', Some \<lparr>pk_Metadata = Some md, pk_Body = body\<rparr>, Some e)
                | (md, None) \<Rightarrow>
                    if length data < bl + ml + tail_len h
                    then (ctx', Some \<lparr>pk_Metadata = Some md, pk_Body = body\<rparr>, Some ErrInvalidFrame)
                    else (case finish_packet gz zr h md body (drop (bl + ml) data) of
                            (p, Some e) \<Rightarrow> (ctx', Some p, Some e)
                          | (p, None) \<Rightarrow> (ctx'\<lparr>ctx_beginUnpack := False\<rparr>, Some p, None))))"

definition v2_step ::
    "(bytes \<Rightarrow> bytes) \<Rightarrow> ('w, 'r) gz_lib \<Rightarrow> 'r option \<Rightarrow> ((v2_Header, 'i) Context, Packet) reader" where
  "v2_step uni gz zr = frame_step h_IsUnpacked v2_Header_zero v2_header_step v2_size (v2_finish uni gz zr)"

lemma UnmarshalValues_total: "UnmarshalValues uni md data = Some (unmarshal uni md data)"
  using unmarshal_loop_total [of uni Map.empty data]
  by (auto simp: unmarshal_def UnmarshalValues_def split: sum.splits)

lemma Packet_UnmarshalMetadata_eq:
  "Packet_UnmarshalMetadata uni \<lparr>pk_Metadata = Some md, pk_Body = body\<rparr> data =
     Some (\<lparr>pk_Metadata = Some (fst (unmarshal uni md data)), pk_Body = body\<rparr>, snd (unmarshal uni md data))"
  by (simp add: Packet_UnmarshalMetadata_def UnmarshalValues_total case_prod_unfold)

lemma v2_headerFromContext_eq:
  "v2_headerFromContext pooled (BeginUnpack ctx) =
     (SetHeader (BeginUnpack ctx) (Some (v2_current_header ctx)), v2_current_header ctx)"
  by (cases ctx) (auto simp: v2_headerFromContext_def v2_current_header_def unpack_ctx_defs split: option.splits)

lemma v2_Header_UnpackBytes_total: "\<exists>h' r. v2_Header_UnpackBytes h bs = Some (h', r)"
  by (simp add: v2_Header_UnpackBytes_eq)

lemma v2_Header_UnpackBytes_small:
  assumes "v2_Header_UnpackBytes h bs = Some (h', Inr data)"
  shows "unat (h_BodyLength h') < 2 ^ 24"
proof -
  have "\<exists>h1 cs. h' = set_length h1 cs"
    using assms by (auto simp: v2_Header_UnpackBytes_eq v2_fields_def v2_lengths_def Let_def split: list.splits if_splits)
  then show ?thesis using be24_unat_less by blast
qed

lemma unat_add_md:
  assumes "unat (b :: 32 word) < 2 ^ 24"
  shows "unat (b + ucast (m :: 16 word)) = unat b + unat m"
proof -
  have m: "unat m < 2 ^ 16" using unsigned_less [of m] by simp
  have "unat (ucast m :: 32 word) = unat m"
    using m by (simp add: unsigned_ucast_eq take_bit_nat_eq_self)
  then show ?thesis using assms m by (simp add: unat_word_ariths)
qed

lemma protocolV2_UnpackBytes_eq:
  "protocolV2_UnpackBytes uni gz zr pooled ctx bs = Some (v2_bytes_spec uni gz zr ctx bs)"
proof -
  obtain h r where u: "v2_Header_UnpackBytes (v2_current_header ctx) bs = Some (h, r)"
    using v2_Header_UnpackBytes_total by blast
  show ?thesis
  proof (cases r)
    case (Inl e)
    with u show ?thesis
      unfolding protocolV2_UnpackBytes_def Let_def v2_headerFromContext_eq case_prod_conv u
      by (simp add: v2_bytes_spec_def unpack_ctx_defs u Let_def)
  next
    case (Inr data)
    define n where "n = unat (h_BodyLength h)"
    define m where "m = unat (h_MetadataLength h)"
    have nm: "unat (h_BodyLength h + ucast (h_MetadataLength h)) = m + n"
      using v2_Header_UnpackBytes_small u Inr by (simp add: unat_add_md n_def m_def)
    define body where "body = take n (drop m data)"
    obtain md er where um: "unmarshal uni (Header_Metadata h ctx) (take m data) = (md, er)" by fastforce
    obtain out ger where gun: "gunzip gz zr body = (out, ger)" by fastforce
    obtain k where g: "gzip_Decompress gz zr body = Some (out, k, ger)"
      using gzip_Decompress_gunzip [of gz zr body] gun by auto
    note unf = protocolV2_UnpackBytes_def Let_def v2_headerFromContext_eq case_prod_conv u bind.bind_lunit Inr
      sum.case nm n_def [symmetric] m_def [symmetric]
    note spec = v2_bytes_spec_def option.sel
    show ?thesis
    proof (cases "length data < n + m")
      case True
      then show ?thesis unfolding unf spec by (simp add: unpack_ctx_defs)
    next
      case False
      then have sl: "slice data 0 m = Some (take m data)" "slice data m (m + n) = Some body"
        by (simp_all add: slice_def body_def)
      note p = Packet_UnmarshalMetadata_eq Header_Metadata_ctx um fst_conv snd_conv
      show ?thesis
      proof (cases er)
        case (Some e)
        with False show ?thesis unfolding unf spec sl p by (simp add: unpack_ctx_defs body_def)
      next
        case None
        consider "h_Verify h = 1" "length data < n + m + 24"
          | "h_Verify h = 1" "\<not> length data < n + m + 24" | "h_Verify h \<noteq> 1" by blast
        then show ?thesis
        proof cases
          case 1
          with False None show ?thesis unfolding unf spec sl p
            by (simp add: unpack_ctx_defs body_def tail_len_def NonceLength_def SignatureLength_def)
        next
          case 2
          then have s: "slice data (n + m) (n + m + NonceLength) = Some (take 8 (drop (n + m) data))"
            "be_Uint64 (take 8 (drop (n + m) data)) = Some (dec64 (take 8 (drop (n + m) data)))"
            "slice_from data (n + m + NonceLength) = Some (drop 8 (drop (n + m) data))"
            by (simp_all add: slice_def slice_from_def NonceLength_def be_Uint_dec add.commute)
          have l: "\<not> length data < n + m + NonceLength + SignatureLength" "\<not> length data < n + m + tail_len h"
            using 2 by (simp_all add: NonceLength_def SignatureLength_def tail_len_def)
          show ?thesis
            using 2(1) False None unfolding unf spec sl p body_def [symmetric]
            by (cases "h_Gzip h = 1"; cases ger)
               (simp_all add: l s g gun unpack_ctx_defs finish_packet_def)
        next
          case 3
          then have l: "\<not> length data < n + m + tail_len h" using False by (simp add: tail_len_def)
          show ?thesis
            using 3 False None unfolding unf spec sl p body_def [symmetric]
            by (cases "h_Gzip h = 1"; cases ger)
               (simp_all add: l g gun unpack_ctx_defs finish_packet_def)
        qed
      qed
    qed
  qed
qed

subsection \<open>The stream reader on the bytes of its buffer\<close>

lemma v2_finish_le: "v2_finish uni gz zr h ctx bs = (p, k, er) \<Longrightarrow> k \<le> v2_size h"
  by (auto simp: v2_finish_def v2_size_def Let_def split: prod.splits option.splits)

interpretation v2: frame_reader h_IsUnpacked v2_Header_zero v2_header_step v2_size "v2_finish uni gz zr" for uni gz zr
proof (unfold_locales, goal_cases)
  case 1
  show ?case by (simp add: v2_Header_zero_def)
next
  case (2 h c h' c' er d)
  from v2h.step_more [OF 2 [unfolded v2_header_step_def]] show ?case by (simp add: v2_header_step_def)
next
  case (3 h c h' c' ok e d)
  from v2h.step_more [OF 3 [unfolded v2_header_step_def]] show ?case by (simp add: v2_header_step_def)
next
  case (4 h c h' c' d)
  from v2h.step_more [OF 4 [unfolded v2_header_step_def]] show ?case by (simp add: v2_header_step_def)
next
  case (5 h c h' c' ok er)
  from v2h.step_prefix [OF 5(2) [unfolded v2_header_step_def]] show ?case .
next
  case (6 h ctx b x bs)
  show ?case by (simp add: v2_finish_def)
next
  case (7 h ctx bs p k er)
  then show ?case by (rule v2_finish_le)
qed

context ring_reader
begin

lemma v2_finish_take:
  "v2_size h \<le> length c \<Longrightarrow> v2_finish uni gz zr h ctx (take (v2_size h) c) =
    (let ml = unat (h_MetadataLength h); bl = unat (h_BodyLength h); body = take bl (drop ml c) in
      case unmarshal uni (Header_Metadata h ctx) (take ml c) of
        (md, Some e) \<Rightarrow> (\<lparr>pk_Metadata = Some md, pk_Body = body\<rparr>, bl + ml, Some e)
      | (md, None) \<Rightarrow>
          (case finish_packet gz zr h md body (take (tail_len h) (drop (bl + ml) c)) of (p, e) \<Rightarrow> (p, v2_size h, e)))"
proof -
  define ml where "ml = unat (h_MetadataLength h)"
  define bl where "bl = unat (h_BodyLength h)"
  have t: "take ml (take (v2_size h) c) = take ml c" "take bl (drop ml (take (v2_size h) c)) = take bl (drop ml c)"
    "drop (bl + ml) (take (v2_size h) c) = take (tail_len h) (drop (bl + ml) c)"
    by (simp_all add: v2_size_def ml_def bl_def drop_take min_def)
  show ?thesis unfolding v2_finish_def Let_def ml_def [symmetric] bl_def [symmetric] t ..
qed

lemma protocolV2_Unpack_refines:
  assumes "inv buf" and "v2_step uni gz zr ctx (content buf) = (ctx', c', p, done, err)"
  shows "\<exists>buf'. protocolV2_Unpack rb uni gz zr pooled ctx buf = Some (ctx', buf', p, done, err) \<and>
           inv buf' \<and> content buf' = c'"
proof -
  obtain h c ok e where hs: "(if h_IsUnpacked (v2_current_header ctx) then (v2_current_header ctx, content buf, True, None)
      else v2_header_step (v2_current_header ctx) (content buf)) = (h, c, ok, e)"
    by (metis prod_cases4)
  obtain b1 where b1: "(if \<not> Unpacked (v2_current_header ctx) then v2_Header_Unpack rb (v2_current_header ctx) buf
      else Some (v2_current_header ctx, buf, True, None)) = Some (h, b1, ok, e)" "inv b1" "content b1 = c"
    using v2_Header_Unpack_refines [OF assms(1), of "v2_current_header ctx"] hs assms(1)
    by (cases "h_IsUnpacked (v2_current_header ctx)") (auto simp: Unpacked_def)
  have hd: "v2.head ctx (content buf) = (h, c, ok, e)"
    using hs unfolding v2.head_def v2_current_header_def Let_def .
  note st = assms(2) [unfolded v2_step_def v2.step_head [OF hd] Let_def]
  have lm: "(if h_Verify h = 1 then k + NonceLength + SignatureLength else k) = k + tail_len h" for k
    by (simp add: tail_len_def NonceLength_def SignatureLength_def)
  note unf = protocolV2_Unpack_def Let_def v2_headerFromContext_eq case_prod_conv b1(1)
    bind.bind_lunit lm Length [OF b1(2)] b1(3) v2_size_def [symmetric]
  consider (fail) x where "e = Some x" | (wait) "e = None" "\<not> ok \<or> length c < v2_size h"
    | (go) "e = None" "ok" "\<not> length c < v2_size h" by (cases e) auto
  then show ?thesis
  proof cases
    case fail
    with st b1(2,3) show ?thesis unfolding unf by (auto simp: unpack_ctx_defs b1(3))
  next
    case wait
    with st b1(2,3) show ?thesis unfolding unf by (cases ok) (auto simp: unpack_ctx_defs b1(3))
  next
    case go
    define m where "m = unat (h_MetadataLength h)"
    define n where "n = unat (h_BodyLength h)"
    have len: "n + m + tail_len h \<le> length c" using go by (simp add: n_def m_def v2_size_def)
    obtain b2 where b2: "read_full rb b1 m = (b2, take m c, None)" "inv b2" "content b2 = drop m c"
      using read_full_spec [OF b1(2), of m] len b1(3) by auto
    obtain b3 where b3: "read_full rb b2 n = (b3, take n (drop m c), None)" "inv b3" "content b3 = drop (n + m) c"
      using read_full_spec [OF b2(2), of n] len b2(3) by (auto simp: le_diff_conv2)
    define body where "body = take n (drop m c)"
    obtain md er where um: "unmarshal uni (Header_Metadata h ctx) (take m c) = (md, er)" by fastforce
    obtain out ger where gun: "gunzip gz zr body = (out, ger)" by fastforce
    obtain k where g: "gzip_Decompress gz zr body = Some (out, k, ger)"
      using gzip_Decompress_gunzip [of gz zr body] gun by auto
    have fin: "v2_finish uni gz zr h ctx (take (v2_size h) c) =
      (case (md, er) of
        (md, Some e) \<Rightarrow> (\<lparr>pk_Metadata = Some md, pk_Body = body\<rparr>, n + m, Some e)
      | (md, None) \<Rightarrow>
          (case finish_packet gz zr h md body (take (tail_len h) (drop (n + m) c)) of (p, e) \<Rightarrow> (p, v2_size h, e)))"
      using go unfolding v2_finish_take [OF leI [OF go(3)]] Let_def n_def [symmetric] m_def [symmetric] um body_def by simp
    note pm = Packet_UnmarshalMetadata_eq Header_Metadata_ctx um fst_conv snd_conv option.case
    note unf2 = unf n_def [symmetric] m_def [symmetric] b2(1) b3(1) body_def [symmetric]
    have sz: "v2_size h = n + m + tail_len h" by (simp add: v2_size_def n_def m_def)
    show ?thesis
    proof (cases er)
      case (Some x)
      show ?thesis
        using st go b3(2,3) fin Some unfolding unf2 pm by (auto simp: unpack_ctx_defs sz)
    next
      case None
      show ?thesis
      proof (cases "h_Verify h = 1")
        case True
        then have t: "24 \<le> length (content b3)" using len b3(3) by (simp add: tail_len_def)
        then have t16: "16 \<le> length c - (n + m + 8)" using b3(3) by simp
        obtain b4 where b4: "read_full rb (rb_Retrieve rb b3 NonceLength) SignatureLength =
            (b4, take 16 (drop (n + m + 8) c), None)" "inv b4" "content b4 = drop (n + m + 24) c"
          using read_full_spec [of "rb_Retrieve rb b3 8" 16] t b3(2,3) t16
          by (auto simp: Retrieve add.commute add.left_commute NonceLength_def SignatureLength_def)
        have nonce: "rb_PeekUint64 rb b3 = dec64 (take 8 (drop (n + m) c))"
          using PeekUint_dec(3) [OF b3(2)] t b3(3) by simp
        have tl': "take 8 (take 24 (drop (n + m) c)) = take 8 (drop (n + m) c)"
          "drop 8 (take 24 (drop (n + m) c)) = take 16 (drop (n + m + 8) c)"
          by (simp_all add: drop_take add.commute)
        show ?thesis
          using st go True b4(2,3) fin None
          unfolding unf2 pm
          by (cases "h_Gzip h = 1"; cases ger)
             (auto simp: unpack_ctx_defs b4(1) nonce finish_packet_def tail_len_def tl' g gun sz)
      next
        case False
        show ?thesis
          using st go False b3(2,3) fin None
          unfolding unf2 pm
          by (cases "h_Gzip h = 1"; cases ger)
             (auto simp: unpack_ctx_defs finish_packet_def tail_len_def g gun sz)
      qed
    qed
  qed
qed

end

subsection \<open>Packing\<close>

definition v2_section :: "bytes list \<Rightarrow> Metadata \<Rightarrow> bytes" where
  "v2_section ord md = MarshalValues ord md MaxMetadataLength"

definition v2_send_header :: "Metadata \<Rightarrow> bytes \<Rightarrow> bytes \<Rightarrow> v2_Header" where
  "v2_send_header md sec body =
     (v2_headerFromMetadata v2_Header_zero md)
       \<lparr>h_MetadataLength := word_of_nat (length sec), h_BodyLength := word_of_nat (length body)\<rparr>"

text \<open>Overwriting a list from an index on, as far as it reaches.\<close>

definition overlay :: "'a list \<Rightarrow> nat \<Rightarrow> 'a list \<Rightarrow> 'a list" where
  "overlay xs i ys = take i xs @ take (length xs - i) ys @ drop (i + length ys) xs"

definition v2_frame :: "Metadata \<Rightarrow> bytes \<Rightarrow> bytes \<Rightarrow> bytes" where
  "v2_frame md sec body =
     (let hd' = v2_wire (v2_send_header md sec body);
          i = length hd' + length body
      in if md_Verify md
         then overlay (overlay (hd' @ sec @ body @ replicate 24 0) i (be_PutUint64 (md_Nonce md))) (i + 8) (md_Signature md)
         else hd' @ sec @ body)"

text \<open>What the readers find after the header of a signed packet.\<close>

definition v2_payload :: "Metadata \<Rightarrow> bytes \<Rightarrow> bytes \<Rightarrow> bytes" where
  "v2_payload md sec body = overlay (sec @ body @ replicate 24 0) (length body) (be_PutUint64 (md_Nonce md) @ md_Signature md)"

definition v2_pack_plain :: "bytes list \<Rightarrow> Metadata \<Rightarrow> bytes \<Rightarrow> error + bytes" where
  "v2_pack_plain ord md body =
     (if length body > MaxBodyLength then Inl ErrBodyLenHitLimit
      else if \<not> known_ptype (md_Type md) then Inl ErrUnknowPacket
      else Inr (v2_frame md (v2_section ord md) body))"

lemma v2_known_type: "known_type (h_Type (v2_headerFromMetadata p md)) \<longleftrightarrow> known_ptype (md_Type md)"
  by (auto simp: v2_headerFromMetadata_fields known_type_def known_ptype_def
      v1_RequestPacket_def v1_ResponsePacket_def v1_PushPacket_def)

lemma put_overlay: "i + length ys \<le> length xs \<Longrightarrow> put_at xs i ys = Some (overlay xs i ys)"
  by (simp add: put_at_def overlay_def)

lemma copy_overlay: "i \<le> length xs \<Longrightarrow> copy_at xs i ys = Some (overlay xs i ys)"
  by (simp add: copy_at_def overlay_def)

lemma length_overlay [simp]: "i + length ys \<le> length xs \<Longrightarrow> length (overlay xs i ys) = length xs"
  by (simp add: overlay_def)

lemma overlay_append: "overlay (xs @ ys) (length xs + i) zs = xs @ overlay ys i zs"
  by (simp add: overlay_def)

lemma overlay_overlay:
  assumes "i + length ys + length zs \<le> length xs"
  shows "overlay (overlay xs i ys) (i + length ys) zs = overlay xs i (ys @ zs)"
proof -
  define l where "l = take i xs @ ys"
  have l: "length l = i + length ys" using assms by (simp add: l_def)
  have "overlay xs i ys = l @ drop (i + length ys) xs" using assms by (simp add: overlay_def l_def)
  then have "overlay (overlay xs i ys) (i + length ys) zs = l @ overlay (drop (i + length ys) xs) 0 zs"
    using overlay_append [of l _ 0 zs] l by simp
  then show ?thesis using assms by (simp add: overlay_def l_def add.commute add.left_commute)
qed

lemma v2_frame_copies:
  assumes hd: "length hd' = hl" and body: "length body = bl"
  shows "copy_at (replicate (hl + bl + length sec) 0) 0 hd' = Some (hd' @ replicate (length sec + bl) 0)"
    and "copy_at (replicate (hl + bl + length sec + NonceLength + SignatureLength) 0) 0 hd' =
         Some (hd' @ replicate (length sec + (bl + 24)) 0)"
    and "copy_at (hd' @ replicate (length sec + k) 0) hl sec = Some (hd' @ sec @ replicate k 0)"
    and "copy_at (hd' @ sec @ replicate bl 0) (hl + length sec) body = Some (hd' @ sec @ body)"
    and "copy_at (hd' @ sec @ replicate (bl + 24) 0) (hl + length sec) body = Some (hd' @ sec @ body @ replicate 24 0)"
  using assms by (simp_all add: copy_at_def NonceLength_def SignatureLength_def)

lemma v2_frame_signs:
  assumes hd: "length hd' = hl" and body: "length body = bl"
  shows "put_at (hd' @ sec @ body @ replicate 24 0) (hl + bl) (be_PutUint64 nonce) =
         Some (overlay (hd' @ sec @ body @ replicate 24 0) (hl + bl) (be_PutUint64 nonce))"
    and "copy_at (overlay (hd' @ sec @ body @ replicate 24 0) (hl + bl) (be_PutUint64 nonce)) (hl + bl + NonceLength) s =
         Some (overlay (overlay (hd' @ sec @ body @ replicate 24 0) (hl + bl) (be_PutUint64 nonce)) (hl + bl + 8) s)"
  using assms by (simp_all add: NonceLength_def put_overlay copy_overlay)


lemma protocolV2_Pack_plain:
  assumes "pk_Metadata p = Some md" and nc: "\<not> compresses opts (pk_Body p)"
  shows "protocolV2_Pack ord gz level pooled p opts = Some (p, v2_pack_plain ord md (pk_Body p))"
proof -
  define body where "body = pk_Body p"
  define sec where "sec = v2_section ord md"
  define h where "h = v2_send_header md sec body"
  have h: "(v2_headerFromMetadata pooled md)\<lparr>h_MetadataLength := word_of_nat (length sec), h_BodyLength := word_of_nat (length body)\<rparr> = h"
    by (simp add: h_def v2_send_header_def v2_headerFromMetadata_pooled [of pooled])
  have ms: "Packet_MarshalMetadata ord p MaxMetadataLength = Some sec"
    by (simp add: Packet_MarshalMetadata_def assms(1) sec_def v2_section_def)
  have k: "known_type (h_Type h) \<longleftrightarrow> known_ptype (md_Type md)"
    using v2_known_type [of v2_Header_zero md] by (simp add: h_def v2_send_header_def)
  note unf = protocolV2_Pack_def Let_def if_not_P [OF nc [unfolded compresses_def, folded body_def]] bind.bind_lunit case_prod_conv option.case
    assms(1) ms body_def [symmetric] h
  consider (long) "length body > MaxBodyLength" | (unknown) "length body \<le> MaxBodyLength" "\<not> known_ptype (md_Type md)"
    | (ok) "length body \<le> MaxBodyLength" "known_ptype (md_Type md)" by linarith
  then show ?thesis
  proof cases
    case long
    then show ?thesis unfolding unf by (simp add: v2_pack_plain_def body_def)
  next
    case unknown
    then show ?thesis unfolding unf v2_Header_Pack_eq k by (simp add: v2_pack_plain_def body_def [symmetric])
  next
    case ok
    define hl where "hl = (if h_Type h = v1_RequestPacket then v2_RequestHeaderLen
                           else if h_Type h = v1_ResponsePacket then v2_ResponseHeaderLen
                           else if h_Type h = v1_PushPacket then v2_PushHeaderLen
                           else 0)"
    have hl: "length (v2_wire h) = hl"
      using ok k by (auto simp: length_v2_wire hl_def known_type_def v2_lens)
    have "unat (h_BodyLength h) = length body"
      using ok by (simp add: h_def v2_send_header_def unat_len_body)
    then have hp: "v2_Header_Pack h = Some (Inr (v2_wire h))"
      using ok k by (simp add: v2_Header_Pack_eq)
    have l: "\<not> length body > MaxBodyLength" using ok by simp
    note cf = v2_frame_copies [OF hl refl, where sec = sec] v2_frame_signs [OF hl refl, where sec = sec]
    have f: "v2_pack_plain ord md body = Inr (v2_frame md sec body)"
      using ok by (simp add: v2_pack_plain_def sec_def)
    show ?thesis
      unfolding unf if_not_P [OF l] hp sum.case hl_def [symmetric] f v2_frame_def h_def [symmetric]
      by (cases "md_Verify md") (simp_all add: cf hl)
  qed
qed

lemma protocolV2_Pack_gzip:
  assumes "pk_Metadata p = Some md" and c: "compresses opts (pk_Body p)"
    and z: "gzip_Compress gz level (pk_Body p) = (z, None)"
  shows "protocolV2_Pack ord gz level pooled p opts =
    Some (\<lparr>pk_Metadata = Some (md\<lparr>md_Gzip := True\<rparr>), pk_Body = z\<rparr>, v2_pack_plain ord (md\<lparr>md_Gzip := True\<rparr>) z)"
proof -
  define p' where "p' = \<lparr>pk_Metadata = Some (md\<lparr>md_Gzip := True\<rparr>), pk_Body = z\<rparr>"
  have p': "p\<lparr>pk_Body := z\<rparr>\<lparr>pk_Metadata := Some (md\<lparr>md_Gzip := True\<rparr>)\<rparr> = p'" "pk_Metadata (p\<lparr>pk_Body := z\<rparr>) = Some md"
    using assms(1) by (simp_all add: p'_def)
  have pp: "pk_Body p' = z" "pk_Metadata p' = Some (md\<lparr>md_Gzip := True\<rparr>)" by (simp_all add: p'_def)
  have n: "\<not> compresses [] z" by (simp add: compresses_def NewPackOptions_def)
  have "protocolV2_Pack ord gz level pooled p opts = protocolV2_Pack ord gz level pooled p' []"
    unfolding protocolV2_Pack_def Let_def if_P [OF c [unfolded compresses_def]] if_not_P [OF n [unfolded compresses_def]]
      z case_prod_conv option.case p' bind.bind_lunit pp ..
  also have "\<dots> = Some (p', v2_pack_plain ord (md\<lparr>md_Gzip := True\<rparr>) z)"
    using protocolV2_Pack_plain [of p' "md\<lparr>md_Gzip := True\<rparr>" "[]" ord gz level pooled] n by (simp add: pp)
  finally show ?thesis by (simp add: p'_def)
qed

lemma protocolV2_Pack_fails:
  assumes "pk_Metadata p = Some md" and c: "compresses opts (pk_Body p)"
    and z: "gzip_Compress gz level (pk_Body p) = (z, Some e)"
  shows "protocolV2_Pack ord gz level pooled p opts = Some (p\<lparr>pk_Body := z\<rparr>, Inl e)"
  unfolding protocolV2_Pack_def Let_def if_P [OF c [unfolded compresses_def]] z by simp

subsection \<open>Reading a packed frame\<close>

text \<open>The metadata section: what of the value map arrives.\<close>

definition v2_fits :: "bytes list \<Rightarrow> Metadata \<Rightarrow> bool" where
  "v2_fits ord md \<longleftrightarrow>
     int (length (enc_entries (filter sendable (map_entries (md_Values md) ord)))) \<le> MaxMetadataLength"

lemma v2_section_parsed:
  assumes "iter_order (md_Values md) ord" and "wf_values uni md"
  obtains m' where "\<And>md0. UnmarshalValues uni md0 (v2_section ord md) = Some (md0\<lparr>md_Values := Some m'\<rparr>, None)"
    "m' \<subseteq>\<^sub>m sent_values md" "v2_fits ord md \<longrightarrow> m' = sent_values md" "length (v2_section ord md) < 2 ^ 16"
proof (cases "md_Values md")
  case None
  then have "v2_section ord md = []" by (simp add: v2_section_def MarshalValues_def map_entries_def)
  moreover have "sent_values md = Map.empty" by (simp add: sent_values_def None wire_map_def fun_eq_iff)
  ultimately show ?thesis by (intro that [of Map.empty]) (simp_all add: UnmarshalValues_def)
next
  case (Some m)
  have "iter_order (Some m) ord" "lower_keys uni m" using assms Some by (simp_all add: wf_values_def)
  then obtain m' where m': "\<And>md0. UnmarshalValues uni md0 (MarshalValues ord md MaxMetadataLength) = Some (md0\<lparr>md_Values := Some m'\<rparr>, None)"
    "m' \<subseteq>\<^sub>m wire_map m"
    "int (length (enc_entries (filter sendable (map_entries (Some m) ord)))) \<le> MaxMetadataLength \<longrightarrow> m' = wire_map m"
    "int (length (MarshalValues ord md MaxMetadataLength)) \<le> MaxMetadataLength"
    using MarshalValues_parsed [OF Some, of ord uni MaxMetadataLength] by (auto simp: MaxMetadataLength_def)
  then show ?thesis
    using Some by (intro that [of m']) (simp_all add: v2_section_def sent_values_def v2_fits_def MaxMetadataLength_def)
qed

definition v2_received_header :: "v2_Header \<Rightarrow> v2_Header \<Rightarrow> v2_Header" where
  "v2_received_header h0 h = (received_header h0 h)\<lparr>h_MetadataLength := h_MetadataLength h\<rparr>"

lemma v2_UnpackBytes_wire:
  assumes "known_type (h_Type h)" and "unat (h_BodyLength h) < 2 ^ 24"
  shows "v2_Header_UnpackBytes h0 (v2_wire h @ rest) = Some (v2_received_header h0 h, Inr rest)"
  using assms v2_fields_wire [of "set_flags h0 (flags_byte h)" h rest]
  by (simp add: v2_Header_UnpackBytes_eq v2_wire_def set_flags_flags_byte known_type_nibble Let_def
      received_header_def v2_received_header_def)

lemma v2_header_step_wire:
  assumes "known_type (h_Type h)" and "unat (h_BodyLength h) < 2 ^ 24"
    and "\<not> h_BeginUnpack h0" "\<not> h_IsUnpacked h0"
  shows "v2_header_step h0 (v2_wire h @ rest) =
     (v2_received_header (h0\<lparr>h_BeginUnpack := True, h_IsUnpacked := True\<rparr>) h, rest, True, None)"
proof -
  have e: "h0\<lparr>h_BeginUnpack := True, h_Type := t, h_Verify := v, h_Gzip := g, h_Reserve := r, h_IsUnpacked := True\<rparr> =
      h0\<lparr>h_BeginUnpack := True, h_IsUnpacked := True, h_Type := t, h_Verify := v, h_Gzip := g, h_Reserve := r\<rparr>" for t v g r
    by simp
  show ?thesis
    using assms v2_fields_wire [of "set_flags (h0\<lparr>h_BeginUnpack := True, h_IsUnpacked := True\<rparr>) (flags_byte h)" h rest]
    by (simp add: v2_header_step_eq v2_wire_def set_flags_flags_byte known_type_nibble received_header_def
        v2_received_header_def e)
qed

lemma v2_received_header_simps [simp]:
  "h_Verify (v2_received_header h0 h) = h_Verify h AND 1"
  "h_Gzip (v2_received_header h0 h) = h_Gzip h AND 1"
  "h_BodyLength (v2_received_header h0 h) = h_BodyLength h"
  "h_MetadataLength (v2_received_header h0 h) = h_MetadataLength h"
  by (simp_all add: v2_received_header_def)

lemma v2_received_metadata:
  assumes "fresh_header h0" and "known_ptype (md_Type md)"
  shows "(Header_Metadata (v2_received_header h0 (v2_send_header md sec body)) ctx)
     \<lparr>md_Nonce := (if md_Verify md then md_Nonce md else 0),
      md_Signature := (if md_Verify md then pad_signature (md_Signature md) else [])\<rparr> = v1_received ctx md"
  using assms unfolding v2_send_header_def
  by (auto simp: known_ptype_def Header_Metadata_def v2_received_header_def received_header_def copy_prefix_def fresh_header_def
      v2_headerFromMetadata_fields v1_received_def ucast_low_byte Let_def Metadata_zero_def)

definition v2_received :: "('h, 'i) Context \<Rightarrow> Metadata \<Rightarrow> (bytes \<rightharpoonup> bytes) \<Rightarrow> Metadata" where
  "v2_received ctx md m' = (v1_received ctx md)\<lparr>md_Values := Some m'\<rparr>"

lemma v2_send_header_ok:
  assumes "known_ptype (md_Type md)" and "length body \<le> MaxBodyLength" and "length sec < 2 ^ 16"
  shows "known_type (h_Type (v2_send_header md sec body))"
    and "unat (h_BodyLength (v2_send_header md sec body)) = length body"
    and "unat (h_BodyLength (v2_send_header md sec body)) < 2 ^ 24"
    and "unat (h_MetadataLength (v2_send_header md sec body)) = length sec"
    and "h_Verify (v2_send_header md sec body) = (if md_Verify md then 1 else 0)"
    and "h_Gzip (v2_send_header md sec body) = (if md_Gzip md then 1 else 0)"
  using assms v2_known_type [of v2_Header_zero md]
  by (simp_all add: v2_send_header_def unat_len_body MaxBodyLength_def unat_of_nat v2_headerFromMetadata_fields)

lemma v2_frame_plain:
  assumes "md_Verify md \<longrightarrow> sec = []"
  shows "v2_frame md sec body = v2_wire (v2_send_header md sec body) @ sec @ body @ signed_tail md"
  using assms by (auto simp: v2_frame_def Let_def signed_tail_def overlay_def pad_signature_def)

lemma v2_finish_received:
  assumes fresh: "fresh_header h0" and ok: "known_ptype (md_Type md)" "length body \<le> MaxBodyLength" "length sec < 2 ^ 16"
    and sec: "\<And>md0. UnmarshalValues uni md0 sec = Some (md0\<lparr>md_Values := Some m'\<rparr>, None)"
    and b: "maybe_gunzip gz zr (md_Gzip md) body = (out, None)"
    and h: "h = v2_received_header h0 (v2_send_header md sec body)"
  shows "v2_size h = length (sec @ body @ signed_tail md)"
    and "v2_finish uni gz zr h ctx (sec @ body @ signed_tail md) =
      (\<lparr>pk_Metadata = Some (v2_received ctx md m'), pk_Body = out\<rparr>, v2_size h, None)"
    and "unmarshal uni (Header_Metadata h ctx) sec = ((Header_Metadata h ctx)\<lparr>md_Values := Some m'\<rparr>, None)"
    and "finish_packet gz zr h ((Header_Metadata h ctx)\<lparr>md_Values := Some m'\<rparr>) body (signed_tail md) =
      (\<lparr>pk_Metadata = Some (v2_received ctx md m'), pk_Body = out\<rparr>, None)"
proof -
  note so = v2_send_header_ok [OF ok]
  have t: "tail_len h = length (signed_tail md)"
    by (simp add: tail_len_def h so length_signed_tail)
  then show s: "v2_size h = length (sec @ body @ signed_tail md)"
    by (simp add: v2_size_def h so)
  show u: "unmarshal uni (Header_Metadata h ctx) sec = ((Header_Metadata h ctx)\<lparr>md_Values := Some m'\<rparr>, None)"
    using sec by (simp add: unmarshal_def)
  have r: "(Header_Metadata h ctx)
     \<lparr>md_Nonce := (if md_Verify md then md_Nonce md else 0),
      md_Signature := (if md_Verify md then pad_signature (md_Signature md) else [])\<rparr> = v1_received ctx md"
    unfolding h by (rule v2_received_metadata [OF fresh ok(1)])
  have rv: "v2_received ctx md m' = (Header_Metadata h ctx)
     \<lparr>md_Nonce := (if md_Verify md then md_Nonce md else 0),
      md_Signature := (if md_Verify md then pad_signature (md_Signature md) else []), md_Values := Some m'\<rparr>"
    unfolding v2_received_def r [symmetric] by simp
  have v: "h_Verify h = (if md_Verify md then 1 else 0)" "h_Gzip h = (if md_Gzip md then 1 else 0)"
    by (simp_all add: h so)
  have un: "(Header_Metadata h ctx)\<lparr>md_Nonce := 0, md_Signature := [], md_Values := Some m'\<rparr> =
      (Header_Metadata h ctx)\<lparr>md_Values := Some m'\<rparr>"
    by (metis Header_Metadata_unsigned)
  show f: "finish_packet gz zr h ((Header_Metadata h ctx)\<lparr>md_Values := Some m'\<rparr>) body (signed_tail md) =
      (\<lparr>pk_Metadata = Some (v2_received ctx md m'), pk_Body = out\<rparr>, None)"
    using b un unfolding rv
    by (cases "md_Verify md"; cases "md_Gzip md")
       (simp_all add: finish_packet_def v signed_tail_def maybe_gunzip_def)
  have l: "unat (h_MetadataLength h) = length sec" "unat (h_BodyLength h) = length body" by (simp_all add: h so)
  show "v2_finish uni gz zr h ctx (sec @ body @ signed_tail md) =
      (\<lparr>pk_Metadata = Some (v2_received ctx md m'), pk_Body = out\<rparr>, v2_size h, None)"
    using u f by (simp add: v2_finish_def l Let_def)
qed

lemma fresh_v2_Header_zero: "fresh_header v2_Header_zero"
  "fresh_header (v2_Header_zero\<lparr>h_BeginUnpack := True, h_IsUnpacked := True\<rparr>)"
  by (simp_all add: fresh_header_def v2_Header_zero_def)

lemma v2_bytes_frame:
  assumes ok: "known_ptype (md_Type md)" "length body \<le> MaxBodyLength" "length sec < 2 ^ 16"
    and sec: "\<And>md0. UnmarshalValues uni md0 sec = Some (md0\<lparr>md_Values := Some m'\<rparr>, None)"
    and pl: "md_Verify md \<longrightarrow> sec = []" and ctx: "ctx_Header ctx = None"
    and b: "maybe_gunzip gz zr (md_Gzip md) body = (out, None)"
  shows "v2_bytes_spec uni gz zr ctx (v2_frame md sec body) =
    (ctx\<lparr>ctx_beginUnpack := False\<rparr>, Some \<lparr>pk_Metadata = Some (v2_received ctx md m'), pk_Body = out\<rparr>, None)"
proof -
  define h where "h = v2_received_header v2_Header_zero (v2_send_header md sec body)"
  note so = v2_send_header_ok [OF ok]
  note size' = v2_finish_received(1) [OF fresh_v2_Header_zero(1) ok sec b h_def]
  note fin = v2_finish_received(2-4) [OF fresh_v2_Header_zero(1) ok sec b h_def, where ctx = ctx]
  have u: "v2_Header_UnpackBytes (v2_current_header ctx) (v2_frame md sec body) =
      Some (h, Inr (sec @ body @ signed_tail md))"
    using v2_UnpackBytes_wire [OF so(1,3), of v2_Header_zero] by (simp add: v2_frame_plain [OF pl] v2_current_header_def ctx h_def)
  have l: "unat (h_MetadataLength h) = length sec" "unat (h_BodyLength h) = length body"
    "tail_len h = length (signed_tail md)"
    using size' by (simp_all add: h_def so v2_size_def)
  have c: "ctx\<lparr>ctx_beginUnpack := True, ctx_Header := None, ctx_beginUnpack := False\<rparr> = ctx\<lparr>ctx_beginUnpack := False\<rparr>"
    using ctx by simp
  show ?thesis
    unfolding v2_bytes_spec_def u option.sel Let_def case_prod_conv sum.case l
    by (simp add: fin(2,3) c)
qed

lemma v2_step_frame:
  assumes ok: "known_ptype (md_Type md)" "length body \<le> MaxBodyLength" "length sec < 2 ^ 16"
    and sec: "\<And>md0. UnmarshalValues uni md0 sec = Some (md0\<lparr>md_Values := Some m'\<rparr>, None)"
    and pl: "md_Verify md \<longrightarrow> sec = []" and ctx: "ctx_Header ctx = None"
    and b: "maybe_gunzip gz zr (md_Gzip md) body = (out, None)"
  shows "v2_step uni gz zr ctx (v2_frame md sec body @ rest) =
    (ctx\<lparr>ctx_beginUnpack := False\<rparr>, rest, Some \<lparr>pk_Metadata = Some (v2_received ctx md m'), pk_Body = out\<rparr>, True, None)"
proof -
  define h where "h = v2_received_header (v2_Header_zero\<lparr>h_BeginUnpack := True, h_IsUnpacked := True\<rparr>) (v2_send_header md sec body)"
  note so = v2_send_header_ok [OF ok]
  note size' = v2_finish_received(1) [OF fresh_v2_Header_zero(2) ok sec b h_def]
  note fin = v2_finish_received(2-4) [OF fresh_v2_Header_zero(2) ok sec b h_def, where ctx = ctx]
  have z: "\<not> h_BeginUnpack v2_Header_zero" "\<not> h_IsUnpacked v2_Header_zero" by (simp_all add: v2_Header_zero_def)
  have hd: "v2.head ctx (v2_frame md sec body @ rest) = (h, (sec @ body @ signed_tail md) @ rest, True, None)"
    using v2_header_step_wire [OF so(1,3) z] by (simp add: v2.head_def ctx z v2_frame_plain [OF pl] h_def)
  have c: "ctx\<lparr>ctx_beginUnpack := True, ctx_Header := None, ctx_beginUnpack := False\<rparr> = ctx\<lparr>ctx_beginUnpack := False\<rparr>"
    using ctx by simp
  have tk: "take (v2_size h) ((sec @ body @ signed_tail md) @ rest) = sec @ body @ signed_tail md"
    "drop (v2_size h) ((sec @ body @ signed_tail md) @ rest) = rest"
    "\<not> length ((sec @ body @ signed_tail md) @ rest) < v2_size h"
    unfolding size' by simp_all
  show ?thesis
    unfolding v2_step_def v2.step_head [OF hd] Let_def tk option.case
    using tk(3) by (simp add: fin(1) c)
qed

lemma protocolV2_Pack_sent:
  assumes gz: "gzip_codec gz" "- 1 \<le> level" "level \<le> 9"
    and p: "pk_Metadata p = Some md" "\<not> md_Gzip md" "length (pk_Body p) < 2 ^ 32"
    and pack: "protocolV2_Pack ord gz level pooled p opts = Some (p', Inr frame)"
  obtains body where "p' = \<lparr>pk_Metadata = Some (md\<lparr>md_Gzip := compresses opts (pk_Body p)\<rparr>), pk_Body = body\<rparr>"
    "frame = v2_frame (md\<lparr>md_Gzip := compresses opts (pk_Body p)\<rparr>) (v2_section ord md) body"
    "known_ptype (md_Type md)" "length body \<le> MaxBodyLength"
    "\<And>zr. maybe_gunzip gz zr (compresses opts (pk_Body p)) body = (pk_Body p, None)"
proof -
  have s: "v2_section ord (md\<lparr>md_Gzip := g\<rparr>) = v2_section ord md" for g
    by (simp add: v2_section_def MarshalValues_def)
  have r: "v2_pack_plain ord m b = Inr frame \<longleftrightarrow>
      length b \<le> MaxBodyLength \<and> known_ptype (md_Type m) \<and> frame = v2_frame m (v2_section ord m) b" for m b
    by (auto simp: v2_pack_plain_def)
  show thesis
  proof (cases "compresses opts (pk_Body p)")
    case True
    obtain z where z: "gzip_Compress gz level (pk_Body p) = (z, None)" "\<And>zr. gunzip gz zr z = (pk_Body p, None)"
      using gunzip_compressed [OF gz p(3)] by blast
    have "p' = \<lparr>pk_Metadata = Some (md\<lparr>md_Gzip := True\<rparr>), pk_Body = z\<rparr>" "v2_pack_plain ord (md\<lparr>md_Gzip := True\<rparr>) z = Inr frame"
      using protocolV2_Pack_gzip [OF p(1) True z(1), of ord pooled] pack by auto
    with True z(2) show ?thesis by (intro that [of z]) (simp_all add: r s maybe_gunzip_def)
  next
    case False
    have "p' = p" "v2_pack_plain ord md (pk_Body p) = Inr frame"
      using protocolV2_Pack_plain [OF p(1) False, of ord gz level pooled] pack by auto
    moreover have e: "md\<lparr>md_Gzip := False\<rparr> = md" using p by simp
    ultimately show ?thesis
      using False p by (intro that [of "pk_Body p"]) (simp_all add: r s e maybe_gunzip_def)
  qed
qed

text \<open>The slice reader on the bytes that the stream reader has consumed.\<close>

lemma v2_fields_state:
  "v2_fields (set_flags (h\<lparr>h_BeginUnpack := x\<rparr>) b\<lparr>h_IsUnpacked := y\<rparr>) bs =
   (v2_fields (set_flags h b) bs)\<lparr>h_BeginUnpack := x, h_IsUnpacked := y\<rparr>"
  by (simp add: v2_fields_def v2_lengths_def set_prefix_def set_length_def set_flags_def Let_def)

lemma v2_finish_done:
  assumes "v2_finish uni gz zr h ctx bs = (p, k, None)"
  obtains md where "unmarshal uni (Header_Metadata h ctx) (take (unat (h_MetadataLength h)) bs) = (md, None)"
    "finish_packet gz zr h md (take (unat (h_BodyLength h)) (drop (unat (h_MetadataLength h)) bs))
       (drop (unat (h_BodyLength h) + unat (h_MetadataLength h)) bs) = (p, None)"
proof -
  obtain md e where u: "unmarshal uni (Header_Metadata h ctx) (take (unat (h_MetadataLength h)) bs) = (md, e)" by fastforce
  show thesis
    using assms by (cases e) (auto simp: v2_finish_def u Let_def split: prod.splits intro: that [of md])
qed

lemma v2_step_consumed:
  assumes st: "v2_step uni gz zr ctx c = (ctx', c', p, True, err)" and ctx: "ctx_Header ctx = None"
  shows "\<exists>frame. c = frame @ c' \<and> v2_bytes_spec uni gz zr ctx frame = (ctx', p, None)"
proof -
  have cur: "v2_current_header ctx = v2_Header_zero" by (simp add: v2_current_header_def ctx)
  have z: "\<not> h_IsUnpacked v2_Header_zero" "\<not> h_BeginUnpack v2_Header_zero" by (simp_all add: v2_Header_zero_def)
  have hd: "v2.head ctx c = v2_header_step v2_Header_zero c" by (simp add: v2.head_def z ctx)
  obtain h c1 pk k where d: "v2_header_step v2_Header_zero c = (h, c1, True, None)" "v2_size h \<le> length c1"
    "v2_finish uni gz zr h ctx (take (v2_size h) c1) = (pk, k, None)" "p = Some pk" "c' = drop (v2_size h) c1"
    "ctx' = ctx\<lparr>ctx_beginUnpack := False, ctx_Header := None\<rparr>"
    by (rule v2.frame_step_done [OF st [unfolded v2_step_def], unfolded hd])
  obtain b bs where c: "c = b # bs" using d(1) v2_header_step_rest(1) [OF z(1)] by (cases c) auto
  define h1 where "h1 = set_flags v2_Header_zero b"
  define j where "j = prefix_len (h_Type h1) + 5"
  define g where "g = v2_fields h1 bs"
  have r: "known_type (h_Type h1)" "j \<le> length bs" "c1 = drop j bs"
    and h: "h = g\<lparr>h_BeginUnpack := True, h_IsUnpacked := True\<rparr>"
    using d(1) v2_header_step_rest(2) [OF z(1)] z(2) v2_fields_state [where h = v2_Header_zero and b = b and bs = bs]
    by (auto simp: c header_rest_def h1_def j_def g_def split: if_splits)
  have m: "v2_size h = unat (h_BodyLength g) + unat (h_MetadataLength g) + tail_len g" by (simp add: v2_size_def h)
  define data where "data = take (v2_size h) c1"
  define frame where "frame = b # take (j + v2_size h) bs"
  have "v2_fields h1 (take (j + v2_size h) bs) = g"
    using v2_fields_append [of h1 "take (j + v2_size h) bs" "drop (j + v2_size h) bs"] r(2)
    by (simp add: g_def j_def)
  then have u: "v2_Header_UnpackBytes v2_Header_zero frame = Some (g, Inr data)"
    using r by (simp add: v2_Header_UnpackBytes_eq frame_def h1_def [symmetric] Let_def j_def [symmetric] drop_take data_def)
  have len: "length data = unat (h_BodyLength g) + unat (h_MetadataLength g) + tail_len g" using d(2) m by (simp add: data_def)
  obtain md where f: "unmarshal uni (Header_Metadata g ctx) (take (unat (h_MetadataLength g)) data) = (md, None)"
    "finish_packet gz zr g md (take (unat (h_BodyLength g)) (drop (unat (h_MetadataLength g)) data))
       (drop (unat (h_BodyLength g) + unat (h_MetadataLength g)) data) = (pk, None)"
    using v2_finish_done [OF d(3)] by (auto simp: h data_def [unfolded h, symmetric])
  have "v2_bytes_spec uni gz zr ctx frame = (ctx', p, None)"
    unfolding v2_bytes_spec_def cur u option.sel Let_def case_prod_conv sum.case f len
    using d(4,6) f(2) by simp
  moreover have "c = frame @ c'" using d(2,5) r by (simp add: c frame_def add.commute)
  ultimately show ?thesis by blast
qed

lemma unmarshal_result: "unmarshal uni md data = (md', None) \<Longrightarrow> \<exists>m. md_Values md' = Some m"
  using unmarshal_loop_total [of uni Map.empty data]
  by (auto simp: unmarshal_def UnmarshalValues_def split: if_splits sum.splits)

lemma v2_bytes_spec_result:
  assumes "v2_bytes_spec uni gz zr ctx bs = (ctx', packet, err)"
  shows "ctx_Header ctx' = None" "ctx_beginUnpack ctx' \<longleftrightarrow> err \<noteq> None"
    "err = None \<Longrightarrow> \<exists>p md m. packet = Some p \<and> pk_Metadata p = Some md \<and> md_Values md = Some m"
proof -
  obtain h r where u: "v2_Header_UnpackBytes (v2_current_header ctx) bs = Some (h, r)"
    using v2_Header_UnpackBytes_total by blast
  define ml where "ml = unat (h_MetadataLength h)"
  define bl where "bl = unat (h_BodyLength h)"
  obtain md e where um: "unmarshal uni (Header_Metadata h ctx) (take ml (projr r)) = (md, e)" by fastforce
  define f where "f = finish_packet gz zr h md (take bl (drop ml (projr r))) (drop (bl + ml) (projr r))"
  obtain p e' where f': "f = (p, e')" by fastforce
  have *: "e = None \<Longrightarrow> \<exists>md' m. pk_Metadata p = Some md' \<and> md_Values md' = Some m"
    using finish_packet_result [OF f' [unfolded f_def]] unmarshal_result um by force
  note d = assms [unfolded v2_bytes_spec_def u option.sel Let_def case_prod_conv, folded ml_def bl_def]
  show "ctx_Header ctx' = None" "ctx_beginUnpack ctx' \<longleftrightarrow> err \<noteq> None"
    "err = None \<Longrightarrow> \<exists>p md m. packet = Some p \<and> pk_Metadata p = Some md \<and> md_Values md = Some m"
    using d f' um * by (cases r; cases e; cases e'; auto simp: f_def split: if_splits)+
qed

subsection \<open>Properties\<close>

text \<open>
  C19. Packing a packet that has metadata never panics.  Its result is the frame of the packet (header, metadata section, body,
  with nonce and signature written over it from index \<open>hl+bl\<close> on when it is signed), computed after the compression step
  when the option asks for it; the errors are the compressor's, \<open>ErrBodyLenHitLimit\<close> and \<open>ErrUnknowPacket\<close>, in that order.
\<close>

theorem v2_Pack_result:
  "protocolV2_Pack ord gz level pooled \<lparr>pk_Metadata = Some md, pk_Body = body\<rparr> opts = Some (
     if compresses opts body then
       (case gzip_Compress gz level body of
          (z, Some e) \<Rightarrow> (\<lparr>pk_Metadata = Some md, pk_Body = z\<rparr>, Inl e)
        | (z, None) \<Rightarrow> (\<lparr>pk_Metadata = Some (md\<lparr>md_Gzip := True\<rparr>), pk_Body = z\<rparr>,
                        v2_pack_plain ord (md\<lparr>md_Gzip := True\<rparr>) z))
     else (\<lparr>pk_Metadata = Some md, pk_Body = body\<rparr>, v2_pack_plain ord md body))"
proof (cases "compresses opts body")
  case True
  obtain z er where z: "gzip_Compress gz level body = (z, er)" by fastforce
  show ?thesis
    using protocolV2_Pack_gzip [of "\<lparr>pk_Metadata = Some md, pk_Body = body\<rparr>" md opts gz level z ord pooled]
      protocolV2_Pack_fails [of "\<lparr>pk_Metadata = Some md, pk_Body = body\<rparr>" md opts gz level z _ ord pooled] True z
    by (cases er) simp_all
next
  case False
  then show ?thesis
    using protocolV2_Pack_plain [of "\<lparr>pk_Metadata = Some md, pk_Body = body\<rparr>" md opts ord gz level pooled] by simp
qed

text \<open>
  C14. Round trip over a byte slice.  When \<open>Pack\<close> has produced a frame for a packet whose body is not compressed yet, that is not signed or
  has no metadata section, \<open>UnpackBytes\<close> returns the original body, the transmitted metadata fields and a part of the
  value map that can be sent; all of it when its encoding fits in \<open>2^16 - 1\<close> bytes.
\<close>

theorem v2_roundtrip_bytes:
  assumes "gzip_codec gz" "- 1 \<le> level" "level \<le> 9"
    and "pk_Metadata p = Some md" "\<not> md_Gzip md" "length (pk_Body p) < 2 ^ 32"
    and "protocolV2_Pack ord gz level pooled p opts = Some (p', Inr frame)"
    and "iter_order (md_Values md) ord" "wf_values uni md" "md_Verify md \<longrightarrow> v2_section ord md = []"
    and "ctx_Header ctx = None"
  shows "\<exists>m'. protocolV2_UnpackBytes uni gz zr pooled' ctx frame =
    Some (ctx\<lparr>ctx_beginUnpack := False\<rparr>,
      Some \<lparr>pk_Metadata = Some (v2_received ctx (md\<lparr>md_Gzip := compresses opts (pk_Body p)\<rparr>) m'),
            pk_Body = pk_Body p\<rparr>, None) \<and>
    m' \<subseteq>\<^sub>m sent_values md \<and> (v2_fits ord md \<longrightarrow> m' = sent_values md)"
proof -
  obtain body where b: "frame = v2_frame (md\<lparr>md_Gzip := compresses opts (pk_Body p)\<rparr>) (v2_section ord md) body"
    "known_ptype (md_Type md)" "length body \<le> MaxBodyLength"
    "maybe_gunzip gz zr (compresses opts (pk_Body p)) body = (pk_Body p, None)"
    using protocolV2_Pack_sent [OF assms(1-7)] by metis
  obtain m' where m': "\<And>md0. UnmarshalValues uni md0 (v2_section ord md) = Some (md0\<lparr>md_Values := Some m'\<rparr>, None)"
    "m' \<subseteq>\<^sub>m sent_values md" "v2_fits ord md \<longrightarrow> m' = sent_values md" "length (v2_section ord md) < 2 ^ 16"
    using v2_section_parsed [OF assms(8,9)] by metis
  have "v2_bytes_spec uni gz zr ctx frame = (ctx\<lparr>ctx_beginUnpack := False\<rparr>,
      Some \<lparr>pk_Metadata = Some (v2_received ctx (md\<lparr>md_Gzip := compresses opts (pk_Body p)\<rparr>) m'), pk_Body = pk_Body p\<rparr>, None)"
    unfolding b(1) by (rule v2_bytes_frame) (use b m'(1,4) assms(10,11) in simp_all)
  with m'(2,3) show ?thesis by (auto simp: protocolV2_UnpackBytes_eq)
qed

text \<open>
  C15. Round trip over a stream, under the same conditions: if a frame produced by \<open>Pack\<close> is at the front of the receive buffer,
  \<open>Unpack\<close> returns that packet, reports it as done and leaves in the buffer exactly the bytes that follow the frame.
\<close>

theorem v2_roundtrip_stream:
  assumes "gzip_codec gz" "- 1 \<le> level" "level \<le> 9"
    and "pk_Metadata p = Some md" "\<not> md_Gzip md" "length (pk_Body p) < 2 ^ 32"
    and "protocolV2_Pack ord gz level pooled p opts = Some (p', Inr frame)"
    and "iter_order (md_Values md) ord" "wf_values uni md" "md_Verify md \<longrightarrow> v2_section ord md = []"
    and "ctx_Header ctx = None"
    and "ring_reader rb content ok" "ok buf" "content buf = frame @ rest"
  shows "\<exists>m' buf'. protocolV2_Unpack rb uni gz zr pooled' ctx buf =
    Some (ctx\<lparr>ctx_beginUnpack := False\<rparr>, buf',
      Some \<lparr>pk_Metadata = Some (v2_received ctx (md\<lparr>md_Gzip := compresses opts (pk_Body p)\<rparr>) m'),
            pk_Body = pk_Body p\<rparr>, True, None) \<and> ok buf' \<and> content buf' = rest \<and>
    m' \<subseteq>\<^sub>m sent_values md \<and> (v2_fits ord md \<longrightarrow> m' = sent_values md)"
proof -
  obtain body where b: "frame = v2_frame (md\<lparr>md_Gzip := compresses opts (pk_Body p)\<rparr>) (v2_section ord md) body"
    "known_ptype (md_Type md)" "length body \<le> MaxBodyLength"
    "maybe_gunzip gz zr (compresses opts (pk_Body p)) body = (pk_Body p, None)"
    using protocolV2_Pack_sent [OF assms(1-7)] by metis
  obtain m' where m': "\<And>md0. UnmarshalValues uni md0 (v2_section ord md) = Some (md0\<lparr>md_Values := Some m'\<rparr>, None)"
    "m' \<subseteq>\<^sub>m sent_values md" "v2_fits ord md \<longrightarrow> m' = sent_values md" "length (v2_section ord md) < 2 ^ 16"
    using v2_section_parsed [OF assms(8,9)] by metis
  have "v2_step uni gz zr ctx (content buf) = (ctx\<lparr>ctx_beginUnpack := False\<rparr>, rest,
      Some \<lparr>pk_Metadata = Some (v2_received ctx (md\<lparr>md_Gzip := compresses opts (pk_Body p)\<rparr>) m'), pk_Body = pk_Body p\<rparr>, True, None)"
    unfolding assms(14) b(1) by (rule v2_step_frame) (use b m'(1,4) assms(10,11) in simp_all)
  from ring_reader.protocolV2_Unpack_refines [OF assms(12,13) this, of pooled'] m'(2,3) show ?thesis by blast
qed

text \<open>
  C17. The two readers of version 2 agree.  Whenever \<open>Unpack\<close> in a context with no half-read frame reports a packet as done, the
  bytes it has taken from the buffer are one frame, for which \<open>UnpackBytes\<close> returns the same packet
  and leaves the same context.
\<close>

theorem v2_readers_agree:
  assumes "ring_reader rb content ok" "ok buf" "ctx_Header ctx = None"
    and "protocolV2_Unpack rb uni gz zr pooled ctx buf = Some (ctx', buf', packet, True, err)"
  shows "\<exists>frame. content buf = frame @ content buf' \<and>
    protocolV2_UnpackBytes uni gz zr pooled' ctx frame = Some (ctx', packet, None)"
proof -
  obtain ctx1 c1 p1 d1 e1 where st: "v2_step uni gz zr ctx (content buf) = (ctx1, c1, p1, d1, e1)"
    by (metis prod_cases5)
  then have "v2_step uni gz zr ctx (content buf) = (ctx', content buf', packet, True, err)"
    using ring_reader.protocolV2_Unpack_refines [OF assms(1,2) st, of pooled] assms(4) by auto
  from v2_step_consumed [OF this assms(3)] show ?thesis by (simp add: protocolV2_UnpackBytes_eq)
qed

text \<open>
  C18. Neither reader of version 2 panics, on any input and in any context.  \<open>Unpack\<close> consumes a prefix of the buffer and
  keeps a half-read header in the context exactly when it is neither done nor failed; \<open>UnpackBytes\<close> always releases it, leaves
  the unpacking state exactly when there is no error, and then returns a packet with a value map.
\<close>

theorem v2_readers_total:
  assumes "ring_reader rb content ok" "ok buf"
  shows "(\<exists>ctx' buf' packet fin err k. protocolV2_Unpack rb uni gz zr pooled ctx buf = Some (ctx', buf', packet, fin, err) \<and>
      ok buf' \<and> content buf' = drop k (content buf) \<and> (ctx_Header ctx' = None \<longleftrightarrow> fin \<or> err \<noteq> None) \<and>
      \<not> (fin \<and> (packet = None \<or> err \<noteq> None))) \<and>
    (\<exists>ctx' packet err. protocolV2_UnpackBytes uni gz zr pooled ctx bs = Some (ctx', packet, err) \<and>
      ctx_Header ctx' = None \<and> (InUnpack ctx' \<longleftrightarrow> err \<noteq> None) \<and>
      (case err of Some e \<Rightarrow> True
       | None \<Rightarrow> (\<exists>p md m. packet = Some p \<and> pk_Metadata p = Some md \<and> md_Values md = Some m)))"
proof (intro conjI)
  obtain ctx1 c1 p1 d1 e1 where st: "v2_step uni gz zr ctx (content buf) = (ctx1, c1, p1, d1, e1)"
    by (metis prod_cases5)
  obtain buf' where b: "protocolV2_Unpack rb uni gz zr pooled ctx buf = Some (ctx1, buf', p1, d1, e1)" "ok buf'" "content buf' = c1"
    using ring_reader.protocolV2_Unpack_refines [OF assms st, of pooled] by blast
  obtain k where "c1 = drop k (content buf)" "ctx_Header ctx1 = None \<longleftrightarrow> d1 \<or> e1 \<noteq> None" "\<not> (d1 \<and> (p1 = None \<or> e1 \<noteq> None))"
    using v2.frame_step_result [OF st [unfolded v2_step_def]] by (elim conjE exE)
  with b show "\<exists>ctx' buf' packet fin err k. protocolV2_Unpack rb uni gz zr pooled ctx buf = Some (ctx', buf', packet, fin, err) \<and>
      ok buf' \<and> content buf' = drop k (content buf) \<and> (ctx_Header ctx' = None \<longleftrightarrow> fin \<or> err \<noteq> None) \<and>
      \<not> (fin \<and> (packet = None \<or> err \<noteq> None))"
    by (intro exI conjI) simp_all
next
  obtain ctx' packet err where s: "v2_bytes_spec uni gz zr ctx bs = (ctx', packet, err)" by (metis prod_cases3)
  from v2_bytes_spec_result [OF s]
  show "\<exists>ctx' packet err. protocolV2_UnpackBytes uni gz zr pooled ctx bs = Some (ctx', packet, err) \<and>
      ctx_Header ctx' = None \<and> (InUnpack ctx' \<longleftrightarrow> err \<noteq> None) \<and>
      (case err of Some e \<Rightarrow> True
       | None \<Rightarrow> (\<exists>p md m. packet = Some p \<and> pk_Metadata p = Some md \<and> md_Values md = Some m))"
    by (cases err) (auto simp: protocolV2_UnpackBytes_eq s InUnpack_def)
qed

lemma v2_frame_signed:
  assumes "md_Verify md" "length (md_Signature md) \<le> 16"
  shows "v2_frame md sec body = v2_wire (v2_send_header md sec body) @ v2_payload md sec body"
proof -
  have "overlay (overlay (sec @ body @ replicate 24 0) (length body) (be_PutUint64 (md_Nonce md))) (length body + 8) (md_Signature md) =
      v2_payload md sec body"
    using assms(2) overlay_overlay [of "length body" "be_PutUint64 (md_Nonce md)" "md_Signature md" "sec @ body @ replicate 24 0"]
    by (simp add: v2_payload_def)
  then show ?thesis using assms(1) by (simp add: v2_frame_def Let_def overlay_append add.assoc)
qed

lemma v2_payload_tail:
  assumes "length (md_Signature md) \<le> 16"
  shows "length (v2_payload md sec body) = length sec + length body + 24"
    and "drop (length body + length sec) (v2_payload md sec body) =
      drop (length sec) (be_PutUint64 (md_Nonce md) @ pad_signature (md_Signature md)) @ replicate (min (length sec) 24) 0"
proof -
  define w where "w = be_PutUint64 (md_Nonce md) @ md_Signature md"
  define x where "x = sec @ body @ replicate 24 (0 :: byte)"
  have lw: "length w \<le> 24" using assms by (simp add: w_def)
  have lx: "length x = length sec + length body + 24" by (simp add: x_def)
  have p: "v2_payload md sec body = take (length body) x @ w @ drop (length body + length w) x"
    unfolding v2_payload_def w_def [symmetric] x_def [symmetric] using lw lx by (simp add: overlay_def)
  show "length (v2_payload md sec body) = length sec + length body + 24" using lw lx by (simp add: p)
  have z: "drop (length body + length sec + n) x = replicate (24 - n) 0" for n by (simp add: x_def add.commute add.left_commute)
  have "drop (length body + length sec) (v2_payload md sec body) = drop (length sec) (w @ drop (length body + length w) x)"
    using lx by (simp add: p)
  also have "\<dots> = drop (length sec) w @ drop (length sec - length w + (length body + length w)) x" by simp
  also have "length sec - length w + (length body + length w) = length body + length sec + (length w - length sec)" by simp
  also have "drop (length sec) w @ drop \<dots> x = drop (length sec) w @ replicate (24 - (length w - length sec)) 0" by (simp only: z)
  also have "\<dots> = drop (length sec) (w @ replicate (24 - length w) 0) @ replicate (min (length sec) 24) 0"
  proof -
    have "24 - (length w - length sec) = 24 - length w - (length sec - length w) + min (length sec) 24" using lw by linarith
    then show ?thesis by (simp add: replicate_add)
  qed
  also have "w @ replicate (24 - length w) 0 = be_PutUint64 (md_Nonce md) @ pad_signature (md_Signature md)"
    using assms by (simp add: w_def pad_signature_def)
  finally show "drop (length body + length sec) (v2_payload md sec body) =
      drop (length sec) (be_PutUint64 (md_Nonce md) @ pad_signature (md_Signature md)) @ replicate (min (length sec) 24) 0" .
qed

lemma protocolV2_Pack_frame:
  assumes "pk_Metadata p = Some md" and "protocolV2_Pack ord gz level pooled p opts = Some (p', Inr frame)"
  obtains g where "p' = \<lparr>pk_Metadata = Some (md\<lparr>md_Gzip := g\<rparr>), pk_Body = pk_Body p'\<rparr>"
    "v2_pack_plain ord (md\<lparr>md_Gzip := g\<rparr>) (pk_Body p') = Inr frame"
proof (cases "compresses opts (pk_Body p)")
  case False
  then have "p' = p" "v2_pack_plain ord md (pk_Body p) = Inr frame"
    using assms protocolV2_Pack_plain [OF assms(1) False, of ord gz level pooled] by auto
  then show ?thesis using assms(1) by (intro that [of "md_Gzip md"]) simp_all
next
  case True
  obtain z er where z: "gzip_Compress gz level (pk_Body p) = (z, er)" by fastforce
  have "er = None" using assms(2) protocolV2_Pack_fails [OF assms(1) True, of gz level z _ ord pooled] z by (cases er) auto
  then show ?thesis
    using assms(2) protocolV2_Pack_gzip [OF assms(1) True, of gz level z ord pooled] z by (intro that [of True]) auto
qed

lemma v2_pack_plain_InrD:
  assumes "v2_pack_plain ord md body = Inr frame"
  shows "known_ptype (md_Type md)" "length body \<le> MaxBodyLength" "frame = v2_frame md (v2_section ord md) body"
  using assms by (auto simp: v2_pack_plain_def split: if_splits)

lemma v2_signed_read:
  assumes "known_ptype (md_Type md)" "length body \<le> MaxBodyLength" "length sec < 2 ^ 16"
    and "md_Verify md" "length (md_Signature md) \<le> 16" "ctx_Header ctx = None"
    and "v2_bytes_spec uni gz zr ctx (v2_frame md sec body) = (ctx', Some q, None)"
  shows "\<exists>md'. pk_Metadata q = Some md' \<and>
    be_PutUint64 (md_Nonce md') @ md_Signature md' =
      drop (length sec) (be_PutUint64 (md_Nonce md) @ pad_signature (md_Signature md)) @ replicate (min (length sec) 24) 0 \<and>
    maybe_gunzip gz zr (md_Gzip md) (take (length body) (drop (length sec) (v2_payload md sec body))) = (pk_Body q, None)"
proof -
  define h where "h = v2_received_header v2_Header_zero (v2_send_header md sec body)"
  define pl where "pl = v2_payload md sec body"
  note so = v2_send_header_ok [OF assms(1-3)]
  have u: "v2_Header_UnpackBytes (v2_current_header ctx) (v2_frame md sec body) = Some (h, Inr pl)"
    using v2_UnpackBytes_wire [OF so(1,3)] assms(4,5,6)
    by (simp add: v2_frame_signed v2_current_header_def h_def pl_def)
  have f: "unat (h_MetadataLength h) = length sec" "unat (h_BodyLength h) = length body" "h_Verify h = 1"
    "(h_Gzip h = 1) = md_Gzip md" "tail_len h = 24"
    using so assms(4) by (simp_all add: h_def tail_len_def)
  define t where "t = drop (length body + length sec) pl"
  have lp: "length pl = length sec + length body + 24" and t: "t =
      drop (length sec) (be_PutUint64 (md_Nonce md) @ pad_signature (md_Signature md)) @ replicate (min (length sec) 24) 0"
    using v2_payload_tail [OF assms(5)] unfolding pl_def t_def by blast+
  have lt: "length t = 24" using lp by (simp add: t_def)
  obtain md1 er where um: "unmarshal uni (Header_Metadata h ctx) (take (length sec) pl) = (md1, er)" by fastforce
  define b where "b = take (length body) (drop (length sec) pl)"
  obtain out ge where g: "maybe_gunzip gz zr (md_Gzip md) b = (out, ge)" by fastforce
  have "er = None" "ge = None" "q = \<lparr>pk_Metadata = Some (md1\<lparr>md_Nonce := dec64 (take 8 t), md_Signature := drop 8 t\<rparr>), pk_Body = out\<rparr>"
    using assms(7) g lp unfolding v2_bytes_spec_def u Let_def option.sel case_prod_conv sum.case f um t_def [symmetric] b_def [symmetric]
    by (auto simp: finish_packet_def f maybe_gunzip_def t_def split: option.splits prod.splits if_splits)
  then show ?thesis
    using g Put_dec64 [of "take 8 t"] lt unfolding t [symmetric] by (simp add: b_def pl_def)
qed

definition v2_example :: "bool \<Rightarrow> Packet" where
  "v2_example vf = \<lparr>pk_Metadata = Some (Metadata_zero\<lparr>md_Type := RequestPacket, md_CmdCode := 2, md_RequestId := 7,
     md_Timeout := 500, md_Verify := vf, md_Nonce := 9, md_Signature := [1, 2, 3],
     md_Values := Some [[97] \<mapsto> [98]]\<rparr>), pk_Body = [4, 5, 6]\<rparr>"

definition v2_example_frame :: "bool \<Rightarrow> bytes" where
  "v2_example_frame vf =
     (let md = the (pk_Metadata (v2_example vf)) in v2_frame md (v2_section [[97]] md) (pk_Body (v2_example vf)))"

lemma v2_example_packed:
  "protocolV2_Pack [[97]] stored_gz 6 v2_Header_zero (v2_example vf) [] = Some (v2_example vf, Inr (v2_example_frame vf))"
  by (subst protocolV2_Pack_plain [where md = "the (pk_Metadata (v2_example vf))"])
     (simp_all add: v2_example_def v2_example_frame_def compresses_def NewPackOptions_def v2_pack_plain_def
      MaxBodyLength_def known_ptype_def Metadata_zero_def Let_def)

lemma v2_example_frames:
  "v2_example_frame True = [17, 2, 0, 0, 0, 7, 1, 244, 0, 4, 0, 0, 3, 1, 97, 1, 0, 0, 0, 0, 0, 0, 0, 9, 1, 2, 3,
     0, 0, 0, 0, 0, 0, 0, 0, 0, 0, 0, 0, 0, 0, 0, 0, 0]"
  "v2_example_frame False = [1, 2, 0, 0, 0, 7, 1, 244, 0, 4, 0, 0, 3, 1, 97, 1, 98, 4, 5, 6]"
  by code_simp+

lemma v2_example_read:
  "case v2_bytes_spec id stored_gz None (NewContext ClientSide :: (v2_Header, unit) Context) (v2_example_frame True) of
     (ctx', Some q, None) \<Rightarrow> pk_Body q = [0, 0, 0] \<and>
       (case pk_Metadata q of None \<Rightarrow> False
        | Some md \<Rightarrow> md_Nonce md = 0x0000000901020300 \<and> Metadata_Get id md [97] = [0])
   | _ \<Rightarrow> False"
proof -
  let ?ctx = "NewContext ClientSide :: (v2_Header, unit) Context"
  define h where "h = v2_Header_zero\<lparr>h_Type := 1, h_Verify := 1, h_CmdCode := 2, h_RequestId := 7, h_Timeout := 500,
    h_MetadataLength := 4, h_BodyLength := 3\<rparr>"
  define data :: bytes where "data = [1, 97, 1, 0, 0, 0, 0, 0, 0, 0, 9, 1, 2, 3,
     0, 0, 0, 0, 0, 0, 0, 0, 0, 0, 0, 0, 0, 0, 0, 0, 0]"
  have u: "v2_Header_UnpackBytes v2_Header_zero (v2_example_frame True) = Some (h, Inr data)"
    unfolding v2_example_frames h_def data_def by code_simp
  have cur: "v2_current_header ?ctx = v2_Header_zero" by (simp add: v2_current_header_def NewContext_def)
  have "[1, 97, 1, 0] = enc_entries [([97], [0])]" "list_all storable [([97], [0])]"
    by (simp_all add: enc_entry_def marshalString_def max7BitLength_def storable_def)
  then have m: "unmarshal id md [1, 97, 1, 0] = (md\<lparr>md_Values := Some [[97] \<mapsto> [0]]\<rparr>, None)" for md
    using UnmarshalValues_enc [of "[([97], [0])]" id md]
    by (simp add: unmarshal_def strings_ToLower_def ascii_lower_def)
  have n: "dec64 [0, 0, 0, 9, 1, 2, 3, 0] = 0x0000000901020300" by code_simp
  have d: "take 4 data = [1, 97, 1, 0]" "take 3 (drop 4 data) = [0, 0, 0]" "take 8 (drop (3 + 4) data) = [0, 0, 0, 9, 1, 2, 3, 0]"
    "length data = 31"
    by (simp_all add: data_def)
  have f: "unat (h_MetadataLength h) = 4" "unat (h_BodyLength h) = 3" "h_Verify h = 1" "h_Gzip h = 0" "tail_len h = 24"
    by (simp_all add: h_def v2_Header_zero_def tail_len_def)
  show ?thesis
    unfolding v2_bytes_spec_def cur u option.sel Let_def case_prod_conv sum.case f d m finish_packet_def
    by (simp add: f n Metadata_Get_def strings_ToLower_def ascii_lower_def d [simplified])
qed

lemma v2_example_facts:
  "pk_Metadata (v2_example vf) = Some (the (pk_Metadata (v2_example vf)))" "\<not> md_Gzip (the (pk_Metadata (v2_example vf)))"
  "length (pk_Body (v2_example vf)) < 2 ^ 32"
  "iter_order (md_Values (the (pk_Metadata (v2_example vf)))) [[97]]" "wf_values id (the (pk_Metadata (v2_example vf)))"
  "md_Verify (the (pk_Metadata (v2_example False))) \<longrightarrow> v2_section [[97]] (the (pk_Metadata (v2_example False))) = []"
  by (simp_all add: v2_example_def Metadata_zero_def iter_order_def wf_values_def lower_keys_def strings_ToLower_def ascii_lower_def)

lemma v2_example_sent: "sent_values (the (pk_Metadata (v2_example vf))) = [[97] \<mapsto> [98]]"
  by (auto simp: v2_example_def sent_values_def wire_map_def sendable_def storable_def fun_eq_iff)

lemma v2_example_fits: "v2_fits [[97]] (the (pk_Metadata (v2_example vf)))"
  by (simp add: v2_fits_def v2_example_def map_entries_def List.map_filter_simps sendable_def storable_def
      enc_entry_def marshalString_def max7BitLength_def MaxMetadataLength_def)

text \<open>The facts about the example packet, for the applications below.\<close>

lemma NewContext_facts [simp]:
  "ctx_Header (NewContext side) = None" "(NewContext side)\<lparr>ctx_beginUnpack := False\<rparr> = NewContext side"
  by (simp_all add: NewContext_def)

theorem v2_roundtrip_bytes_witness:
  "protocolV2_UnpackBytes id stored_gz None v2_Header_zero (NewContext ClientSide :: (v2_Header, unit) Context)
     [1, 2, 0, 0, 0, 7, 1, 244, 0, 4, 0, 0, 3, 1, 97, 1, 98, 4, 5, 6] =
   Some (NewContext ClientSide,
     Some \<lparr>pk_Metadata = Some (v2_received (NewContext ClientSide :: (v2_Header, unit) Context)
       ((the (pk_Metadata (v2_example False)))\<lparr>md_Gzip := False\<rparr>) [[97] \<mapsto> [98]]), pk_Body = [4, 5, 6]\<rparr>, None)"
proof -
  have b: "pk_Body (v2_example False) = [4, 5, 6]" "\<not> compresses [] (pk_Body (v2_example False))"
    by (simp_all add: v2_example_def compresses_def NewPackOptions_def)
  show ?thesis
    using v2_roundtrip_bytes [OF stored.gzip_codec_axioms _ _ v2_example_facts(1,2,3) v2_example_packed v2_example_facts(4,5,6),
        of "NewContext ClientSide :: (v2_Header, unit) Context" None v2_Header_zero] b
    by (simp add: v2_example_frames v2_example_fits v2_example_sent)
qed

theorem v2_roundtrip_stream_witness:
  "\<exists>buf'. protocolV2_Unpack circ_ops id stored_gz None v2_Header_zero (NewContext ClientSide :: (v2_Header, unit) Context)
     (circ_with (v2_example_frame False @ [19, 1])) =
   Some (NewContext ClientSide, buf',
     Some \<lparr>pk_Metadata = Some (v2_received (NewContext ClientSide :: (v2_Header, unit) Context)
       ((the (pk_Metadata (v2_example False)))\<lparr>md_Gzip := False\<rparr>) [[97] \<mapsto> [98]]), pk_Body = [4, 5, 6]\<rparr>, True, None) \<and>
   circ_content buf' = [19, 1]"
proof -
  have b: "pk_Body (v2_example False) = [4, 5, 6]" "\<not> compresses [] (pk_Body (v2_example False))"
    by (simp_all add: v2_example_def compresses_def NewPackOptions_def)
  show ?thesis
    using v2_roundtrip_stream [OF stored.gzip_codec_axioms _ _ v2_example_facts(1,2,3) v2_example_packed v2_example_facts(4,5,6)
        _ circ.ring_reader_axioms circ_with_spec, of "NewContext ClientSide :: (v2_Header, unit) Context" None v2_Header_zero] b
    by (auto simp: v2_example_fits v2_example_sent)
qed

theorem v2_readers_agree_witness:
  "\<exists>frame packet. v2_example_frame False @ [19, 1] = frame @ [19, 1] \<and>
     protocolV2_UnpackBytes id stored_gz None v2_Header_zero (NewContext ClientSide :: (v2_Header, unit) Context) frame =
       Some (NewContext ClientSide, packet, None)"
proof -
  let ?ctx = "NewContext ClientSide :: (v2_Header, unit) Context"
  let ?md = "the (pk_Metadata (v2_example False))"
  obtain m' where m': "\<And>md0. UnmarshalValues id md0 (v2_section [[97]] ?md) = Some (md0\<lparr>md_Values := Some m'\<rparr>, None)"
    "length (v2_section [[97]] ?md) < 2 ^ 16"
    using v2_section_parsed [OF v2_example_facts(4,5)] by metis
  have ok: "known_ptype (md_Type ?md)" "length (pk_Body (v2_example False)) \<le> MaxBodyLength"
    "maybe_gunzip stored_gz None (md_Gzip ?md) (pk_Body (v2_example False)) = ([4, 5, 6], None)"
    by (simp_all add: v2_example_def known_ptype_def MaxBodyLength_def Metadata_zero_def maybe_gunzip_def)
  have c: "circ_content (circ_with (v2_example_frame False @ [19, 1])) =
      v2_frame ?md (v2_section [[97]] ?md) (pk_Body (v2_example False)) @ [19, 1]"
    by (simp add: circ_with_spec v2_example_frame_def Let_def)
  have "\<exists>buf'. protocolV2_Unpack circ_ops id stored_gz None v2_Header_zero ?ctx (circ_with (v2_example_frame False @ [19, 1])) =
      Some (?ctx\<lparr>ctx_beginUnpack := False\<rparr>, buf', Some \<lparr>pk_Metadata = Some (v2_received ?ctx ?md m'), pk_Body = [4, 5, 6]\<rparr>, True, None) \<and>
      circ_inv buf' \<and> circ_content buf' = [19, 1]"
    by (rule circ.protocolV2_Unpack_refines [OF circ_with_spec(1)], unfold c)
       (rule v2_step_frame [OF ok(1,2) m'(2,1) v2_example_facts(6) NewContext_facts(1) ok(3)])
  then obtain buf' where b: "protocolV2_Unpack circ_ops id stored_gz None v2_Header_zero ?ctx (circ_with (v2_example_frame False @ [19, 1])) =
      Some (?ctx, buf', Some \<lparr>pk_Metadata = Some (v2_received ?ctx ?md m'), pk_Body = [4, 5, 6]\<rparr>, True, None)"
    "circ_content buf' = [19, 1]" by auto
  show ?thesis
    using v2_readers_agree [OF circ.ring_reader_axioms circ_with_spec(1) NewContext_facts(1) b(1), of v2_Header_zero] b(2)
    by (auto simp: circ_with_spec)
qed

theorem v2_readers_total_witness:
  "\<exists>ctx' buf' packet fin err k. protocolV2_Unpack circ_ops id stored_gz None v2_Header_zero
      (NewContext ClientSide :: (v2_Header, unit) Context) (circ_with [17, 2, 0]) = Some (ctx', buf', packet, fin, err) \<and>
    circ_inv buf' \<and> circ_content buf' = drop k [17, 2, 0] \<and> (ctx_Header ctx' = None \<longleftrightarrow> fin \<or> err \<noteq> None) \<and>
    \<not> (fin \<and> (packet = None \<or> err \<noteq> None))"
  using v2_readers_total [OF circ.ring_reader_axioms circ_with_spec(1) [of "[17, 2, 0]"], of id stored_gz None v2_Header_zero
      "NewContext ClientSide :: (v2_Header, unit) Context" "[]"]
  unfolding circ_with_spec(2) by (rule conjunct1)



end
