(* ===== verification/Client_Options.thy ===== *)
theory Client_Options
  imports Go_Errors
begin

text \<open>
  Dial and request options (\<open>go/client/options.go\<close>).

  A duration is an integer number of nanoseconds.  Go's \<open>int\<close> has 64 bits; the only arithmetic on it here is the shift of
  \<open>ReadBufferSize\<close>, which is written with its wrap-around.  An option is a function on the options, as in
  the source; \<open>std_option\<close> names the ones this package makes.  The type of the token getter is a parameter of the record.
\<close>

definition time_Second :: int where "time_Second = 1000000000"

definition defaultDialTimeout :: int where "defaultDialTimeout = time_Second * 5"
definition defaultAuthTimeout :: int where "defaultAuthTimeout = time_Second * 10"
definition defaultKeepalive :: int where "defaultKeepalive = time_Second * 60"
definition defaultKeepaliveTimeout :: int where "defaultKeepaliveTimeout = defaultKeepalive * 2"
definition defaultWriteQueueSize :: int where "defaultWriteQueueSize = 16"
definition defaultReadBufferSize :: int where "defaultReadBufferSize = 4096"
definition defaultReadQueueSize :: int where "defaultReadQueueSize = 16"
definition defaultMinGzipSize :: int where "defaultMinGzipSize = 1024"
definition defaultRequestTimeout :: int where "defaultRequestTimeout = time_Second * 10"

record 'g DialOptions =
  do_AuthTokenGetter :: "'g option"
  do_AuthTimeout :: int
  do_Timeout :: int
  do_Keepalive :: int
  do_KeepaliveTimeout :: int
  do_WriteQueueSize :: int
  do_ReadQueueSize :: int
  do_ReadBufferSize :: int
  do_MinGzipSize :: int
  do_MaxReconnect :: int
  do_ProxyFor :: string

type_synonym 'g DialOption = "'g DialOptions \<Rightarrow> 'g DialOptions"

definition newDialOptions :: "'g DialOption list \<Rightarrow> 'g DialOptions" where
  "newDialOptions opts =
     foldl (\<lambda>o' opt. opt o')
       \<lparr>do_AuthTokenGetter = None, do_AuthTimeout = defaultAuthTimeout, do_Timeout = defaultDialTimeout,
        do_Keepalive = defaultKeepalive, do_KeepaliveTimeout = defaultKeepaliveTimeout,
        do_WriteQueueSize = defaultWriteQueueSize, do_ReadQueueSize = defaultReadQueueSize,
        do_ReadBufferSize = defaultReadBufferSize, do_MinGzipSize = defaultMinGzipSize,
        do_MaxReconnect = 0, do_ProxyFor = []\<rparr> opts"

text \<open>\<open>i << n\<close> on a 64-bit signed integer.\<close>

definition shl64 :: "int \<Rightarrow> nat \<Rightarrow> int" where
  "shl64 i n = sint (push_bit n (word_of_int i :: 64 word))"

definition ReadBufferSize :: "int \<Rightarrow> 'g DialOption" where
  "ReadBufferSize i = (\<lambda>o'. if i > 0 then o'\<lparr>do_ReadBufferSize := shl64 i 10\<rparr> else o')"

definition ReadQueueSize :: "int \<Rightarrow> 'g DialOption" where
  "ReadQueueSize i = (\<lambda>o'. if i > 0 then o'\<lparr>do_ReadQueueSize := i\<rparr> else o')"

definition WriteQueueSize :: "int \<Rightarrow> 'g DialOption" where
  "WriteQueueSize i = (\<lambda>o'. if i > 0 then o'\<lparr>do_WriteQueueSize := i\<rparr> else o')"

definition DialTimeout :: "int \<Rightarrow> 'g DialOption" where
  "DialTimeout d = (\<lambda>o'. if d > 0 then o'\<lparr>do_Timeout := d\<rparr> else o')"

definition Keepalive :: "int \<Rightarrow> 'g DialOption" where
  "Keepalive d = (\<lambda>o'. if d > 0 then o'\<lparr>do_Keepalive := d\<rparr> else o')"

definition KeepaliveTimeout :: "int \<Rightarrow> 'g DialOption" where
  "KeepaliveTimeout d = (\<lambda>o'. if d > 0 then o'\<lparr>do_KeepaliveTimeout := d\<rparr> else o')"

definition AuthTimeout :: "int \<Rightarrow> 'g DialOption" where
  "AuthTimeout d = (\<lambda>o'. if d > 0 then o'\<lparr>do_AuthTimeout := d\<rparr> else o')"

definition opt_MinGzipSize :: "int \<Rightarrow> 'g DialOption" where
  "opt_MinGzipSize i = (\<lambda>o'. if i > 0 then o'\<lparr>do_MinGzipSize := i\<rparr> else o')"

definition MaxReconnect :: "int \<Rightarrow> 'g DialOption" where
  "MaxReconnect i = (\<lambda>o'. if i > 0 then o'\<lparr>do_MaxReconnect := i\<rparr> else o')"

definition WithAuthTokenGetter :: "'g option \<Rightarrow> 'g DialOption" where
  "WithAuthTokenGetter f = (\<lambda>o'. o'\<lparr>do_AuthTokenGetter := f\<rparr>)"

record RequestOptions =
  ro_timeout :: int

type_synonym RequestOption = "RequestOptions \<Rightarrow> RequestOptions"

definition newRequestOptions :: "RequestOption list \<Rightarrow> RequestOptions" where
  "newRequestOptions opts = foldl (\<lambda>o' opt. opt o') \<lparr>ro_timeout = defaultRequestTimeout\<rparr> opts"

definition RequestTimeout :: "int \<Rightarrow> RequestOption" where
  "RequestTimeout d = (\<lambda>o'. if d > 0 then o'\<lparr>ro_timeout := d\<rparr> else o')"

lemmas option_defs = ReadBufferSize_def ReadQueueSize_def WriteQueueSize_def DialTimeout_def Keepalive_def
  KeepaliveTimeout_def AuthTimeout_def opt_MinGzipSize_def MaxReconnect_def WithAuthTokenGetter_def

lemmas default_defs = defaultDialTimeout_def defaultAuthTimeout_def defaultKeepalive_def defaultKeepaliveTimeout_def
  defaultWriteQueueSize_def defaultReadBufferSize_def defaultReadQueueSize_def defaultMinGzipSize_def
  defaultRequestTimeout_def time_Second_def

subsection \<open>Well-formed options\<close>

text \<open>What the connections rely on: channel capacities and buffer sizes that Go's \<open>make\<close> accepts, timeouts in the future.\<close>

definition wf_dial :: "'g DialOptions \<Rightarrow> bool" where
  "wf_dial o' \<longleftrightarrow> 0 < do_AuthTimeout o' \<and> 0 < do_Timeout o' \<and> 0 < do_Keepalive o' \<and> 0 < do_KeepaliveTimeout o' \<and>
     0 < do_WriteQueueSize o' \<and> 0 < do_ReadQueueSize o' \<and> 0 < do_ReadBufferSize o' \<and> 0 < do_MinGzipSize o' \<and>
     0 \<le> do_MaxReconnect o'"

definition std_option :: "'g DialOption \<Rightarrow> bool" where
  "std_option f \<longleftrightarrow> (\<exists>i. i < 2 ^ 53 \<and> f = ReadBufferSize i) \<or> (\<exists>i. f = ReadQueueSize i) \<or> (\<exists>i. f = WriteQueueSize i) \<or>
     (\<exists>d. f = DialTimeout d) \<or> (\<exists>d. f = Keepalive d) \<or> (\<exists>d. f = KeepaliveTimeout d) \<or> (\<exists>d. f = AuthTimeout d) \<or>
     (\<exists>i. f = opt_MinGzipSize i) \<or> (\<exists>i. f = MaxReconnect i) \<or> (\<exists>g. f = WithAuthTokenGetter g)"

lemma shl64_small:
  assumes "0 \<le> i" "i < 2 ^ 53"
  shows "shl64 i 10 = i * 1024"
proof -
  have "(push_bit 10 (word_of_int i) :: 64 word) = word_of_int (i * 1024)"
    by (simp add: push_bit_eq_mult mult.commute)
  moreover have "signed_take_bit 63 (i * 1024) = i * 1024"
    using assms by (intro signed_take_bit_int_eq_self) auto
  moreover have "sint (word_of_int k :: 64 word) = signed_take_bit 63 k" for k
    by (simp add: sint_sbintrunc')
  ultimately show ?thesis by (simp only: shl64_def)
qed

lemma shl64_wraps: "shl64 (2 ^ 53) 10 < 0"
  unfolding shl64_def by simp

lemma std_option_wf:
  assumes "std_option f" "wf_dial o'"
  shows "wf_dial (f o')"
  using assms shl64_small by (auto simp: std_option_def wf_dial_def option_defs)

text \<open>
  C40. Options built by this package, in any number and order, keep every dial option usable: positive timeouts, intervals, queue
  capacities, buffer size and compression threshold, as long as the read buffer is set to less than \<open>2^53\<close> KB; from \<open>2^53\<close> on the
  shift overflows to a negative size.  Every request has a positive timeout, whatever request timeouts are given.
\<close>

theorem dial_options_wf:
  fixes opts :: "'g DialOption list" and ds :: "int list"
  shows "((\<forall>f \<in> set opts. std_option f) \<longrightarrow> wf_dial (newDialOptions opts)) \<and>
    \<not> wf_dial (newDialOptions [ReadBufferSize (2 ^ 53) :: 'g DialOption]) \<and>
    0 < ro_timeout (newRequestOptions (map RequestTimeout ds))"
proof (intro conjI impI)
  assume "\<forall>f \<in> set opts. std_option f"
  moreover have "wf_dial o' \<Longrightarrow> \<forall>f \<in> set opts. std_option f \<Longrightarrow> wf_dial (foldl (\<lambda>o' opt. opt o') o' opts)" for o' :: "'g DialOptions"
    by (induction opts arbitrary: o') (simp_all add: std_option_wf)
  ultimately show "wf_dial (newDialOptions opts)"
    by (simp add: newDialOptions_def wf_dial_def default_defs)
next
  show "\<not> wf_dial (newDialOptions [ReadBufferSize (2 ^ 53) :: 'g DialOption])"
    using shl64_wraps by (simp add: newDialOptions_def wf_dial_def ReadBufferSize_def)
next
  have "0 < ro_timeout o' \<Longrightarrow> 0 < ro_timeout (foldl (\<lambda>o' opt. opt o') o' (map RequestTimeout ds))" for o' :: RequestOptions
    by (induction ds arbitrary: o') (simp_all add: RequestTimeout_def)
  then show "0 < ro_timeout (newRequestOptions (map RequestTimeout ds))"
    by (simp add: newRequestOptions_def default_defs)
qed

theorem dial_options_wf_witness:
  "wf_dial (newDialOptions [ReadBufferSize 8, Keepalive 5, MaxReconnect 3 :: unit DialOption])"
proof -
  have "\<forall>f \<in> set [ReadBufferSize 8, Keepalive 5, MaxReconnect 3 :: unit DialOption]. std_option f"
    by (auto simp: std_option_def intro: exI [of _ 8])
  then show ?thesis
    using dial_options_wf [of "[ReadBufferSize 8, Keepalive 5, MaxReconnect 3 :: unit DialOption]" "[]"] by blast
qed

end
