(* ===== verification/Go_Chan.thy ===== *)
theory Go_Chan
  imports Go_Prelude
begin

text \<open>
  Go channels, as far as the connections use them: buffered channels with non-blocking sends
  (\<open>select\<close> with a \<open>default\<close>), receives that may block, and \<open>close\<close>.  Sending on or closing a closed
  channel panics.  A send on a full channel fails without blocking; a channel without capacity is not used with this form.
\<close>

record 'a chan =
  ch_buf :: "'a list"
  ch_cap :: nat
  ch_closed :: bool

datatype 'a received = Got 'a "'a chan" | Closed | Blocks

definition make_chan :: "int \<Rightarrow> 'a chan go" where
  "make_chan n = (if n < 0 then None else Some \<lparr>ch_buf = [], ch_cap = nat n, ch_closed = False\<rparr>)"

definition try_send :: "'a chan \<Rightarrow> 'a \<Rightarrow> ('a chan \<times> bool) go" where
  "try_send ch x =
     (if ch_closed ch then None
      else if length (ch_buf ch) < ch_cap ch then Some (ch\<lparr>ch_buf := ch_buf ch @ [x]\<rparr>, True)
      else Some (ch, False))"

definition try_recv :: "'a chan \<Rightarrow> 'a received" where
  "try_recv ch =
     (case ch_buf ch of
        x # xs \<Rightarrow> Got x (ch\<lparr>ch_buf := xs\<rparr>)
      | [] \<Rightarrow> if ch_closed ch then Closed else Blocks)"

definition close_chan :: "'a chan \<Rightarrow> 'a chan go" where
  "close_chan ch = (if ch_closed ch then None else Some (ch\<lparr>ch_closed := True\<rparr>))"

text \<open>The invariant of a channel, and what the operations do to the queue it holds.\<close>

definition chan_ok :: "'a chan \<Rightarrow> bool" where
  "chan_ok ch \<longleftrightarrow> length (ch_buf ch) \<le> ch_cap ch"

lemma make_chan_ok: "make_chan n = Some ch \<Longrightarrow> chan_ok ch \<and> ch_buf ch = [] \<and> \<not> ch_closed ch \<and> int (ch_cap ch) = n"
  by (auto simp: make_chan_def chan_ok_def split: if_splits)

lemma try_send_take:
  assumes "chan_ok ch" "try_send ch x = Some (ch', sent)"
  shows "chan_ok ch'" "ch_buf ch' = take (ch_cap ch) (ch_buf ch @ [x])" "ch_cap ch' = ch_cap ch"
    "\<not> ch_closed ch'" "\<not> ch_closed ch" "sent \<longleftrightarrow> length (ch_buf ch) < ch_cap ch"
  using assms by (auto simp: try_send_def chan_ok_def split: if_splits)

lemma try_recv_Got: "try_recv ch = Got x ch' \<longleftrightarrow> ch_buf ch = x # ch_buf ch' \<and> ch' = ch\<lparr>ch_buf := tl (ch_buf ch)\<rparr>"
  by (auto simp: try_recv_def split: list.splits if_splits)

lemma try_recv_ok: "try_recv ch = Got x ch' \<Longrightarrow> (chan_ok ch \<longrightarrow> chan_ok ch') \<and> ch_closed ch' = ch_closed ch"
  by (auto simp: try_recv_def chan_ok_def split: list.splits if_splits)

end
