(* ===== verification/Client_Conn.thy ===== *)
theory Client_Conn
  imports V2 Client_Options Go_Chan
begin

text \<open>
  What the two kinds of connection share (\<open>go/client/client_conn.go\<close>, the \<open>Protocol\<close> interface of
  \<open>go/protocol.go\<close>): the registry of dialers, close callbacks, and the interface between a connection and a protocol version.

  A Go interface value is a record of functions: \<open>Protocol\<close> for a protocol version, instantiated by
  \<open>v1_protocol\<close> and \<open>v2_protocol\<close>.  The locale \<open>stream_protocol\<close> is what the read loop of a TCP connection
  relies on: \<open>Unpack\<close> is a step of a stream reader on the bytes of the buffer.  Both versions are shown to satisfy it,
  on any ring buffer and on its flat buffers.

  A callback is a value of the type parameter \<open>'cb\<close>; dispatching returns the calls made, in order.
\<close>

subsection \<open>Dialers\<close>

type_synonym 'f dialers = "string \<rightharpoonup> 'f"

definition RegisterDialer :: "'f dialers \<Rightarrow> string \<Rightarrow> 'f \<Rightarrow> 'f dialers go" where
  "RegisterDialer m scheme fn = (if scheme \<in> dom m then None else Some (m(scheme \<mapsto> fn)))"

definition GetDialer :: "'f dialers \<Rightarrow> string \<Rightarrow> 'f option \<times> bool" where
  "GetDialer m scheme = (m scheme, scheme \<in> dom m)"

text \<open>The registrations of the two \<open>init\<close> functions.\<close>

definition tcp_init :: "'f \<Rightarrow> 'f dialers \<Rightarrow> 'f dialers go" where
  "tcp_init tcp m = RegisterDialer m ''tcp'' tcp"

definition ws_init :: "'f \<Rightarrow> 'f dialers \<Rightarrow> 'f dialers go" where
  "ws_init ws m = do { m \<leftarrow> RegisterDialer m ''wss'' ws; RegisterDialer m ''ws'' ws }"

subsection \<open>Close callbacks\<close>

record 'cb closeCallback =
  callbacks :: "'cb list"

definition newCloseCallback :: "'cb closeCallback" where
  "newCloseCallback = \<lparr>callbacks = []\<rparr>"

definition closeCallback_OnClose :: "'cb closeCallback \<Rightarrow> 'cb \<Rightarrow> 'cb closeCallback" where
  "closeCallback_OnClose c cb = c\<lparr>callbacks := callbacks c @ [cb]\<rparr>"

definition DispatchClose :: "'cb closeCallback \<Rightarrow> error option \<Rightarrow> ('cb \<times> error option) list" where
  "DispatchClose c err = map (\<lambda>cb. (cb, err)) (callbacks c)"

subsection \<open>The protocol interface\<close>

record ('h, 'i, 'b) Protocol =
  prot_Version :: "8 word"
  prot_Pack :: "('h, 'i) Context \<Rightarrow> Packet \<Rightarrow> PackOption list \<Rightarrow> (Packet \<times> (error + bytes)) go"
  prot_Unpack :: "('h, 'i) Context \<Rightarrow> 'b \<Rightarrow> (('h, 'i) Context \<times> 'b \<times> Packet option \<times> bool \<times> error option) go"
  prot_UnpackBytes :: "('h, 'i) Context \<Rightarrow> bytes \<Rightarrow> (('h, 'i) Context \<times> Packet option \<times> error option) go"

definition v1_protocol ::
    "'b rb_ops \<Rightarrow> ('w, 'r) gz_lib \<Rightarrow> int \<Rightarrow> 'r option \<Rightarrow> Header \<Rightarrow> (Header, 'i, 'b) Protocol" where
  "v1_protocol rb gz level zr pooled =
     \<lparr>prot_Version = protocolV1_Version,
      prot_Pack = (\<lambda>ctx. protocolV1_Pack gz level pooled),
      prot_Unpack = protocolV1_Unpack rb gz zr pooled,
      prot_UnpackBytes = protocolV1_UnpackBytes gz zr pooled\<rparr>"

text \<open>\<open>rangeord\<close> gives the order in which the runtime ranges over a map.\<close>

definition v2_protocol ::
    "'b rb_ops \<Rightarrow> (bytes \<Rightarrow> bytes) \<Rightarrow> ((bytes \<rightharpoonup> bytes) option \<Rightarrow> bytes list) \<Rightarrow> ('w, 'r) gz_lib \<Rightarrow> int
     \<Rightarrow> 'r option \<Rightarrow> v2_Header \<Rightarrow> (v2_Header, 'i, 'b) Protocol" where
  "v2_protocol rb uni rangeord gz level zr pooled =
     \<lparr>prot_Version = protocolV2_Version,
      prot_Pack = (\<lambda>ctx p. protocolV2_Pack
         (case pk_Metadata p of None \<Rightarrow> [] | Some md \<Rightarrow> rangeord (md_Values md)) gz level pooled p),
      prot_Unpack = protocolV2_Unpack rb uni gz zr pooled,
      prot_UnpackBytes = protocolV2_UnpackBytes uni gz zr pooled\<rparr>"

locale stream_protocol = stream_reader step pending
  for step :: "(('h, 'i) Context, Packet) reader" and pending :: "('h, 'i) Context \<Rightarrow> nat" +
  fixes prot :: "('h, 'i, 'b) Protocol" and content :: "'b \<Rightarrow> bytes" and ok :: "'b \<Rightarrow> bool"
  assumes Unpack_step: "ok buf \<Longrightarrow> step ctx (content buf) = (ctx', c', p, fin, err) \<Longrightarrow>
     \<exists>buf'. prot_Unpack prot ctx buf = Some (ctx', buf', p, fin, err) \<and> ok buf' \<and> content buf' = c'"

lemma v1_step_frame_step': "v1_step gz zr = frame_step h_IsUnpacked Header_zero v1_header_step v1_size (v1_finish gz zr)"
  by (intro ext) (rule v1_step_frame_step)

lemma v1_stream_protocol:
  assumes "ring_reader rb content ok"
  shows "stream_protocol (v1_step gz zr) ctx_pending (v1_protocol rb gz level zr pooled) content ok"
  using ring_reader.protocolV1_Unpack_refines [OF assms] v1.stream_reader_axioms
  by (auto simp: stream_protocol_def stream_protocol_axioms_def v1_protocol_def v1_step_frame_step')

lemma v2_stream_protocol:
  assumes "ring_reader rb content ok"
  shows "stream_protocol (v2_step uni gz zr) ctx_pending (v2_protocol rb uni rangeord gz level zr pooled) content ok"
  using ring_reader.protocolV2_Unpack_refines [OF assms] v2.stream_reader_axioms
  by (auto simp: stream_protocol_def stream_protocol_axioms_def v2_protocol_def v2_step_def)

text \<open>On the circular buffer.\<close>

interpretation v1_circ: stream_protocol "v1_step gz zr" ctx_pending "v1_protocol circ_ops gz level zr pooled" circ_content circ_inv
  for gz zr level pooled
  by (rule v1_stream_protocol [OF circ.ring_reader_axioms])

interpretation v2_circ: stream_protocol "v2_step uni gz zr" ctx_pending "v2_protocol circ_ops uni rangeord gz level zr pooled"
    circ_content circ_inv
  for uni rangeord gz zr level pooled
  by (rule v2_stream_protocol [OF circ.ring_reader_axioms])

subsection \<open>Properties\<close>

text \<open>
  Dialers are registered once per scheme: after the two \<open>init\<close> functions, in either order, exactly the schemes \<open>tcp\<close>, \<open>ws\<close> and
  \<open>wss\<close> have a dialer, the one registered for them, and registering any of them again panics while any other scheme is accepted.
\<close>

theorem dialers_registered:
  "\<exists>m. (do { m \<leftarrow> tcp_init tcp Map.empty; ws_init ws m }) = Some m \<and> (do { m \<leftarrow> ws_init ws Map.empty; tcp_init tcp m }) = Some m \<and>
     GetDialer m ''tcp'' = (Some tcp, True) \<and> GetDialer m ''ws'' = (Some ws, True) \<and> GetDialer m ''wss'' = (Some ws, True) \<and>
     (snd (GetDialer m s) \<longleftrightarrow> s \<in> {''tcp'', ''ws'', ''wss''}) \<and>
     (RegisterDialer m s f = None \<longleftrightarrow> s \<in> {''tcp'', ''ws'', ''wss''})"
  by (auto simp: tcp_init_def ws_init_def RegisterDialer_def GetDialer_def fun_upd_twist)

end
