(* ===== verification/Tcp_Conn.thy ===== *)
theory Tcp_Conn
  imports Client_Conn
begin

text \<open>
  The TCP connection (\<open>go/client/tcp_conn.go\<close>).

  The record \<open>tcpConn\<close> is the state that the three goroutines of a connection share: the channels, the protocol context and the
  receive buffer of \<open>reading\<close>, the unsent rest of \<open>writing\<close> (\<open>tc_wbuf\<close>), and of the network connection what has been handed to it
  (\<open>tc_sent\<close>) and whether it was closed.  The operations are one iteration of \<open>reading\<close>
  for one result of \<open>conn.Read\<close>, one iteration of \<open>writing\<close> for one ready case of its \<open>select\<close>, one iteration of the delivery
  goroutine of \<open>OnPacket\<close>, and \<open>Write\<close>, \<open>Close\<close> and \<open>OnPacket\<close>.  Where one of them checks \<open>closed\<close>, what follows the check is an operation of its
  own (\<open>tcp_read\<close>, \<open>tcp_unpack\<close>, \<open>tcp_writing_select\<close>, \<open>tcp_receive\<close>, \<open>tcp_finish\<close>, \<open>tcp_enqueue\<close>), so that runs can close the connection in between;
  the body of \<open>closeOnce\<close> is one step.  What the network does (read and write results, the outcome of dialling) is an argument.
  A blocking operation that is not ready leaves the state unchanged.  Logging is left out.

  Main results: the packets delivered do not depend on how TCP splits the stream, bytes are sent in order without loss or
  duplication whatever partial writes occur, a connection sends the handshake first, closing is done once.
\<close>

definition colon :: byte where "colon = 58"

text \<open>\<open>strings.SplitN(p, ":", 2)\<close>, then the two parts.\<close>

definition SplitN2 :: "byte \<Rightarrow> bytes \<Rightarrow> bytes list" where
  "SplitN2 sep s =
     (if sep \<in> set s then [takeWhile (\<lambda>c. c \<noteq> sep) s, tl (dropWhile (\<lambda>c. c \<noteq> sep) s)] else [s])"

definition parseHostAndPort :: "bytes \<Rightarrow> (bytes \<times> bytes) go" where
  "parseHostAndPort p = do {
     let parts = SplitN2 colon p;
     host \<leftarrow> idx parts 0;
     port \<leftarrow> idx parts 1;
     Some (host, port) }"

record ('h, 'i, 'b, 'cb, 'g) tcpConn =
  tc_callbacks :: "'cb closeCallback"
  tc_closeOnce :: bool
  tc_onPacketOnce :: bool
  tc_qctx :: "('h, 'i) Context"
  tc_p :: "('h, 'i, 'b) Protocol"
  tc_closeCh :: "unit chan"
  tc_readBuf :: 'b
  tc_writeCh :: "bytes chan"
  tc_packetCh :: "Packet option chan option"
  tc_dopts :: "'g DialOptions"
  tc_wbuf :: 'b
  tc_sent :: bytes
  tc_netClosed :: bool
  tc_calls :: "('cb \<times> error option) list"

definition tcp_NeedHandleControl :: "('h, 'i, 'b, 'cb, 'g) tcpConn \<Rightarrow> bool" where
  "tcp_NeedHandleControl c = True"

definition tcp_Context :: "('h, 'i, 'b, 'cb, 'g) tcpConn \<Rightarrow> ('h, 'i) Context" where
  "tcp_Context c = tc_qctx c"

definition tcp_OnClose :: "('h, 'i, 'b, 'cb, 'g) tcpConn \<Rightarrow> 'cb \<Rightarrow> ('h, 'i, 'b, 'cb, 'g) tcpConn" where
  "tcp_OnClose c cb = c\<lparr>tc_callbacks := closeCallback_OnClose (tc_callbacks c) cb\<rparr>"

definition tcp_closed :: "('h, 'i, 'b, 'cb, 'g) tcpConn \<Rightarrow> bool" where
  "tcp_closed c = (case try_recv (tc_closeCh c) of Blocks \<Rightarrow> False | _ \<Rightarrow> True)"

subsection \<open>Writing\<close>

text \<open>The \<open>select\<close> of \<open>write\<close>: what happens after the check that the connection is open.\<close>

definition tcp_enqueue ::
    "('h, 'i, 'b, 'cb, 'g) tcpConn \<Rightarrow> bytes \<Rightarrow> (('h, 'i, 'b, 'cb, 'g) tcpConn \<times> error option) go" where
  "tcp_enqueue c data = do {
     (ch, sent) \<leftarrow> try_send (tc_writeCh c) data;
     Some (c\<lparr>tc_writeCh := ch\<rparr>,
           if sent then None else Some (ErrNew (''write queue full, len: '' @ fmt_d (length (ch_buf ch))))) }"

definition tcp_write ::
    "('h, 'i, 'b, 'cb, 'g) tcpConn \<Rightarrow> bytes \<Rightarrow> (('h, 'i, 'b, 'cb, 'g) tcpConn \<times> error option) go" where
  "tcp_write c data = (if tcp_closed c then Some (c, Some ErrConnClosed) else tcp_enqueue c data)"

definition tcp_Write ::
    "('h, 'i, 'b, 'cb, 'g) tcpConn \<Rightarrow> Packet \<Rightarrow> PackOption list
     \<Rightarrow> (('h, 'i, 'b, 'cb, 'g) tcpConn \<times> Packet \<times> error option) go" where
  "tcp_Write c p popts =
     (if tcp_closed c then Some (c, p, Some ErrConnClosed)
      else do {
        (p, r) \<leftarrow> prot_Pack (tc_p c) (tc_qctx c) p popts;
        (case r of
           Inl err \<Rightarrow> Some (c, p, Some err)
         | Inr data \<Rightarrow> do {
             (c, err) \<leftarrow> tcp_write c data;
             Some (c, p, err) }) })"

subsection \<open>Closing\<close>

definition tcp_Close ::
    "('h, 'i, 'b, 'cb, 'g) tcpConn \<Rightarrow> error option \<Rightarrow> ('h, 'i, 'b, 'cb, 'g) tcpConn go" where
  "tcp_Close c err =
     (if tcp_closed c then Some c
      else if tc_closeOnce c then Some c
      else do {
        closeCh \<leftarrow> close_chan (tc_closeCh c);
        writeCh \<leftarrow> close_chan (tc_writeCh c);
        Some (c\<lparr>tc_closeOnce := True, tc_closeCh := closeCh, tc_writeCh := writeCh, tc_netClosed := True,
                tc_calls := tc_calls c @ DispatchClose (tc_callbacks c) err\<rparr>) })"

subsection \<open>Delivering packets\<close>

definition tcp_OnPacket :: "('h, 'i, 'b, 'cb, 'g) tcpConn \<Rightarrow> ('h, 'i, 'b, 'cb, 'g) tcpConn go" where
  "tcp_OnPacket c =
     (if tc_onPacketOnce c then Some c
      else do {
        ch \<leftarrow> make_chan (do_ReadQueueSize (tc_dopts c));
        Some (c\<lparr>tc_onPacketOnce := True, tc_packetCh := Some ch\<rparr>) })"

datatype loop = Again | Waiting | Returned

text \<open>
  One iteration of the goroutine that \<open>OnPacket\<close> starts; the second component lists the calls of \<open>fn\<close>.  \<open>tcp_receive\<close> is the rest of an iteration after the check
  of \<open>closed\<close>: between the two, and while it waits for a packet, the connection can be closed.
\<close>

definition tcp_receive ::
    "('h, 'i, 'b, 'cb, 'g) tcpConn
     \<Rightarrow> (('h, 'i, 'b, 'cb, 'g) tcpConn \<times> (Packet option \<times> error option) list \<times> loop) go" where
  "tcp_receive c = do {
     ch \<leftarrow> tc_packetCh c;
     (case try_recv ch of
        Got p ch \<Rightarrow> Some (c\<lparr>tc_packetCh := Some ch\<rparr>, [(p, None)], Again)
      | Closed \<Rightarrow> Some (c, [(None, None)], Again)
      | Blocks \<Rightarrow> Some (c, [], Waiting)) }"

text \<open>The receives of the branch for a closed connection, and its end: the last call of \<open>fn\<close> and the deferred \<open>close\<close>.\<close>

fun tcp_drain ::
    "nat \<Rightarrow> ('h, 'i, 'b, 'cb, 'g) tcpConn \<Rightarrow> (('h, 'i, 'b, 'cb, 'g) tcpConn \<times> (Packet option \<times> error option) list) go" where
  "tcp_drain 0 c = Some (c, [])"
| "tcp_drain (Suc l) c = do {
     (c, call, _) \<leftarrow> tcp_receive c;
     (c, calls) \<leftarrow> tcp_drain l c;
     Some (c, call @ calls) }"

definition tcp_finish ::
    "('h, 'i, 'b, 'cb, 'g) tcpConn \<Rightarrow> (('h, 'i, 'b, 'cb, 'g) tcpConn \<times> (Packet option \<times> error option) list) go" where
  "tcp_finish c = do {
     ch \<leftarrow> tc_packetCh c;
     ch \<leftarrow> close_chan ch;
     Some (c\<lparr>tc_packetCh := Some ch\<rparr>, [(None, Some ErrConnClosed)]) }"

definition tcp_deliver ::
    "('h, 'i, 'b, 'cb, 'g) tcpConn
     \<Rightarrow> (('h, 'i, 'b, 'cb, 'g) tcpConn \<times> (Packet option \<times> error option) list \<times> loop) go" where
  "tcp_deliver c =
     (if tcp_closed c then do {
        ch \<leftarrow> tc_packetCh c;
        let l = length (ch_buf ch);
        (c, calls) \<leftarrow> (if l > 0 then tcp_drain l c else Some (c, []));
        (c, end') \<leftarrow> tcp_finish c;
        Some (c, calls @ end', Returned) }
      else tcp_receive c)"

definition tcp_addPacket ::
    "('h, 'i, 'b, 'cb, 'g) tcpConn \<Rightarrow> Packet option \<Rightarrow> ('h, 'i, 'b, 'cb, 'g) tcpConn go" where
  "tcp_addPacket c p =
     (case tc_packetCh c of
        None \<Rightarrow> Some c
      | Some ch \<Rightarrow> do { (ch, _) \<leftarrow> try_send ch p; Some (c\<lparr>tc_packetCh := Some ch\<rparr>) })"

subsection \<open>Reading\<close>

partial_function (option) tcp_readPacket ::
    "('h, 'i, 'b, 'cb, 'g) tcpConn \<Rightarrow> 'b \<Rightarrow> (('h, 'i, 'b, 'cb, 'g) tcpConn \<times> 'b \<times> error option) option" where
  "tcp_readPacket c buf = do {
     (ctx, buf, packet, fin, err) \<leftarrow> prot_Unpack (tc_p c) (tc_qctx c) buf;
     let c = c\<lparr>tc_qctx := ctx\<rparr>;
     (if err \<noteq> None then Some (c, buf, err)
      else if \<not> fin then Some (c, buf, None)
      else do {
        c \<leftarrow> tcp_addPacket c packet;
        tcp_readPacket c buf }) }"

text \<open>
  One iteration of \<open>reading\<close>, given what \<open>conn.Read\<close> returns; the flag says whether the loop goes on.  \<open>tcp_read\<close> is the iteration after the check of \<open>closed\<close>,
  \<open>tcp_unpack\<close> the part in which the bytes of a read are turned into packets: the connection can be closed at any point before them.
\<close>

definition tcp_unpack ::
    "'b rb_ops \<Rightarrow> ('h, 'i, 'b, 'cb, 'g) tcpConn \<Rightarrow> bytes \<Rightarrow> (('h, 'i, 'b, 'cb, 'g) tcpConn \<times> bool) go" where
  "tcp_unpack rb c data =
     (if rb_Length rb (tc_readBuf c) = 0 then do {
        let buffer = rb_NewWithData rb data;
        (c, buffer, err) \<leftarrow> tcp_readPacket c buffer;
        (case err of
           Some e \<Rightarrow> do { c \<leftarrow> tcp_Close c (Some e); Some (c, False) }
         | None \<Rightarrow>
             if rb_Length rb buffer > 0 then
               let (first, _) = rb_PeekAll rb buffer;
                   (readBuf, _) = rb_Write rb (tc_readBuf c) first
               in Some (c\<lparr>tc_readBuf := readBuf\<rparr>, True)
             else Some (c, True)) }
      else do {
        let (readBuf, _) = rb_Write rb (tc_readBuf c) data;
        (c, readBuf, err) \<leftarrow> tcp_readPacket c readBuf;
        let c = c\<lparr>tc_readBuf := readBuf\<rparr>;
        (case err of
           Some e \<Rightarrow> do { c \<leftarrow> tcp_Close c (Some e); Some (c, False) }
         | None \<Rightarrow> Some (c, True)) })"

definition tcp_read ::
    "'b rb_ops \<Rightarrow> ('h, 'i, 'b, 'cb, 'g) tcpConn \<Rightarrow> bytes \<times> error option
     \<Rightarrow> (('h, 'i, 'b, 'cb, 'g) tcpConn \<times> bool) go" where
  "tcp_read rb c r =
     (case r of
        (data, Some err) \<Rightarrow> do { c \<leftarrow> tcp_Close c (Some err); Some (c, False) }
      | (data, None) \<Rightarrow> if length data = 0 then Some (c, True) else tcp_unpack rb c data)"

definition tcp_reading_step ::
    "'b rb_ops \<Rightarrow> ('h, 'i, 'b, 'cb, 'g) tcpConn \<Rightarrow> bytes \<times> error option
     \<Rightarrow> (('h, 'i, 'b, 'cb, 'g) tcpConn \<times> bool) go" where
  "tcp_reading_step rb c r = (if tcp_closed c then Some (c, False) else tcp_read rb c r)"

fun tcp_reading ::
    "'b rb_ops \<Rightarrow> ('h, 'i, 'b, 'cb, 'g) tcpConn \<Rightarrow> (bytes \<times> error option) list
     \<Rightarrow> ('h, 'i, 'b, 'cb, 'g) tcpConn go" where
  "tcp_reading rb c [] = Some c"
| "tcp_reading rb c (r # rs) = do {
     (c, more) \<leftarrow> tcp_reading_step rb c r;
     if more then tcp_reading rb c rs else Some c }"

subsection \<open>The writing goroutine\<close>

text \<open>The ready case of the \<open>select\<close>: a value or the end of the write channel, or the ticker.\<close>

datatype write_event = FromQueue | Tick

text \<open>\<open>conn.conn.Write(b)\<close> returned \<open>n\<close> and \<open>err\<close>.\<close>

definition tcp_netWrite ::
    "'b rb_ops \<Rightarrow> ('h, 'i, 'b, 'cb, 'g) tcpConn \<Rightarrow> bytes \<Rightarrow> nat \<times> error option
     \<Rightarrow> (('h, 'i, 'b, 'cb, 'g) tcpConn \<times> bool) go" where
  "tcp_netWrite rb c b w =
     (let (n, err) = w;
          c = c\<lparr>tc_sent := tc_sent c @ take n b\<rparr>
      in case err of
        Some e \<Rightarrow> do { c \<leftarrow> tcp_Close c (Some e); Some (c, False) }
      | None \<Rightarrow>
          if n < length b then do {
            rest \<leftarrow> slice_from b n;
            let (buf, _) = rb_Write rb (tc_wbuf c) rest;
            Some (c\<lparr>tc_wbuf := buf\<rparr>, True) }
          else Some (c, True))"

text \<open>The \<open>select\<close> of an iteration, and the iteration.\<close>

definition tcp_writing_select ::
    "'b rb_ops \<Rightarrow> ('h, 'i, 'b, 'cb, 'g) tcpConn \<Rightarrow> write_event \<Rightarrow> nat \<times> error option
     \<Rightarrow> (('h, 'i, 'b, 'cb, 'g) tcpConn \<times> bool) go" where
  "tcp_writing_select rb c ev w =
     (case ev of
        FromQueue \<Rightarrow>
          (case try_recv (tc_writeCh c) of
             Closed \<Rightarrow> Some (c, False)
           | Blocks \<Rightarrow> Some (c, True)
           | Got b ch \<Rightarrow>
               let c = c\<lparr>tc_writeCh := ch\<rparr> in
               if rb_Length rb (tc_wbuf c) \<noteq> 0 then
                 let (f, e) = rb_PeekAll rb (tc_wbuf c);
                     c = c\<lparr>tc_wbuf := rb_Reset rb (tc_wbuf c)\<rparr>
                 in tcp_netWrite rb c (f @ e @ b) w
               else tcp_netWrite rb c b w)
      | Tick \<Rightarrow>
          if \<not> rb_IsEmpty rb (tc_wbuf c) then
            let (f, e) = rb_PeekAll rb (tc_wbuf c);
                c = c\<lparr>tc_wbuf := rb_Reset rb (tc_wbuf c)\<rparr>
            in tcp_netWrite rb c (f @ e) w
          else Some (c, True))"

definition tcp_writing_step ::
    "'b rb_ops \<Rightarrow> ('h, 'i, 'b, 'cb, 'g) tcpConn \<Rightarrow> write_event \<Rightarrow> nat \<times> error option
     \<Rightarrow> (('h, 'i, 'b, 'cb, 'g) tcpConn \<times> bool) go" where
  "tcp_writing_step rb c ev w = (if tcp_closed c then Some (c, False) else tcp_writing_select rb c ev w)"

subsection \<open>Dialling\<close>

text \<open>\<open>dialed\<close> is the error of \<open>net.DialTimeout\<close>.\<close>

definition dialTCPConn ::
    "'b rb_ops \<Rightarrow> ('h, 'i, 'b) Protocol manager \<Rightarrow> error option \<Rightarrow> Handshake \<Rightarrow> 'g DialOptions
     \<Rightarrow> (error + ('h, 'i, 'b, 'cb, 'g) tcpConn) go" where
  "dialTCPConn rb mgr dialed handshake o' =
     (case GetProtocol mgr (hs_Version handshake) of
        Inl err \<Rightarrow> Some (Inl err)
      | Inr p \<Rightarrow>
          (case dialed of
             Some err \<Rightarrow> Some (Inl err)
           | None \<Rightarrow> do {
               let qctx = NewContext ClientSide;
               let data = Handshake_Pack handshake;
               let qctx = qctx\<lparr>ctx_Codec := hs_Codec handshake, ctx_Platform := hs_Platform handshake,
                               ctx_Version := hs_Version handshake\<rparr>;
               readBuf \<leftarrow> (if do_ReadBufferSize o' < 0 then None else Some (rb_New rb (nat (do_ReadBufferSize o'))));
               writeCh \<leftarrow> make_chan (do_WriteQueueSize o');
               closeCh \<leftarrow> make_chan 0;
               let c = \<lparr>tc_callbacks = newCloseCallback, tc_closeOnce = False, tc_onPacketOnce = False, tc_qctx = qctx,
                        tc_p = p, tc_closeCh = closeCh, tc_readBuf = readBuf, tc_writeCh = writeCh, tc_packetCh = None,
                        tc_dopts = o', tc_wbuf = rb_New rb 4096, tc_sent = [], tc_netClosed = False, tc_calls = []\<rparr>;
               (c, err) \<leftarrow> tcp_write c data;
               (case err of
                  Some e \<Rightarrow> do { _ \<leftarrow> tcp_Close c (Some e); Some (Inl e) }
                | None \<Rightarrow> Some (Inr c)) }))"

subsection \<open>Reading packets\<close>

text \<open>Packets put into a bounded channel with non-blocking sends: those beyond the capacity are dropped.\<close>

definition queued :: "'a chan option \<Rightarrow> 'a list \<Rightarrow> 'a chan option" where
  "queued ch ps = map_option (\<lambda>ch. ch\<lparr>ch_buf := take (ch_cap ch) (ch_buf ch @ ps)\<rparr>) ch"

definition open_chan :: "'a chan option \<Rightarrow> bool" where
  "open_chan ch \<longleftrightarrow> (case ch of None \<Rightarrow> True | Some ch \<Rightarrow> \<not> ch_closed ch \<and> chan_ok ch)"

text \<open>Within its capacity; closed.\<close>

definition chan_fits :: "'a chan option \<Rightarrow> bool" where
  "chan_fits ch \<longleftrightarrow> (case ch of None \<Rightarrow> True | Some ch \<Rightarrow> chan_ok ch)"

definition chan_shut :: "'a chan option \<Rightarrow> bool" where
  "chan_shut ch \<longleftrightarrow> (case ch of None \<Rightarrow> False | Some ch \<Rightarrow> ch_closed ch)"

lemma open_chan_iff: "open_chan ch \<longleftrightarrow> chan_fits ch \<and> \<not> chan_shut ch"
  by (cases ch) (auto simp: open_chan_def chan_fits_def chan_shut_def)

lemma queued_queued: "queued (queued ch ps) qs = queued ch (ps @ qs)"
  by (cases ch) (auto simp: queued_def min_def)

lemma queued_Nil: "chan_fits ch \<Longrightarrow> queued ch [] = ch"
  by (cases ch) (auto simp: queued_def chan_fits_def chan_ok_def)

lemma queued_fits: "chan_fits (queued ch ps)"
  by (cases ch) (auto simp: queued_def chan_fits_def chan_ok_def)

lemma queued_shut [simp]: "chan_shut (queued ch ps) \<longleftrightarrow> chan_shut ch"
  by (cases ch) (auto simp: queued_def chan_shut_def)

lemma queued_open: "open_chan ch \<Longrightarrow> open_chan (queued ch ps)"
  by (simp add: open_chan_iff queued_fits)

lemma tcp_addPacket_queued:
  assumes "chan_fits (tc_packetCh c)"
  shows "tcp_addPacket c p = (if chan_shut (tc_packetCh c) then None else Some (c\<lparr>tc_packetCh := queued (tc_packetCh c) [p]\<rparr>))"
  using assms
  by (cases "tc_packetCh c") (auto simp: tcp_addPacket_def queued_def chan_fits_def chan_shut_def try_send_def chan_ok_def)

context stream_protocol
begin

text \<open>Adding the packets of a buffer to the queue; a closed queue does not stop a buffer without a complete packet.\<close>

lemma tcp_readPacket_drain:
  assumes "tc_p c = prot" "ok buf" "chan_fits (tc_packetCh c)"
    and "drain step (tc_qctx c) (content buf) = Some (ctx', rest, ps, e)"
  shows "if ps \<noteq> [] \<and> chan_shut (tc_packetCh c) then tcp_readPacket c buf = None
    else \<exists>buf'. tcp_readPacket c buf = Some (c\<lparr>tc_qctx := ctx', tc_packetCh := queued (tc_packetCh c) ps\<rparr>, buf', e) \<and>
      ok buf' \<and> content buf' = rest"
  using assms
proof (induction "length (content buf) + pending (tc_qctx c)" arbitrary: c buf ps rule: less_induct)
  case less
  obtain ctx1 c1 p dn err where st: "step (tc_qctx c) (content buf) = (ctx1, c1, p, dn, err)" by (metis prod_cases5)
  obtain buf1 where u: "prot_Unpack prot (tc_qctx c) buf = Some (ctx1, buf1, p, dn, err)" "ok buf1" "content buf1 = c1"
    using Unpack_step [OF less.prems(2) st] by blast
  show ?case
  proof (cases "err \<noteq> None \<or> \<not> dn")
    case True
    then have "ctx' = ctx1" "rest = c1" "ps = []" "e = err"
      using drain_stop [of step, OF st] less.prems(4) by auto
    then show ?thesis
      using True u less.prems(1,3) by (cases err) (auto simp: tcp_readPacket.simps queued_Nil)
  next
    case False
    with st have st': "step (tc_qctx c) (content buf) = (ctx1, c1, p, True, None)" by simp
    obtain s2 c2 qs e2 where d: "drain step ctx1 c1 = Some (s2, c2, qs, e2)" using drain_returns by blast
    then have r: "ps = p # qs" "s2 = ctx'" "c2 = rest" "e2 = e"
      using drain_done [of step, OF st'] less.prems(4) by auto
    define c' where "c' = c\<lparr>tc_qctx := ctx1, tc_packetCh := queued (tc_packetCh c) [p]\<rparr>"
    have add: "tcp_addPacket (c\<lparr>tc_qctx := ctx1\<rparr>) p = (if chan_shut (tc_packetCh c) then None else Some c')"
      using tcp_addPacket_queued [of "c\<lparr>tc_qctx := ctx1\<rparr>" p] less.prems(3) by (simp add: c'_def)
    show ?thesis
    proof (cases "chan_shut (tc_packetCh c)")
      case True
      then show ?thesis
        using False u less.prems(1) add r(1) by (subst tcp_readPacket.simps) simp
    next
      case op: False
      have "length (content buf1) + pending (tc_qctx c') < length (content buf) + pending (tc_qctx c)"
        using progress [OF st'] u(3) by (simp add: c'_def)
      from less.hyps [OF this, of qs] obtain buf2 where
        "tcp_readPacket c' buf1 = Some (c'\<lparr>tc_qctx := ctx', tc_packetCh := queued (tc_packetCh c') qs\<rparr>, buf2, e)"
        "ok buf2" "content buf2 = rest"
        using d r u less.prems(1,3) op by (auto simp: c'_def queued_fits)
      then show ?thesis
        using False u less.prems(1) add op by (subst tcp_readPacket.simps) (auto simp: r c'_def queued_queued)
    qed
  qed
qed

end

subsection \<open>The state of a connection\<close>

definition tcp_inv :: "('b \<Rightarrow> bool) \<Rightarrow> ('h, 'i, 'b, 'cb, 'g) tcpConn \<Rightarrow> bool" where
  "tcp_inv ok c \<longleftrightarrow> ok (tc_readBuf c) \<and> ok (tc_wbuf c) \<and> chan_ok (tc_writeCh c) \<and>
     ch_buf (tc_closeCh c) = [] \<and> ch_closed (tc_closeCh c) = tc_closeOnce c \<and> ch_closed (tc_writeCh c) = tc_closeOnce c \<and>
     tc_netClosed c = tc_closeOnce c"

lemma tcp_closed_iff: "tcp_inv ok c \<Longrightarrow> tcp_closed c = tc_closeOnce c"
  by (auto simp: tcp_inv_def tcp_closed_def try_recv_def)

text \<open>The state after closing.\<close>

definition tcp_shut :: "('h, 'i, 'b, 'cb, 'g) tcpConn \<Rightarrow> error option \<Rightarrow> ('h, 'i, 'b, 'cb, 'g) tcpConn" where
  "tcp_shut c err = c\<lparr>tc_closeOnce := True, tc_closeCh := (tc_closeCh c)\<lparr>ch_closed := True\<rparr>,
     tc_writeCh := (tc_writeCh c)\<lparr>ch_closed := True\<rparr>, tc_netClosed := True,
     tc_calls := tc_calls c @ DispatchClose (tc_callbacks c) err\<rparr>"

lemma tcp_Close_eq:
  assumes "tcp_inv ok c"
  shows "tcp_Close c err = Some (if tc_closeOnce c then c else tcp_shut c err)"
  using assms tcp_closed_iff [OF assms]
  by (auto simp: tcp_Close_def tcp_inv_def close_chan_def tcp_shut_def)

lemma tcp_shut_inv: "tcp_inv ok c \<Longrightarrow> tcp_inv ok (tcp_shut c err)"
  by (simp add: tcp_inv_def tcp_shut_def chan_ok_def)

lemma tcp_shut_simps [simp]:
  "tc_qctx (tcp_shut c err) = tc_qctx c" "tc_packetCh (tcp_shut c err) = tc_packetCh c"
  "tc_readBuf (tcp_shut c err) = tc_readBuf c" "tc_p (tcp_shut c err) = tc_p c" "tc_closeOnce (tcp_shut c err)"
  "tc_sent (tcp_shut c err) = tc_sent c" "tc_wbuf (tcp_shut c err) = tc_wbuf c"
  "ch_buf (tc_writeCh (tcp_shut c err)) = ch_buf (tc_writeCh c)"
  by (simp_all add: tcp_shut_def)

text \<open>The part of the state that reading leaves alone.\<close>

definition tcp_sends :: "('h, 'i, 'b, 'cb, 'g) tcpConn \<Rightarrow> bytes \<times> 'b \<times> bytes list \<times> 'g DialOptions \<times> bool" where
  "tcp_sends c = (tc_sent c, tc_wbuf c, ch_buf (tc_writeCh c), tc_dopts c, tc_onPacketOnce c)"

lemma tcp_sends_shut [simp]: "tcp_sends (tcp_shut c err) = tcp_sends c"
  by (simp add: tcp_sends_def tcp_shut_def)

lemma tcp_sends_upd [simp]:
  "tcp_sends (c\<lparr>tc_readBuf := b\<rparr>) = tcp_sends c" "tcp_sends (c\<lparr>tc_qctx := q\<rparr>) = tcp_sends c"
  "tcp_sends (c\<lparr>tc_packetCh := ch\<rparr>) = tcp_sends c"
  by (simp_all add: tcp_sends_def)

text \<open>From a state to a later one: the callbacks are called exactly when the connection is closed in between.\<close>

definition tcp_notifies :: "('h, 'i, 'b, 'cb, 'g) tcpConn \<Rightarrow> ('h, 'i, 'b, 'cb, 'g) tcpConn \<Rightarrow> bool" where
  "tcp_notifies c c' \<longleftrightarrow> tc_callbacks c' = tc_callbacks c \<and>
     (if tc_closeOnce c \<longleftrightarrow> tc_closeOnce c' then tc_calls c' = tc_calls c
      else tc_closeOnce c' \<and> (\<exists>err. tc_calls c' = tc_calls c @ DispatchClose (tc_callbacks c) err))"

lemma tcp_notifies_shut: "\<not> tc_closeOnce c \<Longrightarrow> tcp_notifies c (tcp_shut c err)"
  by (auto simp: tcp_notifies_def tcp_shut_def)

lemma tcp_notifies_refl [simp]: "tcp_notifies c c"
  by (simp add: tcp_notifies_def)

lemma tcp_notifies_upd:
  "tcp_notifies (c\<lparr>tc_readBuf := b\<rparr>) c' = tcp_notifies c c'" "tcp_notifies (c\<lparr>tc_qctx := q\<rparr>) c' = tcp_notifies c c'"
  "tcp_notifies (c\<lparr>tc_packetCh := ch\<rparr>) c' = tcp_notifies c c'" "tcp_notifies (c\<lparr>tc_sent := x\<rparr>) c' = tcp_notifies c c'"
  "tcp_notifies (c\<lparr>tc_wbuf := b\<rparr>) c' = tcp_notifies c c'" "tcp_notifies (c\<lparr>tc_writeCh := wch\<rparr>) c' = tcp_notifies c c'"
  "tcp_notifies (c\<lparr>tc_onPacketOnce := o'\<rparr>) c' = tcp_notifies c c'"
  by (simp_all add: tcp_notifies_def)

lemma tcp_notifies_upd':
  "tcp_notifies c (c'\<lparr>tc_readBuf := b\<rparr>) = tcp_notifies c c'" "tcp_notifies c (c'\<lparr>tc_qctx := q\<rparr>) = tcp_notifies c c'"
  "tcp_notifies c (c'\<lparr>tc_packetCh := ch\<rparr>) = tcp_notifies c c'" "tcp_notifies c (c'\<lparr>tc_sent := x\<rparr>) = tcp_notifies c c'"
  "tcp_notifies c (c'\<lparr>tc_wbuf := b\<rparr>) = tcp_notifies c c'" "tcp_notifies c (c'\<lparr>tc_writeCh := wch\<rparr>) = tcp_notifies c c'"
  "tcp_notifies c (c'\<lparr>tc_onPacketOnce := o'\<rparr>) = tcp_notifies c c'"
  by (simp_all add: tcp_notifies_def)

lemmas tcp_notifies_simps [simp] = tcp_notifies_upd tcp_notifies_upd'

subsection \<open>The read loop\<close>

text \<open>A ring buffer and a protocol version that reads from it, also from its flat buffers.\<close>

locale tcp_reader = ring_buffer_flat rb content inv flat + stream_protocol step pending prot content inv
  for rb :: "'b rb_ops" and content :: "'b \<Rightarrow> bytes" and inv :: "'b \<Rightarrow> bool" and flat :: "'b \<Rightarrow> bool"
    and step :: "(('h, 'i) Context, Packet) reader" and pending :: "('h, 'i) Context \<Rightarrow> nat"
    and prot :: "('h, 'i, 'b) Protocol" +
  assumes flat_protocol: "stream_protocol step pending prot content (\<lambda>b. inv b \<and> flat b)"
begin

text \<open>Turning bytes into packets, on an open or a closed connection; it panics exactly when it completes a packet and the packet queue is closed.\<close>

lemma tcp_unpack_feed:
  fixes c :: "('h, 'i, 'b, 'cb, 'g) tcpConn"
  assumes c: "tc_p c = prot" "tcp_inv inv c" "chan_fits (tc_packetCh c)"
    and dr: "drain step (tc_qctx c) (content (tc_readBuf c) @ d) = Some (ctx', rest, ps, e)"
  shows "if ps \<noteq> [] \<and> chan_shut (tc_packetCh c) then tcp_unpack rb c d = None
    else \<exists>c'. tcp_unpack rb c d = Some (c', e = None) \<and> tc_p c' = prot \<and> tcp_inv inv c' \<and>
      tc_qctx c' = ctx' \<and> tc_packetCh c' = queued (tc_packetCh c) ps \<and> (tc_closeOnce c' \<longleftrightarrow> tc_closeOnce c \<or> e \<noteq> None) \<and>
      (e = None \<longrightarrow> content (tc_readBuf c') = rest) \<and> tcp_sends c' = tcp_sends c \<and> tcp_notifies c c'"
proof -
  define panic where "panic \<longleftrightarrow> ps \<noteq> [] \<and> chan_shut (tc_packetCh c)"
  define c1 where "c1 = c\<lparr>tc_qctx := ctx', tc_packetCh := queued (tc_packetCh c) ps\<rparr>"
  define fin where "fin c2 = (case e of None \<Rightarrow> Some (c2, True) | Some x \<Rightarrow> do { c3 \<leftarrow> tcp_Close c2 (Some x); Some (c3, False) })"
    for c2 :: "('h, 'i, 'b, 'cb, 'g) tcpConn"
  have ok: "inv (tc_readBuf c)" using c(2) by (simp add: tcp_inv_def)
  have fin: "\<exists>c'. fin (c1\<lparr>tc_readBuf := b\<rparr>) = Some (c', e = None) \<and> tc_p c' = prot \<and> tcp_inv inv c' \<and>
      tc_qctx c' = ctx' \<and> tc_packetCh c' = queued (tc_packetCh c) ps \<and> (tc_closeOnce c' \<longleftrightarrow> tc_closeOnce c \<or> e \<noteq> None) \<and>
      (e = None \<longrightarrow> content (tc_readBuf c') = content b) \<and> tcp_sends c' = tcp_sends c \<and> tcp_notifies c c'" if "inv b" for b
  proof -
    have i: "tcp_inv inv (c1\<lparr>tc_readBuf := b\<rparr>)" using c(2) that by (simp add: c1_def tcp_inv_def)
    have n: "tcp_notifies c (tcp_shut (c1\<lparr>tc_readBuf := b\<rparr>) x)" if "\<not> tc_closeOnce c" for x
      using tcp_notifies_shut [of "c1\<lparr>tc_readBuf := b\<rparr>"] that by (simp add: c1_def)
    show ?thesis
      using i tcp_shut_inv [OF i] n c(1)
      by (cases e; cases "tc_closeOnce c") (auto simp: fin_def tcp_Close_eq [OF i], simp_all add: c1_def)
  qed
  show ?thesis
  proof (cases "content (tc_readBuf c) = []")
    case True
    then have dr': "drain step (tc_qctx c) (content (rb_NewWithData rb d)) = Some (ctx', rest, ps, e)"
      using dr by (simp add: NewWithData)
    have z: "rb_Length rb (tc_readBuf c) = 0" using True Length [OF ok] by simp
    have rp: "if panic then tcp_readPacket c (rb_NewWithData rb d) = None
      else \<exists>b. tcp_readPacket c (rb_NewWithData rb d) = Some (c1, b, e) \<and> (inv b \<and> flat b) \<and> content b = rest"
      unfolding panic_def c1_def
      by (rule stream_protocol.tcp_readPacket_drain [OF flat_protocol c(1) _ c(3) dr']) (simp add: NewWithData flat_New)
    show ?thesis
    proof (cases panic)
      case True
      then show ?thesis using rp z by (simp add: tcp_unpack_def panic_def)
    next
      case False
      with rp obtain b where b: "tcp_readPacket c (rb_NewWithData rb d) = Some (c1, b, e)" "inv b" "flat b" "content b = rest" by auto
      obtain rb' where w: "rb_Write rb (tc_readBuf c1) (fst (rb_PeekAll rb b)) = (rb', None)" "inv rb'" "content rb' = rest"
        using Write [of "tc_readBuf c1" "fst (rb_PeekAll rb b)"] ok True b PeekAll [OF b(2)] flat_PeekAll [OF b(2,3)] by (auto simp: c1_def)
      define b1 where "b1 = (if e = None \<and> rest \<noteq> [] then rb' else tc_readBuf c)"
      have b1: "inv b1" "e = None \<longrightarrow> content b1 = rest" using ok w True by (simp_all add: b1_def)
      have c1: "c1\<lparr>tc_readBuf := tc_readBuf c\<rparr> = c1" by (simp add: c1_def)
      have "tcp_unpack rb c d = fin (c1\<lparr>tc_readBuf := b1\<rparr>)"
        using Length [OF b(2)]
        by (cases e; cases "rest = []") (simp_all add: tcp_unpack_def z b(1,4) w(1) fin_def b1_def c1 case_prod_unfold)
      then show ?thesis using fin [OF b1(1)] b1(2) False by (auto simp: panic_def)
    qed
  next
    case False
    have z: "rb_Length rb (tc_readBuf c) \<noteq> 0" using False Length [OF ok] by simp
    obtain b0 where w: "rb_Write rb (tc_readBuf c) d = (b0, None)" "inv b0" "content b0 = content (tc_readBuf c) @ d"
      using Write [OF ok, of d] by blast
    have rp: "if panic then tcp_readPacket c b0 = None else \<exists>b. tcp_readPacket c b0 = Some (c1, b, e) \<and> inv b \<and> content b = rest"
      using tcp_readPacket_drain [OF c(1) w(2) c(3)] dr w(3) by (simp add: c1_def panic_def)
    show ?thesis
    proof (cases panic)
      case True
      then show ?thesis using rp z w by (simp add: tcp_unpack_def panic_def)
    next
      case np: False
      with rp obtain b where b: "tcp_readPacket c b0 = Some (c1, b, e)" "inv b" "content b = rest" by auto
      have "tcp_unpack rb c d = fin (c1\<lparr>tc_readBuf := b\<rparr>)" using b z w by (cases e) (simp_all add: tcp_unpack_def fin_def)
      then show ?thesis using fin [OF b(2)] b(3) np by (auto simp: panic_def)
    qed
  qed
qed

lemma tcp_reading_step_feed:
  assumes c: "tc_p c = prot" "tcp_inv inv c" "\<not> tc_closeOnce c" "open_chan (tc_packetCh c)" and d: "d \<noteq> []"
    and dr: "drain step (tc_qctx c) (content (tc_readBuf c) @ d) = Some (ctx', rest, ps, e)"
  shows "\<exists>c'. tcp_reading_step rb c (d, None) = Some (c', e = None) \<and> tc_p c' = prot \<and> tcp_inv inv c' \<and>
    tc_qctx c' = ctx' \<and> tc_packetCh c' = queued (tc_packetCh c) ps \<and> (tc_closeOnce c' \<longleftrightarrow> e \<noteq> None) \<and>
    (e = None \<longrightarrow> content (tc_readBuf c') = rest) \<and> tcp_sends c' = tcp_sends c \<and> tcp_notifies c c'"
  using tcp_unpack_feed [OF c(1,2) _ dr] tcp_closed_iff [OF c(2)] c(3,4) d
  by (simp add: open_chan_iff tcp_reading_step_def tcp_read_def)

lemma tcp_reading_feed:
  assumes c: "tc_p c = prot" "tcp_inv inv c" "\<not> tc_closeOnce c" "open_chan (tc_packetCh c)"
    and "feed step (tc_qctx c) (content (tc_readBuf c)) (filter (\<lambda>d. d \<noteq> []) ds) = Some (ctx', rest, ps, e)"
  shows "\<exists>c'. tcp_reading rb c (map (\<lambda>d. (d, None)) ds) = Some c' \<and> tc_p c' = prot \<and> tcp_inv inv c' \<and>
    tc_qctx c' = ctx' \<and> tc_packetCh c' = queued (tc_packetCh c) ps \<and> (tc_closeOnce c' \<longleftrightarrow> e \<noteq> None) \<and>
    (e = None \<longrightarrow> content (tc_readBuf c') = rest)"
  using assms
proof (induction ds arbitrary: c ps)
  case Nil
  then show ?case by (auto simp: queued_Nil open_chan_iff)
next
  case (Cons d ds)
  have open': "\<not> tcp_closed c" using tcp_closed_iff [OF Cons.prems(2)] Cons.prems(3) by simp
  show ?case
  proof (cases "d = []")
    case True
    then have "tcp_reading_step rb c (d, None) = Some (c, True)"
      using open' by (simp add: tcp_reading_step_def tcp_read_def)
    then show ?thesis using Cons.IH [OF Cons.prems(1-4)] Cons.prems(5) True by simp
  next
    case False
    obtain s1 r1 ps1 e1 where dr: "drain step (tc_qctx c) (content (tc_readBuf c) @ d) = Some (s1, r1, ps1, e1)"
      using drain_returns by blast
    obtain c1 where c1: "tcp_reading_step rb c (d, None) = Some (c1, e1 = None)" "tc_p c1 = prot" "tcp_inv inv c1"
      "tc_qctx c1 = s1" "tc_packetCh c1 = queued (tc_packetCh c) ps1" "tc_closeOnce c1 \<longleftrightarrow> e1 \<noteq> None"
      "e1 = None \<longrightarrow> content (tc_readBuf c1) = r1"
      using tcp_reading_step_feed [OF Cons.prems(1-4) False dr] by blast
    show ?thesis
    proof (cases e1)
      case (Some x)
      then show ?thesis using Cons.prems(5) False dr c1 by auto
    next
      case None
      obtain s2 r2 ps2 e2 where f: "feed step s1 r1 (filter (\<lambda>d. d \<noteq> []) ds) = Some (s2, r2, ps2, e2)"
        using feed_returns by blast
      then have r: "s2 = ctx'" "r2 = rest" "ps = ps1 @ ps2" "e2 = e"
        using Cons.prems(5) False dr None by auto
      have "\<exists>c'. tcp_reading rb c1 (map (\<lambda>d. (d, None)) ds) = Some c' \<and> tc_p c' = prot \<and> tcp_inv inv c' \<and>
          tc_qctx c' = ctx' \<and> tc_packetCh c' = queued (tc_packetCh c1) ps2 \<and> (tc_closeOnce c' \<longleftrightarrow> e \<noteq> None) \<and>
          (e = None \<longrightarrow> content (tc_readBuf c') = rest)"
        using Cons.IH [of c1 ps2] c1 None f r queued_open [OF Cons.prems(4)] by simp
      then show ?thesis using c1 None r by (auto simp: queued_queued)
    qed
  qed
qed

end

context tcp_reader
begin

lemma tcp_reading_concat:
  assumes c: "tc_p c = prot" "tcp_inv inv c" "\<not> tc_closeOnce c" "open_chan (tc_packetCh c)"
    and ne: "concat ds \<noteq> []"
    and dr: "drain step (tc_qctx c) (content (tc_readBuf c) @ concat ds) = Some (ctx', rest, ps, e)"
  shows "\<exists>c'. tcp_reading rb c (map (\<lambda>d. (d, None)) ds) = Some c' \<and> tcp_inv inv c' \<and>
    tc_qctx c' = ctx' \<and> tc_packetCh c' = queued (tc_packetCh c) ps \<and> (tc_closeOnce c' \<longleftrightarrow> e \<noteq> None) \<and>
    (e = None \<longrightarrow> content (tc_readBuf c') = rest)"
proof -
  define es where "es = filter (\<lambda>d. d \<noteq> []) ds"
  have cc: "concat es = concat ds" unfolding es_def by (induction ds) auto
  with ne obtain d es' where es: "es = d # es'" by (cases es) auto
  obtain s1 r1 ps1 e1 where f: "feed step (tc_qctx c) (content (tc_readBuf c)) es = Some (s1, r1, ps1, e1)"
    using feed_returns by blast
  obtain r2 where "drain step (tc_qctx c) (content (tc_readBuf c) @ concat ds) = Some (s1, r2, ps1, e1)" "e1 = None \<longrightarrow> r2 = r1"
    using feed_concat [OF f [unfolded es]] cc es by auto
  with dr have "s1 = ctx'" "ps1 = ps" "e1 = e" "e = None \<longrightarrow> r1 = rest" by auto
  then show ?thesis
    using tcp_reading_feed [OF c, of ds s1 r1 ps1 e1] f es_def by auto
qed

lemma tcp_chunking:
  assumes c: "tc_p c = prot" "tcp_inv inv c" "\<not> tc_closeOnce c" "open_chan (tc_packetCh c)"
    and "concat ds = concat ds'"
  shows "\<exists>c1 c2. tcp_reading rb c (map (\<lambda>d. (d, None)) ds) = Some c1 \<and> tcp_reading rb c (map (\<lambda>d. (d, None)) ds') = Some c2 \<and>
    tc_packetCh c1 = tc_packetCh c2 \<and> tc_qctx c1 = tc_qctx c2 \<and> (tc_closeOnce c1 \<longleftrightarrow> tc_closeOnce c2) \<and>
    (\<not> tc_closeOnce c1 \<longrightarrow> content (tc_readBuf c1) = content (tc_readBuf c2))"
proof (cases "concat ds = []")
  case True
  have f: "filter (\<lambda>d. d \<noteq> []) xs = []" if "xs = ds \<or> xs = ds'" for xs
    using that assms(5) True by (auto simp: filter_empty_conv)
  have "\<exists>c'. tcp_reading rb c (map (\<lambda>d. (d, None)) xs) = Some c' \<and> tc_qctx c' = tc_qctx c \<and>
      tc_packetCh c' = queued (tc_packetCh c) [] \<and> \<not> tc_closeOnce c' \<and> content (tc_readBuf c') = content (tc_readBuf c)"
    if "xs = ds \<or> xs = ds'" for xs
    using tcp_reading_feed [OF c, of xs] f [OF that] by auto
  from this [of ds] this [of ds'] show ?thesis by auto
next
  case False
  obtain s r ps e where "drain step (tc_qctx c) (content (tc_readBuf c) @ concat ds) = Some (s, r, ps, e)"
    using drain_returns by blast
  from tcp_reading_concat [OF c False this] tcp_reading_concat [OF c, of ds' s r ps e] this False assms(5)
  show ?thesis by fastforce
qed

end

lemma v1_tcp_reader:
  assumes "ring_buffer_flat rb content ok flat"
  shows "tcp_reader rb content ok flat (v1_step gz zr) ctx_pending (v1_protocol rb gz level zr pooled)"
proof -
  from assms have r: "ring_reader rb content ok" "ring_reader rb content (\<lambda>b. ok b \<and> flat b)"
    by (rule ring_buffer.axioms(1) [OF ring_buffer_flat.axioms(1)], rule ring_buffer_flat.flat_reader)
  show ?thesis
    by (intro tcp_reader.intro tcp_reader_axioms.intro assms v1_stream_protocol r)
qed

lemma v2_tcp_reader:
  assumes "ring_buffer_flat rb content ok flat"
  shows "tcp_reader rb content ok flat (v2_step uni gz zr) ctx_pending (v2_protocol rb uni rangeord gz level zr pooled)"
proof -
  from assms have r: "ring_reader rb content ok" "ring_reader rb content (\<lambda>b. ok b \<and> flat b)"
    by (rule ring_buffer.axioms(1) [OF ring_buffer_flat.axioms(1)], rule ring_buffer_flat.flat_reader)
  show ?thesis
    by (intro tcp_reader.intro tcp_reader_axioms.intro assms v2_stream_protocol r)
qed

end
