(* ===== verification/Tcp_Run.thy ===== *)
theory Tcp_Run
  imports Tcp_Conn
    "HOL-Library.Sublist"
begin

text \<open>
  Runs of a TCP connection (\<open>go/client/tcp_conn.go\<close>): the interleavings of the callers of \<open>Write\<close> and \<open>Close\<close> with the
  reading, writing and delivery goroutines.

  \<open>tcp_step\<close> is one step of any of them (a whole operation, or the part of one that follows its check of \<open>closed\<close>), labelled with the frame it accepted for sending, if any; \<open>tcp_run\<close>
  is a sequence of steps.  \<open>tcp_ok\<close> is the invariant of all reachable states.  Under it only the queue operations can panic, exactly on a queue that was closed.
  The specification of the sending side is \<open>wire_step\<close>: a reliable byte stream that accepts bytes, transmits a prefix of what
  it has accepted and may end at any time.  Every run of a connection is a run of that specification.
\<close>

subsection \<open>Steps\<close>

text \<open>The frame that a call of \<open>Write\<close> with result \<open>err\<close> has put into the queue.\<close>

definition tcp_accepted ::
    "('h, 'i, 'b, 'cb, 'g) tcpConn \<Rightarrow> Packet \<Rightarrow> PackOption list \<Rightarrow> error option \<Rightarrow> bytes" where
  "tcp_accepted c p popts err =
     (case prot_Pack (tc_p c) (tc_qctx c) p popts of
        Some (_, Inr data) \<Rightarrow> if err = None then data else []
      | _ \<Rightarrow> [])"

text \<open>
  A goroutine can be overtaken between its check of \<open>closed\<close> and what it does next.  The steps \<open>EnqueueS\<close>, \<open>SelectS\<close> and \<open>ReadS\<close> are what
  follows the check, in a state that may have been closed meanwhile; \<open>ReceiveS\<close> and \<open>FinishS\<close> are the parts of a round of the delivery goroutine.
  A write to a network connection that was closed takes nothing and fails.
\<close>

inductive tcp_step ::
    "'b rb_ops \<Rightarrow> ('h, 'i, 'b, 'cb, 'g) tcpConn \<Rightarrow> bytes \<Rightarrow> ('h, 'i, 'b, 'cb, 'g) tcpConn \<Rightarrow> bool" for rb where
  WriteS: "tcp_Write c p popts = Some (c', p', err) \<Longrightarrow> tcp_step rb c (tcp_accepted c p popts err) c'"
| EnqueueS: "prot_Pack (tc_p c) ctx p popts = Some (p', Inr data) \<Longrightarrow> tcp_enqueue c data = Some (c', err) \<Longrightarrow>
    tcp_step rb c (if err = None then data else []) c'"
| WritingS: "tcp_writing_step rb c ev w = Some (c', goes) \<Longrightarrow> tcp_step rb c [] c'"
| SelectS: "tc_netClosed c \<longrightarrow> fst w = 0 \<and> snd w \<noteq> None \<Longrightarrow> tcp_writing_select rb c ev w = Some (c', goes) \<Longrightarrow> tcp_step rb c [] c'"
| CloseS: "tcp_Close c err = Some c' \<Longrightarrow> tcp_step rb c [] c'"
| ReadingS: "tcp_reading_step rb c r = Some (c', goes) \<Longrightarrow> tcp_step rb c [] c'"
| ReadS: "tcp_read rb c r = Some (c', goes) \<Longrightarrow> tcp_step rb c [] c'"
| OnPacketS: "tcp_OnPacket c = Some c' \<Longrightarrow> tcp_step rb c [] c'"
| DeliverS: "tcp_deliver c = Some (c', calls, goes) \<Longrightarrow> tcp_step rb c [] c'"
| ReceiveS: "tcp_receive c = Some (c', calls, goes) \<Longrightarrow> tcp_step rb c [] c'"
| FinishS: "tcp_closed c \<Longrightarrow> tcp_finish c = Some (c', calls) \<Longrightarrow> tcp_step rb c [] c'"
| OnCloseS: "tcp_step rb c [] (tcp_OnClose c cb)"

inductive tcp_run ::
    "'b rb_ops \<Rightarrow> ('h, 'i, 'b, 'cb, 'g) tcpConn \<Rightarrow> bytes \<Rightarrow> ('h, 'i, 'b, 'cb, 'g) tcpConn \<Rightarrow> bool" for rb c where
  Start: "tcp_run rb c [] c"
| Step: "tcp_run rb c xs c1 \<Longrightarrow> tcp_step rb c1 ys c2 \<Longrightarrow> tcp_run rb c (xs @ ys) c2"

subsection \<open>The invariant\<close>

definition tcp_ok :: "('b \<Rightarrow> bool) \<Rightarrow> ('h, 'i, 'b) Protocol \<Rightarrow> ('h, 'i, 'b, 'cb, 'g) tcpConn \<Rightarrow> bool" where
  "tcp_ok ok prot c \<longleftrightarrow> tcp_inv ok c \<and> tc_p c = prot \<and> 0 \<le> do_ReadQueueSize (tc_dopts c) \<and>
     (tc_onPacketOnce c \<longleftrightarrow> tc_packetCh c \<noteq> None) \<and> chan_fits (tc_packetCh c) \<and> (chan_shut (tc_packetCh c) \<longrightarrow> tc_closeOnce c)"

lemma tcp_okD:
  assumes "tcp_ok ok prot c"
  shows "tcp_inv ok c" "tc_p c = prot" "\<not> tc_closeOnce c \<Longrightarrow> open_chan (tc_packetCh c)" "tcp_closed c = tc_closeOnce c"
    "chan_fits (tc_packetCh c)" "chan_shut (tc_packetCh c) \<Longrightarrow> tc_closeOnce c"
  using assms tcp_closed_iff by (auto simp: tcp_ok_def open_chan_iff)

text \<open>The bytes that are on their way.\<close>

definition tcp_out :: "('b \<Rightarrow> bytes) \<Rightarrow> ('h, 'i, 'b, 'cb, 'g) tcpConn \<Rightarrow> bytes" where
  "tcp_out content c = tc_sent c @ content (tc_wbuf c) @ concat (ch_buf (tc_writeCh c))"

text \<open>The fields that the sending side depends on, and those of the receiving side.\<close>

definition tcp_sender :: "('h, 'i, 'b, 'cb, 'g) tcpConn \<Rightarrow> bytes \<times> 'b \<times> bytes list \<times> bool" where
  "tcp_sender c = (tc_sent c, tc_wbuf c, ch_buf (tc_writeCh c), tc_closeOnce c)"

lemma tcp_shut_ok: "tcp_ok ok prot c \<Longrightarrow> tcp_ok ok prot (tcp_shut c err)"
  using tcp_shut_inv by (auto simp: tcp_ok_def) (simp_all add: tcp_shut_def)

lemma tcp_Close_ok:
  assumes "tcp_ok ok prot c"
  shows "\<exists>c'. tcp_Close c err = Some c' \<and> tcp_ok ok prot c' \<and> tc_closeOnce c' \<and> tc_sent c' = tc_sent c \<and>
    c' = (if tc_closeOnce c then c else tcp_shut c err)"
  using tcp_Close_eq [OF tcp_okD(1) [OF assms]] tcp_shut_ok [OF assms] assms by auto

lemma tcp_ok_upd:
  "tcp_ok ok prot c \<Longrightarrow> tcp_ok ok prot (c\<lparr>tc_sent := x\<rparr>)"
  "tcp_ok ok prot c \<Longrightarrow> ok b \<Longrightarrow> tcp_ok ok prot (c\<lparr>tc_wbuf := b\<rparr>)"
  by (simp_all add: tcp_ok_def tcp_inv_def)

lemma tcp_ok_queue:
  assumes "tcp_ok ok prot c" "chan_ok ch" "ch_closed ch = tc_closeOnce c"
  shows "tcp_ok ok prot (c\<lparr>tc_writeCh := ch\<rparr>)"
  using assms by (simp add: tcp_ok_def tcp_inv_def)

lemma tcp_enqueue_result:
  assumes "tcp_ok ok prot c" "\<not> tc_closeOnce c"
  shows "\<exists>c' err. tcp_enqueue c d = Some (c', err) \<and> tcp_ok ok prot c' \<and>
    c' = c\<lparr>tc_writeCh := (tc_writeCh c)\<lparr>ch_buf := ch_buf (tc_writeCh c) @ (if err = None then [d] else [])\<rparr>\<rparr> \<and>
    (err = None \<longleftrightarrow> length (ch_buf (tc_writeCh c)) < ch_cap (tc_writeCh c))"
  using assms by (auto simp: tcp_enqueue_def try_send_def tcp_ok_def tcp_inv_def chan_ok_def)

lemma tcp_write_result:
  assumes "tcp_ok ok prot c"
  shows "tcp_write c d = (if tc_closeOnce c then Some (c, Some ErrConnClosed) else tcp_enqueue c d)"
  using tcp_okD(4) [OF assms] by (simp add: tcp_write_def)

text \<open>A call of \<open>Write\<close> panics only if \<open>Pack\<close> does; it queues the whole frame or nothing.\<close>

lemma tcp_Write_result:
  assumes ok: "tcp_ok ok prot c" and w: "tcp_Write c p popts = Some (c', p', err)"
  shows "tcp_ok ok prot c'" "tc_closeOnce c' = tc_closeOnce c" "tc_sent c' = tc_sent c" "tc_wbuf c' = tc_wbuf c"
    "concat (ch_buf (tc_writeCh c')) = concat (ch_buf (tc_writeCh c)) @ tcp_accepted c p popts err"
    "tcp_notifies c c'" "tc_closeOnce c \<Longrightarrow> c' = c \<and> err = Some ErrConnClosed"
proof -
  show closed: "c' = c \<and> err = Some ErrConnClosed" if "tc_closeOnce c"
    using w that tcp_okD(4) [OF ok] by (simp add: tcp_Write_def)
  have "tcp_ok ok prot c' \<and> tc_closeOnce c' = tc_closeOnce c \<and> tc_sent c' = tc_sent c \<and> tc_wbuf c' = tc_wbuf c \<and>
    concat (ch_buf (tc_writeCh c')) = concat (ch_buf (tc_writeCh c)) @ tcp_accepted c p popts err \<and> tcp_notifies c c'"
  proof (cases "tc_closeOnce c")
    case True
    with closed ok show ?thesis by (auto simp: tcp_accepted_def split: option.splits sum.splits)
  next
    case False
    then obtain q r where pk: "prot_Pack (tc_p c) (tc_qctx c) p popts = Some (q, r)"
      using w tcp_okD(4) [OF ok] by (auto simp: tcp_Write_def bind_eq_Some_conv)
    show ?thesis
    proof (cases r)
      case (Inl e)
      with w pk False ok tcp_okD(4) [OF ok] show ?thesis by (auto simp: tcp_Write_def tcp_accepted_def)
    next
      case (Inr data)
      obtain c1 e where en: "tcp_enqueue c data = Some (c1, e)" "tcp_ok ok prot c1"
        "c1 = c\<lparr>tc_writeCh := (tc_writeCh c)\<lparr>ch_buf := ch_buf (tc_writeCh c) @ (if e = None then [data] else [])\<rparr>\<rparr>"
        using tcp_enqueue_result [OF ok False] by blast
      have "c' = c1" "err = e"
        using w pk Inr False tcp_okD(4) [OF ok] en(1) by (simp_all add: tcp_Write_def tcp_write_def)
      with en pk Inr show ?thesis by (auto simp: tcp_accepted_def)
    qed
  qed
  then show "tcp_ok ok prot c'" "tc_closeOnce c' = tc_closeOnce c" "tc_sent c' = tc_sent c" "tc_wbuf c' = tc_wbuf c"
    "concat (ch_buf (tc_writeCh c')) = concat (ch_buf (tc_writeCh c)) @ tcp_accepted c p popts err" "tcp_notifies c c'"
    by simp_all
qed

lemma tcp_OnPacket_result:
  assumes "tcp_ok ok prot c"
  shows "\<exists>c'. tcp_OnPacket c = Some c' \<and> tcp_ok ok prot c' \<and> tc_closeOnce c' = tc_closeOnce c \<and> tc_packetCh c' \<noteq> None \<and>
    tcp_notifies c c' \<and> tc_sent c' = tc_sent c \<and> tc_wbuf c' = tc_wbuf c \<and> tc_writeCh c' = tc_writeCh c"
  using assms
  by (auto simp: tcp_OnPacket_def make_chan_def tcp_ok_def tcp_inv_def chan_fits_def chan_shut_def chan_ok_def)

text \<open>The state after a change of the packet queue.\<close>

lemma tcp_ok_packets:
  assumes "tcp_ok ok prot c" "tc_packetCh c \<noteq> None" "chan_ok ch" "ch_closed ch \<longrightarrow> tc_closeOnce c"
  shows "tcp_ok ok prot (c\<lparr>tc_packetCh := Some ch\<rparr>)"
  using assms by (simp add: tcp_ok_def tcp_inv_def chan_fits_def chan_shut_def)

lemma tcp_receive_result:
  assumes ok: "tcp_ok ok prot c" and d: "tcp_receive c = Some (c', calls, l)"
  shows "tcp_ok ok prot c'" "\<exists>ch. c' = c\<lparr>tc_packetCh := Some ch\<rparr>"
proof -
  obtain ch where ch: "tc_packetCh c = Some ch" using d by (auto simp: tcp_receive_def bind_eq_Some_conv)
  have k: "chan_ok ch" "ch_closed ch \<longrightarrow> tc_closeOnce c" using tcp_okD(5,6) [OF ok] ch by (auto simp: chan_fits_def chan_shut_def)
  obtain ch' where c': "c' = c\<lparr>tc_packetCh := Some ch'\<rparr>" "chan_ok ch'" "ch_closed ch' = ch_closed ch"
  proof (cases "ch_buf ch")
    case Nil
    then have "c' = c\<lparr>tc_packetCh := Some ch\<rparr>"
      using d ch by (auto simp: tcp_receive_def try_recv_def split: if_splits)
    then show thesis using that k by blast
  next
    case (Cons p ps)
    then show thesis
      using that [of "ch\<lparr>ch_buf := ps\<rparr>"] d ch k(1) by (simp add: tcp_receive_def try_recv_def chan_ok_def)
  qed
  then show "tcp_ok ok prot c'" "\<exists>ch. c' = c\<lparr>tc_packetCh := Some ch\<rparr>"
    using tcp_ok_packets [OF ok] ch k by auto
qed

lemma tcp_finish_result:
  assumes ok: "tcp_ok ok prot c" and "tcp_closed c" and d: "tcp_finish c = Some (c', calls)"
  shows "tcp_ok ok prot c'" "\<exists>ch. c' = c\<lparr>tc_packetCh := Some ch\<rparr>"
proof -
  obtain ch where ch: "tc_packetCh c = Some ch" "c' = c\<lparr>tc_packetCh := Some (ch\<lparr>ch_closed := True\<rparr>)\<rparr>"
    using d by (auto simp: tcp_finish_def bind_eq_Some_conv close_chan_def split: if_splits)
  moreover have "chan_ok ch" "tc_closeOnce c" using tcp_okD(4,5) [OF ok] assms(2) ch(1) by (auto simp: chan_fits_def)
  ultimately show "tcp_ok ok prot c'" "\<exists>ch. c' = c\<lparr>tc_packetCh := Some ch\<rparr>"
    using tcp_ok_packets [OF ok, of "ch\<lparr>ch_closed := True\<rparr>"] by (auto simp: chan_ok_def)
qed

lemma tcp_drain_result:
  assumes "tcp_ok ok prot c" "tcp_drain l c = Some (c', calls)" "tc_packetCh c = Some ch0"
  shows "tcp_ok ok prot c' \<and> (\<exists>ch. c' = c\<lparr>tc_packetCh := Some ch\<rparr>)"
  using assms
proof (induction l arbitrary: c calls ch0)
  case 0
  then show ?case by (auto intro!: exI [of _ ch0])
next
  case (Suc l)
  then obtain c1 call lp calls' where c1: "tcp_receive c = Some (c1, call, lp)" "tcp_drain l c1 = Some (c', calls')"
    by (auto simp: bind_eq_Some_conv)
  then obtain ch where ch: "c1 = c\<lparr>tc_packetCh := Some ch\<rparr>" "tcp_ok ok prot c1"
    using tcp_receive_result [OF Suc.prems(1)] by blast
  then show ?case using Suc.IH [OF ch(2) c1(2), of ch] by auto
qed

lemma tcp_deliver_result:
  assumes ok: "tcp_ok ok prot c" and d: "tcp_deliver c = Some (c', calls, l)"
  shows "tcp_ok ok prot c'" "\<exists>ch. c' = c\<lparr>tc_packetCh := Some ch\<rparr>"
proof -
  have "tcp_ok ok prot c' \<and> (\<exists>ch. c' = c\<lparr>tc_packetCh := Some ch\<rparr>)"
  proof (cases "tcp_closed c")
    case True
    then obtain ch c1 calls1 end' where c1: "tc_packetCh c = Some ch" "tcp_drain (length (ch_buf ch)) c = Some (c1, calls1)" "tcp_finish c1 = Some (c', end')"
      using d by (cases "tc_packetCh c") (auto simp: tcp_deliver_def bind_eq_Some_conv split: if_splits)
    obtain ch1 where ok1: "tcp_ok ok prot c1" "c1 = c\<lparr>tc_packetCh := Some ch1\<rparr>" using tcp_drain_result [OF ok c1(2,1)] by blast
    then have "tcp_closed c1" using True tcp_okD(4) [OF ok] tcp_okD(4) [OF ok1(1)] by simp
    then show ?thesis using tcp_finish_result [OF ok1(1) _ c1(3)] ok1(2) by auto
  next
    case False
    then show ?thesis using d tcp_receive_result [OF ok, of c' calls l] by (simp add: tcp_deliver_def)
  qed
  then show "tcp_ok ok prot c'" "\<exists>ch. c' = c\<lparr>tc_packetCh := Some ch\<rparr>" by simp_all
qed

text \<open>What the delivery goroutine does at its check of a closed connection.\<close>

lemma tcp_drain_all:
  assumes "tc_packetCh c = Some ch" "ch_buf ch = ps @ qs"
  shows "tcp_drain (length ps) c = Some (c\<lparr>tc_packetCh := Some (ch\<lparr>ch_buf := qs\<rparr>)\<rparr>, map (\<lambda>p. (p, None)) ps)"
  using assms
proof (induction ps arbitrary: c ch)
  case (Cons p ps)
  define ch1 where "ch1 = ch\<lparr>ch_buf := ps @ qs\<rparr>"
  have "tcp_receive c = Some (c\<lparr>tc_packetCh := Some ch1\<rparr>, [(p, None)], Again)"
    using Cons.prems by (simp add: tcp_receive_def try_recv_def ch1_def)
  moreover have "ch\<lparr>ch_buf := qs\<rparr> = ch1\<lparr>ch_buf := qs\<rparr>" by (simp add: ch1_def)
  ultimately show ?case using Cons.IH [of "c\<lparr>tc_packetCh := Some ch1\<rparr>" ch1] by (simp add: ch1_def)
qed simp

lemma tcp_deliver_closed:
  assumes "tcp_closed c" "tc_packetCh c = Some ch"
  shows "tcp_deliver c = (if ch_closed ch then None
    else Some (c\<lparr>tc_packetCh := Some (ch\<lparr>ch_buf := [], ch_closed := True\<rparr>)\<rparr>, map (\<lambda>p. (p, None)) (ch_buf ch) @ [(None, Some ErrConnClosed)], Returned))"
proof -
  have "(if 0 < length (ch_buf ch) then tcp_drain (length (ch_buf ch)) c else Some (c, [])) =
      Some (c\<lparr>tc_packetCh := Some (ch\<lparr>ch_buf := []\<rparr>)\<rparr>, map (\<lambda>p. (p, None)) (ch_buf ch))"
    using tcp_drain_all [OF assms(2), of "ch_buf ch" "[]"] assms(2) by (cases "ch_buf ch") auto
  then show ?thesis using assms by (simp add: tcp_deliver_def Let_def tcp_finish_def close_chan_def)
qed

subsection \<open>The writing goroutine\<close>

context ring_buffer
begin

lemma tcp_netWrite_result:
  assumes ok: "tcp_ok inv prot c" and c: "\<not> tc_closeOnce c" "content (tc_wbuf c) = []"
  shows "\<exists>c'. tcp_netWrite rb c b (n, err) = Some (c', err = None) \<and> tcp_ok inv prot c' \<and>
    tc_sent c' = tc_sent c @ take n b \<and> ch_buf (tc_writeCh c') = ch_buf (tc_writeCh c) \<and> (tc_closeOnce c' \<longleftrightarrow> err \<noteq> None) \<and>
    (err = None \<longrightarrow> content (tc_wbuf c') = drop n b) \<and> tcp_notifies c c'"
proof -
  define c1 where "c1 = c\<lparr>tc_sent := tc_sent c @ take n b\<rparr>"
  have c1: "tcp_ok inv prot c1" "\<not> tc_closeOnce c1" using ok c by (simp_all add: c1_def tcp_ok_upd)
  show ?thesis
  proof (cases err)
    case (Some e)
    obtain c' where "tcp_Close c1 (Some e) = Some c'" "tcp_ok inv prot c'" "c' = tcp_shut c1 (Some e)"
      using tcp_Close_ok [OF c1(1), of "Some e"] c1(2) by auto
    then show ?thesis
      using Some tcp_notifies_shut [OF c1(2)] by (simp add: tcp_netWrite_def c1_def [symmetric]) (simp add: c1_def)
  next
    case None
    show ?thesis
    proof (cases "n < length b")
      case True
      have "inv (tc_wbuf c)" using tcp_okD(1) [OF ok] by (simp add: tcp_inv_def)
      from Write [OF this, of "drop n b"] obtain b' where
        b': "rb_Write rb (tc_wbuf c) (drop n b) = (b', None)" "inv b'" "content b' = drop n b"
        using c(2) by auto
      have "tcp_netWrite rb c b (n, err) = Some (c1\<lparr>tc_wbuf := b'\<rparr>, True)"
        using None True b'(1) by (simp add: tcp_netWrite_def c1_def slice_from_def slice_def)
      then show ?thesis
        using None b' c1 tcp_ok_upd(2) [OF c1(1) b'(2)] by (simp add: c1_def)
    next
      case False
      then show ?thesis using None c c1 by (simp add: tcp_netWrite_def c1_def)
    qed
  qed
qed

text \<open>An iteration either has nothing to do, or writes the unsent rest and what it took from the queue.\<close>

lemma tcp_writing_unfold:
  assumes ok: "tcp_ok inv prot c" and open': "\<not> tc_closeOnce c"
  obtains (idle) "tcp_writing_select rb c ev w = Some (c, True)"
      "case ev of FromQueue \<Rightarrow> ch_buf (tc_writeCh c) = [] | Tick \<Rightarrow> content (tc_wbuf c) = []"
    | (out) c1 b where "tcp_writing_select rb c ev w = tcp_netWrite rb c1 b w" "tcp_ok inv prot c1" "\<not> tc_closeOnce c1"
      "content (tc_wbuf c1) = []" "tc_sent c1 = tc_sent c" "tcp_notifies c1 = tcp_notifies c"
      "content (tc_wbuf c) @ concat (ch_buf (tc_writeCh c)) = b @ concat (ch_buf (tc_writeCh c1))"
      "ch_buf (tc_writeCh c1) = (case ev of FromQueue \<Rightarrow> tl (ch_buf (tc_writeCh c)) | Tick \<Rightarrow> ch_buf (tc_writeCh c))"
proof -
  have wb: "inv (tc_wbuf c)" "chan_ok (tc_writeCh c)" "\<not> ch_closed (tc_writeCh c)"
    using tcp_okD(1) [OF ok] open' by (simp_all add: tcp_inv_def)
  have pk: "(\<lambda>(f, e). g (f @ e)) (rb_PeekAll rb (tc_wbuf c)) = g (content (tc_wbuf c))" for g
    using PeekAll [OF wb(1)] by (simp add: case_prod_unfold)
  define r where "r = rb_Reset rb (tc_wbuf c)"
  have r: "inv r" "content r = []" using Reset [OF wb(1)] by (simp_all add: r_def)
  show thesis
  proof (cases ev)
    case Tick
    show ?thesis
    proof (cases "content (tc_wbuf c) = []")
      case True
      then show ?thesis using idle Tick IsEmpty [OF wb(1)] by (simp add: tcp_writing_select_def)
    next
      case False
      then have "tcp_writing_select rb c ev w = tcp_netWrite rb (c\<lparr>tc_wbuf := r\<rparr>) (content (tc_wbuf c)) w"
        using Tick IsEmpty [OF wb(1)] pk [of "\<lambda>b. tcp_netWrite rb (c\<lparr>tc_wbuf := r\<rparr>) b w"]
        by (simp add: tcp_writing_select_def r_def Let_def)
      then show ?thesis
        using out [of "c\<lparr>tc_wbuf := r\<rparr>" "content (tc_wbuf c)"] ok open' r Tick tcp_ok_upd(2) [OF ok r(1)]
        by (simp add: fun_eq_iff)
    qed
  next
    case FromQueue
    show ?thesis
    proof (cases "ch_buf (tc_writeCh c)")
      case Nil
      then show ?thesis using idle FromQueue wb by (simp add: tcp_writing_select_def try_recv_def)
    next
      case (Cons b bs)
      define ch where "ch = (tc_writeCh c)\<lparr>ch_buf := bs\<rparr>"
      have ch: "try_recv (tc_writeCh c) = Got b ch" "tcp_ok inv prot (c\<lparr>tc_writeCh := ch\<rparr>)"
        using Cons wb ok open' by (auto simp: try_recv_def ch_def intro!: tcp_ok_queue simp: chan_ok_def)
      show ?thesis
      proof (cases "content (tc_wbuf c) = []")
        case True
        then have "tcp_writing_select rb c ev w = tcp_netWrite rb (c\<lparr>tc_writeCh := ch\<rparr>) b w"
          using FromQueue ch(1) Length [OF wb(1)] by (simp add: tcp_writing_select_def Let_def)
        then show ?thesis
          using out [of "c\<lparr>tc_writeCh := ch\<rparr>" b] ch open' True Cons FromQueue by (simp add: ch_def fun_eq_iff)
      next
        case False
        then have "tcp_writing_select rb c ev w = tcp_netWrite rb (c\<lparr>tc_writeCh := ch, tc_wbuf := r\<rparr>) (content (tc_wbuf c) @ b) w"
          using FromQueue ch(1) Length [OF wb(1)] pk [of "\<lambda>x. tcp_netWrite rb (c\<lparr>tc_writeCh := ch, tc_wbuf := r\<rparr>) (x @ b) w"]
          by (simp add: tcp_writing_select_def Let_def r_def)
        then show ?thesis
          using out [of "c\<lparr>tc_writeCh := ch, tc_wbuf := r\<rparr>" "content (tc_wbuf c) @ b"] tcp_ok_upd(2) [OF ch(2) r(1)] open' r Cons FromQueue
          by (simp add: ch_def fun_eq_iff)
      qed
    qed
  qed
qed

text \<open>After the end of the network connection an iteration that had passed its check loses what it takes from the queue.\<close>

lemma tcp_select_closed:
  assumes ok: "tcp_ok inv prot c" and "tc_closeOnce c" "fst w = 0" "snd w \<noteq> None"
  shows "\<exists>c' go. tcp_writing_select rb c ev w = Some (c', go) \<and> tcp_ok inv prot c' \<and> tc_sent c' = tc_sent c \<and> tc_closeOnce c' \<and> tcp_notifies c c'"
proof -
  obtain e where w: "w = (0, Some e)" using assms(3,4) by (cases w) auto
  have nw: "tcp_netWrite rb c1 b w = Some (c1, False)" if "tcp_ok inv prot c1" "tc_closeOnce c1" for c1 b
    using tcp_Close_eq [OF tcp_okD(1) [OF that(1)]] that(2) by (simp add: tcp_netWrite_def w)
  have wb: "inv (rb_Reset rb (tc_wbuf c))" using Reset tcp_okD(1) [OF ok] by (simp add: tcp_inv_def)
  note nwb = nw [OF tcp_ok_upd(2) [OF ok wb]]
  show ?thesis
  proof (cases ev)
    case Tick
    then have "tcp_writing_select rb c ev w = Some (if rb_IsEmpty rb (tc_wbuf c) then (c, True) else (c\<lparr>tc_wbuf := rb_Reset rb (tc_wbuf c)\<rparr>, False))"
      using nwb assms(2) by (simp add: tcp_writing_select_def Let_def case_prod_unfold)
    then show ?thesis using ok assms(2) tcp_ok_upd(2) [OF ok wb] by (cases "rb_IsEmpty rb (tc_wbuf c)") fastforce+
  next
    case FromQueue
    show ?thesis
    proof (cases "try_recv (tc_writeCh c)")
      case (Got b ch)
      then have ch: "tcp_ok inv prot (c\<lparr>tc_writeCh := ch\<rparr>)"
        using tcp_okD(1) [OF ok] by (intro tcp_ok_queue [OF ok]) (simp_all add: try_recv_ok tcp_inv_def)
      have ch2: "tcp_ok inv prot (c\<lparr>tc_writeCh := ch, tc_wbuf := rb_Reset rb (tc_wbuf c)\<rparr>)" using tcp_ok_upd(2) [OF ch wb] by simp
      have "tcp_writing_select rb c ev w = Some (c\<lparr>tc_writeCh := ch\<rparr>, False) \<or>
          tcp_writing_select rb c ev w = Some (c\<lparr>tc_writeCh := ch, tc_wbuf := rb_Reset rb (tc_wbuf c)\<rparr>, False)"
        using FromQueue Got assms(2) nw [OF ch] nw [OF ch2] by (simp add: tcp_writing_select_def Let_def case_prod_unfold)
      then show ?thesis using assms(2) ch ch2 by auto
    qed (use FromQueue ok assms(2) in \<open>auto simp: tcp_writing_select_def\<close>)
  qed
qed

lemma tcp_select_result:
  assumes ok: "tcp_ok inv prot c" and net: "tc_netClosed c \<longrightarrow> fst w = 0 \<and> snd w \<noteq> None"
  shows "\<exists>c' go x. tcp_writing_select rb c ev w = Some (c', go) \<and> tcp_ok inv prot c' \<and> tc_sent c' = tc_sent c @ x \<and>
    (if tc_closeOnce c then x = [] \<and> tc_closeOnce c'
     else prefix (tc_sent c @ x) (tcp_out content c) \<and> (\<not> tc_closeOnce c' \<longrightarrow> tcp_out content c' = tcp_out content c)) \<and>
    tcp_notifies c c'"
proof (cases "tc_closeOnce c")
  case True
  then have "tc_netClosed c" using tcp_okD(1) [OF ok] by (simp add: tcp_inv_def)
  then obtain c' go where "tcp_writing_select rb c ev w = Some (c', go)" "tcp_ok inv prot c'" "tc_sent c' = tc_sent c" "tc_closeOnce c'" "tcp_notifies c c'"
    using tcp_select_closed [OF ok True, of w ev] net by auto
  then show ?thesis using True by (intro exI [of _ c'] exI [of _ go] exI [of _ "[]"]) simp
next
  case False
  from ok False show ?thesis
  proof (cases rule: tcp_writing_unfold [of prot c ev w])
    case idle
    then show ?thesis using ok False by (auto simp: tcp_out_def)
  next
    case (out c1 b)
    obtain n err where w: "w = (n, err)" by fastforce
    obtain c' where c': "tcp_netWrite rb c1 b (n, err) = Some (c', err = None)" "tcp_ok inv prot c'"
      "tc_sent c' = tc_sent c @ take n b" "ch_buf (tc_writeCh c') = ch_buf (tc_writeCh c1)" "tc_closeOnce c' \<longleftrightarrow> err \<noteq> None"
      "err = None \<longrightarrow> content (tc_wbuf c') = drop n b" "tcp_notifies c c'"
      using tcp_netWrite_result [OF out(2-4)] out(5,6) by metis
    have "tcp_out content c = tc_sent c @ b @ concat (ch_buf (tc_writeCh c1))" using out(7) by (simp add: tcp_out_def)
    moreover have "prefix (take n b) (b @ zs)" for zs by (metis append_assoc append_take_drop_id prefixI)
    ultimately show ?thesis using c' False out(1) w by (intro exI conjI) (auto simp: tcp_out_def)
  qed
qed

lemma tcp_writing_open:
  assumes "tcp_ok inv prot c"
  shows "tcp_writing_step rb c ev w = (if tc_closeOnce c then Some (c, False) else tcp_writing_select rb c ev w)"
    and "\<not> tc_closeOnce c \<Longrightarrow> \<not> tc_netClosed c"
  using tcp_okD(1,4) [OF assms] by (simp_all add: tcp_writing_step_def tcp_inv_def)

text \<open>If the network takes all it is given, an iteration empties the unsent rest and takes one entry from the queue.\<close>

lemma tcp_writing_progress:
  assumes ok: "tcp_ok inv prot c" and c: "\<not> tc_closeOnce c" "length (tcp_out content c) \<le> n"
    and ev: "ev = FromQueue \<and> ch_buf (tc_writeCh c) \<noteq> [] \<or> ev = Tick"
  shows "\<exists>c'. tcp_writing_step rb c ev (n, None) = Some (c', True) \<and> tcp_ok inv prot c' \<and> \<not> tc_closeOnce c' \<and>
    content (tc_wbuf c') = [] \<and> tcp_out content c' = tcp_out content c \<and>
    ch_buf (tc_writeCh c') = (case ev of FromQueue \<Rightarrow> tl (ch_buf (tc_writeCh c)) | Tick \<Rightarrow> ch_buf (tc_writeCh c))"
  using ok c(1)
proof (cases rule: tcp_writing_unfold [of prot c ev "(n, None)"])
  case idle
  with ev have "ev = Tick" by auto
  with idle show ?thesis using ok c by (simp add: tcp_writing_open(1) [OF ok])
next
  case (out c1 b)
  have len: "length b \<le> n" using out(7) c(2) arg_cong [OF out(7), of length] by (simp add: tcp_out_def)
  obtain c' where c': "tcp_netWrite rb c1 b (n, None) = Some (c', True)" "tcp_ok inv prot c'"
      "tc_sent c' = tc_sent c @ take n b" "ch_buf (tc_writeCh c') = ch_buf (tc_writeCh c1)" "\<not> tc_closeOnce c'"
      "content (tc_wbuf c') = drop n b"
    using tcp_netWrite_result [OF out(2-4), of b n None] out(5) by auto
  show ?thesis using c' out len c(1) by (intro exI [of _ c']) (simp add: tcp_out_def tcp_writing_open(1) [OF ok])
qed

end

subsection \<open>The reading goroutine\<close>

lemma tcp_ok_read: "tcp_ok ok prot c \<Longrightarrow> tcp_sends c' = tcp_sends c \<Longrightarrow> tcp_inv ok c' \<Longrightarrow> tc_p c' = prot \<Longrightarrow>
    tc_packetCh c' = queued (tc_packetCh c) ps \<Longrightarrow> (tc_closeOnce c \<Longrightarrow> tc_closeOnce c') \<Longrightarrow> tcp_ok ok prot c'"
  using queued_fits [of "tc_packetCh c" ps] queued_shut [of "tc_packetCh c" ps] by (auto simp: tcp_ok_def tcp_sends_def queued_def)

context tcp_reader
begin

lemma tcp_read_result:
  assumes ok: "tcp_ok inv prot c"
  shows "\<not> chan_shut (tc_packetCh c) \<Longrightarrow> tcp_read rb c r \<noteq> None"
    and "tcp_read rb c r = Some (c', go) \<Longrightarrow> tcp_ok inv prot c' \<and> tcp_sends c' = tcp_sends c \<and>
      (tc_closeOnce c \<longrightarrow> tc_closeOnce c') \<and> (\<not> tc_closeOnce c \<longrightarrow> go = (\<not> tc_closeOnce c')) \<and> tcp_notifies c c'"
proof -
  note okD = tcp_okD [OF ok]
  obtain d e where r: "r = (d, e)" by fastforce
  have "(\<not> chan_shut (tc_packetCh c) \<longrightarrow> tcp_read rb c r \<noteq> None) \<and>
    (\<forall>c' go. tcp_read rb c r = Some (c', go) \<longrightarrow> tcp_ok inv prot c' \<and> tcp_sends c' = tcp_sends c \<and>
      (tc_closeOnce c \<longrightarrow> tc_closeOnce c') \<and> (\<not> tc_closeOnce c \<longrightarrow> go = (\<not> tc_closeOnce c')) \<and> tcp_notifies c c')"
  proof (cases e)
    case (Some x)
    obtain c1 where c1: "tcp_Close c (Some x) = Some c1" "tcp_ok inv prot c1" "c1 = (if tc_closeOnce c then c else tcp_shut c (Some x))"
      using tcp_Close_ok [OF ok, of "Some x"] by blast
    have "tcp_read rb c r = Some (c1, False)" using Some r c1(1) by (simp add: tcp_read_def)
    moreover have "tcp_sends c1 = tcp_sends c \<and> tc_closeOnce c1 \<and> tcp_notifies c c1"
      using tcp_notifies_shut [of c "Some x"] by (simp add: c1(3))
    ultimately show ?thesis using c1(2) by auto
  next
    case None
    show ?thesis
    proof (cases "d = []")
      case True
      then have "tcp_read rb c r = Some (c, True)" using None r by (simp add: tcp_read_def)
      then show ?thesis using ok by auto
    next
      case False
      then have st: "tcp_read rb c r = tcp_unpack rb c d" using None r by (simp add: tcp_read_def)
      obtain ctx' rest ps er where dr: "drain step (tc_qctx c) (content (tc_readBuf c) @ d) = Some (ctx', rest, ps, er)"
        using drain_returns by blast
      note uf = tcp_unpack_feed [OF okD(2,1,5) dr]
      show ?thesis
      proof (cases "ps \<noteq> [] \<and> chan_shut (tc_packetCh c)")
        case True
        then show ?thesis using uf st by simp
      next
        case False
        with uf obtain c1 where c1: "tcp_unpack rb c d = Some (c1, er = None)" "tc_p c1 = prot" "tcp_inv inv c1"
          "tc_packetCh c1 = queued (tc_packetCh c) ps" "tc_closeOnce c1 \<longleftrightarrow> tc_closeOnce c \<or> er \<noteq> None" "tcp_sends c1 = tcp_sends c"
          "tcp_notifies c c1" by auto
        have "tcp_ok inv prot c1" using tcp_ok_read [OF ok c1(6,3,2,4)] c1(5) by blast
        then show ?thesis using c1 st by auto
      qed
    qed
  qed
  then show "\<not> chan_shut (tc_packetCh c) \<Longrightarrow> tcp_read rb c r \<noteq> None"
    and "tcp_read rb c r = Some (c', go) \<Longrightarrow> tcp_ok inv prot c' \<and> tcp_sends c' = tcp_sends c \<and>
      (tc_closeOnce c \<longrightarrow> tc_closeOnce c') \<and> (\<not> tc_closeOnce c \<longrightarrow> go = (\<not> tc_closeOnce c')) \<and> tcp_notifies c c'" by blast+
qed

lemma tcp_reading_result:
  assumes ok: "tcp_ok inv prot c"
  shows "\<exists>c' go. tcp_reading_step rb c r = Some (c', go) \<and> tcp_ok inv prot c' \<and> tcp_sends c' = tcp_sends c \<and>
    (if tc_closeOnce c then c' = c \<and> \<not> go else go \<longleftrightarrow> \<not> tc_closeOnce c') \<and> tcp_notifies c c'"
proof (cases "tc_closeOnce c")
  case True
  then show ?thesis using ok tcp_okD(4) [OF ok] by (auto simp: tcp_reading_step_def)
next
  case False
  then obtain c' go where rd: "tcp_read rb c r = Some (c', go)" using tcp_read_result(1) [OF ok] tcp_okD(6) [OF ok] by fastforce
  moreover have "tcp_reading_step rb c r = tcp_read rb c r" using False tcp_okD(4) [OF ok] by (simp add: tcp_reading_step_def)
  ultimately show ?thesis using tcp_read_result(2) [OF ok rd] False by auto
qed

end

subsection \<open>A reliable byte stream\<close>

record wire_state =
  w_accepted :: bytes
  w_sent :: bytes
  w_ended :: bool

inductive wire_step :: "wire_state \<Rightarrow> bytes \<Rightarrow> wire_state \<Rightarrow> bool" where
  Accept: "\<not> w_ended w \<Longrightarrow> wire_step w d (w\<lparr>w_accepted := w_accepted w @ d\<rparr>)"
| Transmit: "\<not> w_ended w \<Longrightarrow> prefix (w_sent w @ x) (w_accepted w) \<Longrightarrow> wire_step w [] (w\<lparr>w_sent := w_sent w @ x\<rparr>)"
| Finish: "\<not> w_ended w \<Longrightarrow> prefix (w_sent w @ x) (w_accepted w) \<Longrightarrow>
    wire_step w [] (w\<lparr>w_sent := w_sent w @ x, w_ended := True\<rparr>)"
| Idle: "wire_step w [] w"

inductive wire_run :: "wire_state \<Rightarrow> bytes \<Rightarrow> wire_state \<Rightarrow> bool" for w where
  wire_Start: "wire_run w [] w"
| wire_Step: "wire_run w xs w1 \<Longrightarrow> wire_step w1 ys w2 \<Longrightarrow> wire_run w (xs @ ys) w2"

text \<open>What the specification promises: nothing is lost, duplicated or reordered, and nothing is sent after the end.\<close>

lemma wire_run_accepted:
  assumes "wire_run w xs w'" "prefix (w_sent w) (w_accepted w)"
  shows "prefix (w_sent w') (w_accepted w') \<and> prefix (w_sent w) (w_sent w') \<and> w_accepted w' = w_accepted w @ xs"
  using assms
proof (induction rule: wire_run.induct)
  case (wire_Step xs w1 ys w2)
  have "prefix (w_sent w1) (w_accepted w1)" "prefix (w_sent w) (w_sent w1)" "w_accepted w1 = w_accepted w @ xs"
    using wire_Step by auto
  with wire_Step.hyps(2) show ?case
    by (cases rule: wire_step.cases) (auto intro: prefix_order.trans)
qed simp

text \<open>A connection and the state of the stream it implements.\<close>

definition tcp_wire :: "('b \<Rightarrow> bytes) \<Rightarrow> ('h, 'i, 'b, 'cb, 'g) tcpConn \<Rightarrow> wire_state \<Rightarrow> bool" where
  "tcp_wire content c w \<longleftrightarrow> w_sent w = tc_sent c \<and> w_ended w = tc_closeOnce c \<and>
     (\<not> tc_closeOnce c \<longrightarrow> w_accepted w = tcp_out content c)"

lemma tcp_wire_same:
  assumes "tcp_wire content c w" "tc_sent c' = tc_sent c" "tc_wbuf c' = tc_wbuf c" "ch_buf (tc_writeCh c') = ch_buf (tc_writeCh c)"
    and "tc_closeOnce c \<longrightarrow> tc_closeOnce c'" "prefix (w_sent w) (w_accepted w)"
  shows "\<exists>w'. wire_step w [] w' \<and> tcp_wire content c' w'"
proof (cases "tc_closeOnce c' = tc_closeOnce c")
  case True
  then show ?thesis using assms by (intro exI [of _ w]) (auto simp: tcp_wire_def tcp_out_def intro: wire_step.Idle)
next
  case False
  with assms have "\<not> w_ended w" "tc_closeOnce c'" by (auto simp: tcp_wire_def)
  with wire_step.Finish [of w "[]"] assms show ?thesis
    by (intro exI [of _ "w\<lparr>w_ended := True\<rparr>"]) (auto simp: tcp_wire_def)
qed

context tcp_reader
begin

lemma tcp_select_refines:
  assumes "tcp_ok inv prot c" "tcp_wire content c w" "prefix (w_sent w) (w_accepted w)"
    and "tc_netClosed c \<longrightarrow> fst wr = 0 \<and> snd wr \<noteq> None" "tcp_writing_select rb c ev wr = Some (c', goes)"
  shows "tcp_ok inv prot c' \<and> (\<exists>w'. wire_step w [] w' \<and> tcp_wire content c' w')"
proof -
  obtain x where x: "tcp_ok inv prot c'" "tc_sent c' = tc_sent c @ x"
    "if tc_closeOnce c then x = [] \<and> tc_closeOnce c'
     else prefix (tc_sent c @ x) (tcp_out content c) \<and> (\<not> tc_closeOnce c' \<longrightarrow> tcp_out content c' = tcp_out content c)"
    using tcp_select_result [OF assms(1,4), of ev] assms(5) by auto
  show ?thesis
  proof (cases "tc_closeOnce c")
    case True
    then have "tcp_wire content c' w" using x assms(2) by (simp add: tcp_wire_def)
    then show ?thesis using x(1) wire_step.Idle by blast
  next
    case False
    let ?w = "w\<lparr>w_sent := w_sent w @ x, w_ended := tc_closeOnce c'\<rparr>"
    have w: "\<not> w_ended w" "prefix (w_sent w @ x) (w_accepted w)" using assms(2) x False by (auto simp: tcp_wire_def)
    have "w\<lparr>w_sent := w_sent w @ x, w_ended := False\<rparr> = w\<lparr>w_sent := w_sent w @ x\<rparr>" using w(1) by simp
    then have "wire_step w [] ?w" using wire_step.Transmit [OF w] wire_step.Finish [OF w] by (cases "tc_closeOnce c'") simp_all
    moreover have "tcp_wire content c' ?w" using assms(2) x False by (auto simp: tcp_wire_def)
    ultimately show ?thesis using x(1) by blast
  qed
qed

lemma tcp_step_refines:
  assumes "tcp_step rb c d c'" "tcp_ok inv prot c" "tcp_wire content c w" "prefix (w_sent w) (w_accepted w)"
  shows "tcp_ok inv prot c' \<and> (\<exists>w'. wire_step w d w' \<and> tcp_wire content c' w')"
proof -
  note same = tcp_wire_same [OF assms(3) _ _ _ _ assms(4)]
  have select: "tcp_ok inv prot c' \<and> (\<exists>w'. wire_step w [] w' \<and> tcp_wire content c' w')"
    if "tc_netClosed c \<longrightarrow> fst wr = 0 \<and> snd wr \<noteq> None" "tcp_writing_select rb c ev wr = Some (c', goes)" for wr ev goes
    using tcp_select_refines [OF assms(2-4) that] .
  from assms(1) show ?thesis
  proof (cases rule: tcp_step.cases)
    case (WriteS p popts p' err)
    note r = tcp_Write_result [OF assms(2) WriteS(2)]
    have "\<exists>w'. wire_step w d w' \<and> tcp_wire content c' w'"
    proof (cases "tc_closeOnce c")
      case True
      with r(7) have "c' = c" "err = Some ErrConnClosed" by simp_all
      then have "d = []" using WriteS(1) by (auto simp: tcp_accepted_def split: option.splits sum.splits)
      then show ?thesis using assms(3) \<open>c' = c\<close> wire_step.Idle by blast
    next
      case False
      then have "tcp_wire content c' (w\<lparr>w_accepted := w_accepted w @ d\<rparr>)"
        using assms(3) r WriteS(1) by (simp add: tcp_wire_def tcp_out_def)
      then show ?thesis using assms(3) False wire_step.Accept [of w d] by (auto simp: tcp_wire_def)
    qed
    with r(1) show ?thesis by blast
  next
    case (EnqueueS ctx p popts p' data err)
    have op: "\<not> tc_closeOnce c"
      using EnqueueS(3) tcp_okD(1) [OF assms(2)] by (auto simp: tcp_enqueue_def try_send_def tcp_inv_def)
    have "tcp_ok inv prot c'" "tcp_wire content c' (w\<lparr>w_accepted := w_accepted w @ d\<rparr>)"
      using tcp_enqueue_result [OF assms(2) op, of data] EnqueueS(1,3) assms(3) op by (auto simp: tcp_wire_def tcp_out_def)
    then show ?thesis using assms(3) op wire_step.Accept [of w d] by (auto simp: tcp_wire_def)
  next
    case (WritingS ev wr goes)
    show ?thesis
    proof (cases "tc_closeOnce c")
      case True
      then show ?thesis using WritingS assms(2,3) wire_step.Idle by (auto simp: tcp_writing_open(1) [OF assms(2)])
    next
      case False
      then show ?thesis
        using select [of wr ev goes] WritingS tcp_writing_open [OF assms(2)] by simp
    qed
  next
    case (SelectS wr ev goes)
    then show ?thesis using select by blast
  next
    case (CloseS err)
    with tcp_Close_ok [OF assms(2), of err] show ?thesis using same [of c'] by auto
  next
    case (ReadingS r goes)
    then show ?thesis
      using tcp_reading_result [OF assms(2), of r] same [of c'] by (auto simp: tcp_sends_def split: if_splits)
  next
    case (ReadS r goes)
    then show ?thesis
      using tcp_read_result(2) [OF assms(2) ReadS(2)] same [of c'] by (auto simp: tcp_sends_def)
  next
    case OnPacketS
    with tcp_OnPacket_result [OF assms(2)] show ?thesis using same [of c'] by auto
  next
    case (DeliverS calls goes)
    with tcp_deliver_result [OF assms(2) DeliverS(2)] show ?thesis using same [of c'] by auto
  next
    case (ReceiveS calls goes)
    with tcp_receive_result [OF assms(2) ReceiveS(2)] show ?thesis using same [of c'] by auto
  next
    case (FinishS calls)
    with tcp_finish_result [OF assms(2) FinishS(2,3)] show ?thesis using same [of c'] by auto
  next
    case (OnCloseS cb)
    then have "tcp_ok inv prot c'" using assms(2) by (simp add: tcp_OnClose_def tcp_ok_def tcp_inv_def)
    then show ?thesis
      using same [of c'] OnCloseS by (auto simp: tcp_OnClose_def)
  qed
qed

lemma tcp_run_refines:
  assumes "tcp_run rb c xs c'" "tcp_ok inv prot c" "tcp_wire content c w" "prefix (w_sent w) (w_accepted w)"
  shows "tcp_ok inv prot c' \<and> (\<exists>w'. wire_run w xs w' \<and> tcp_wire content c' w')"
  using assms
proof (induction rule: tcp_run.induct)
  case Start
  then show ?case using wire_Start by blast
next
  case (Step xs c1 ys c2)
  then obtain w1 where w1: "tcp_ok inv prot c1" "wire_run w xs w1" "tcp_wire content c1 w1" by blast
  have "prefix (w_sent w1) (w_accepted w1)" using wire_run_accepted [OF w1(2)] Step.prems(3) by blast
  from tcp_step_refines [OF Step.hyps(2) w1(1,3) this] show ?case using wire_Step [OF w1(2)] by blast
qed

end

subsection \<open>Dialling\<close>

context ring_buffer
begin

lemma dialTCPConn_result:
  assumes "dialTCPConn rb mgr dialed hs o' = Some (Inr c)" and "0 \<le> do_ReadQueueSize o'"
  shows "\<exists>p. GetProtocol mgr (hs_Version hs) = Inr p \<and> dialed = None \<and> tcp_ok inv p c \<and> \<not> tc_closeOnce c \<and>
    tc_sent c = [] \<and> tcp_out content c = Handshake_Pack hs \<and> content (tc_readBuf c) = [] \<and> tc_packetCh c = None \<and>
    tc_callbacks c = newCloseCallback \<and> tc_calls c = [] \<and> tc_dopts c = o' \<and>
    tc_qctx c = (NewContext ClientSide)\<lparr>ctx_Codec := hs_Codec hs, ctx_Platform := hs_Platform hs, ctx_Version := hs_Version hs\<rparr>"
  using assms
  by (auto simp: dialTCPConn_def bind_eq_Some_conv make_chan_def tcp_write_def tcp_closed_def try_recv_def tcp_enqueue_def
      try_send_def tcp_ok_def tcp_inv_def New chan_fits_def chan_shut_def chan_ok_def tcp_out_def Let_def
      split: sum.splits option.splits if_splits)

lemma dialTCPConn_returns:
  assumes "wf_dial o'" "mgr (hs_Version hs) = Some p"
  shows "\<exists>c. dialTCPConn rb mgr None hs o' = Some (Inr c)"
  using assms
  by (auto simp: dialTCPConn_def GetProtocol_def make_chan_def tcp_write_def tcp_closed_def try_recv_def tcp_enqueue_def
      try_send_def wf_dial_def Let_def)

lemma dialled:
  assumes "wf_dial o'" "mgr (hs_Version hs) = Some p"
  obtains c :: "('h, 'i, 'b, 'cb, 'g) tcpConn" where "dialTCPConn rb mgr None hs o' = Some (Inr c)" "tcp_ok inv p c" "\<not> tc_closeOnce c"
    "tc_sent c = []" "tcp_out content c = Handshake_Pack hs" "content (tc_readBuf c) = []" "tc_packetCh c = None" "tc_calls c = []"
    "tc_dopts c = o'"
    "tc_qctx c = (NewContext ClientSide)\<lparr>ctx_Codec := hs_Codec hs, ctx_Platform := hs_Platform hs, ctx_Version := hs_Version hs\<rparr>"
proof -
  obtain c :: "('h, 'i, 'b, 'cb, 'g) tcpConn" where c: "dialTCPConn rb mgr None hs o' = Some (Inr c)" using dialTCPConn_returns [of o' mgr hs, OF assms] by blast
  show thesis
    using dialTCPConn_result [OF c] assms by (intro that [OF c]) (auto simp: wf_dial_def GetProtocol_def)
qed

end

subsection \<open>Closing\<close>

text \<open>A step on a connection that is closed changes nothing of what has been sent and called.\<close>

context tcp_reader
begin

lemma tcp_step_notifies:
  assumes "tcp_step rb c d c'" "tcp_ok inv prot c"
  shows "(if tc_closeOnce c then tc_closeOnce c' \<and> tc_calls c' = tc_calls c \<and> tc_sent c' = tc_sent c \<and> d = []
     else if tc_closeOnce c' then \<exists>err. tc_calls c' = tc_calls c @ DispatchClose (tc_callbacks c) err
     else tc_calls c' = tc_calls c)"
  using assms
proof (cases rule: tcp_step.cases)
  case (WriteS p popts p' err)
  note r = tcp_Write_result [OF assms(2) WriteS(2)]
  have "d = []" if "tc_closeOnce c"
    using r(7) [OF that] WriteS(1) by (auto simp: tcp_accepted_def split: option.splits sum.splits)
  with r show ?thesis by (auto simp: tcp_notifies_def)
next
  case (EnqueueS ctx p popts p' data err)
  have op: "\<not> tc_closeOnce c"
    using EnqueueS(3) tcp_okD(1) [OF assms(2)] by (auto simp: tcp_enqueue_def try_send_def tcp_inv_def)
  show ?thesis using tcp_enqueue_result [OF assms(2) op, of data] EnqueueS(3) op by auto
next
  case (WritingS ev w goes)
  then show ?thesis
    using tcp_writing_open [OF assms(2)] tcp_select_result [OF assms(2), of w ev] by (auto simp: tcp_notifies_def split: if_splits)
next
  case (SelectS w ev goes)
  then show ?thesis
    using tcp_select_result [OF assms(2), of w ev] by (auto simp: tcp_notifies_def split: if_splits)
next
  case (CloseS err)
  then show ?thesis
    using tcp_Close_ok [OF assms(2), of err] by (auto simp: tcp_shut_def)
next
  case (ReadingS r goes)
  then show ?thesis
    using tcp_reading_result [OF assms(2), of r] by (auto simp: tcp_notifies_def split: if_splits)
next
  case (ReadS r goes)
  then show ?thesis
    using tcp_read_result(2) [OF assms(2) ReadS(2)] by (auto simp: tcp_notifies_def tcp_sends_def split: if_splits)
next
  case OnPacketS
  then show ?thesis
    using tcp_OnPacket_result [OF assms(2)] by (auto simp: tcp_notifies_def)
next
  case (DeliverS calls goes)
  then show ?thesis using tcp_deliver_result(2) [OF assms(2) DeliverS(2)] by auto
next
  case (ReceiveS calls goes)
  then show ?thesis using tcp_receive_result(2) [OF assms(2) ReceiveS(2)] by auto
next
  case (FinishS calls)
  then show ?thesis using tcp_finish_result(2) [OF assms(2) FinishS(2,3)] by auto
next
  case (OnCloseS cb)
  then show ?thesis by (simp add: tcp_OnClose_def)
qed

lemma tcp_run_ok:
  assumes "tcp_run rb c xs c'" "tcp_ok inv prot c"
  shows "tcp_ok inv prot c'"
proof -
  let ?w = "\<lparr>w_accepted = tcp_out content c, w_sent = tc_sent c, w_ended = tc_closeOnce c\<rparr>"
  have "tcp_wire content c ?w" "prefix (w_sent ?w) (w_accepted ?w)" by (simp_all add: tcp_wire_def tcp_out_def)
  from tcp_run_refines [OF assms this] show ?thesis by blast
qed

lemma tcp_run_closed:
  assumes "tcp_run rb c xs c'" "tcp_ok inv prot c" "tc_closeOnce c"
  shows "tc_closeOnce c' \<and> tc_calls c' = tc_calls c \<and> tc_sent c' = tc_sent c \<and> xs = []"
  using assms
proof (induction rule: tcp_run.induct)
  case (Step xs c1 ys c2)
  then show ?case using tcp_step_notifies [OF Step.hyps(2) tcp_run_ok [OF Step.hyps(1)]] by simp
qed simp

text \<open>A run that ends closed has one step that closes; it calls the callbacks registered until then, and nothing is called before or after.\<close>

lemma tcp_run_notifies:
  assumes "tcp_run rb c xs c'" "tcp_ok inv prot c" "\<not> tc_closeOnce c" "tc_calls c = []"
  shows "if tc_closeOnce c'
    then \<exists>ys zs c1 c2 e. tcp_run rb c ys c1 \<and> \<not> tc_closeOnce c1 \<and> tcp_step rb c1 zs c2 \<and> tc_closeOnce c2 \<and> tcp_run rb c2 [] c' \<and>
      xs = ys @ zs \<and> tc_calls c1 = [] \<and> tc_calls c2 = DispatchClose (tc_callbacks c1) e \<and> tc_calls c' = tc_calls c2
    else tc_calls c' = []"
  using assms
proof (induction rule: tcp_run.induct)
  case (Step xs c1 ys c2)
  note nt = tcp_step_notifies [OF Step.hyps(2) tcp_run_ok [OF Step.hyps(1) Step.prems(1)]]
  show ?case
  proof (cases "tc_closeOnce c1")
    case True
    with nt have "tc_closeOnce c2" "tc_calls c2 = tc_calls c1" "ys = []" by simp_all
    with Step.IH [OF Step.prems] True show ?thesis using tcp_run.Step [OF _ Step.hyps(2)] by fastforce
  next
    case False
    with Step.IH [OF Step.prems] have "tc_calls c1 = []" by simp
    then show ?thesis
      using nt False Step.hyps tcp_run.Start by (cases "tc_closeOnce c2") fastforce+
  qed
qed simp

end

subsection \<open>Sending everything\<close>

text \<open>The writing goroutine over a sequence of ready cases and write results.\<close>

fun tcp_writing ::
    "'b rb_ops \<Rightarrow> ('h, 'i, 'b, 'cb, 'g) tcpConn \<Rightarrow> (write_event \<times> nat \<times> error option) list
     \<Rightarrow> ('h, 'i, 'b, 'cb, 'g) tcpConn go" where
  "tcp_writing rb c [] = Some c"
| "tcp_writing rb c ((ev, w) # es) = do {
     (c, goes) \<leftarrow> tcp_writing_step rb c ev w;
     if goes then tcp_writing rb c es else Some c }"

context ring_buffer
begin

lemma tcp_writing_flush:
  assumes "tcp_ok inv prot c" "\<not> tc_closeOnce c" "length (tcp_out content c) \<le> n"
  shows "\<exists>c'. tcp_writing rb c (replicate (length (ch_buf (tc_writeCh c))) (FromQueue, n, None) @ [(Tick, n, None)]) = Some c' \<and>
    \<not> tcp_closed c' \<and> tc_sent c' = tcp_out content c"
  using assms
proof (induction "ch_buf (tc_writeCh c)" arbitrary: c)
  case Nil
  obtain c' where "tcp_writing_step rb c Tick (n, None) = Some (c', True)" "tcp_ok inv prot c'" "\<not> tc_closeOnce c'" "content (tc_wbuf c') = []"
    "tcp_out content c' = tcp_out content c" "ch_buf (tc_writeCh c') = []"
    using tcp_writing_progress [OF Nil.prems, of Tick] Nil.hyps by auto
  then show ?case using Nil.hyps [symmetric] tcp_okD(4) [of inv prot c'] by (simp add: tcp_out_def)
next
  case (Cons b bs)
  have ne: "ch_buf (tc_writeCh c) = b # bs" using Cons.hyps(2) by simp
  obtain c' where c': "tcp_writing_step rb c FromQueue (n, None) = Some (c', True)" "tcp_ok inv prot c'" "\<not> tc_closeOnce c'"
    "tcp_out content c' = tcp_out content c" "ch_buf (tc_writeCh c') = bs"
    using tcp_writing_progress [OF Cons.prems, of FromQueue] ne by auto
  with Cons.hyps(1) [of c'] Cons.prems(3) show ?case by (auto simp: ne)
qed

end

subsection \<open>Delivering whole frames\<close>

lemma protocolV1_Pack_total:
  assumes "pk_Metadata p = Some md"
  shows "protocolV1_Pack gz level pooled p opts \<noteq> None"
proof (cases "compresses opts (pk_Body p)")
  case True
  obtain z er where z: "gzip_Compress gz level (pk_Body p) = (z, er)" by fastforce
  show ?thesis
    using protocolV1_Pack_gzip [of p md opts gz level z pooled] True z assms
    by (cases er) (auto simp: compresses_def protocolV1_Pack_def)
next
  case False
  then show ?thesis
    using protocolV1_Pack_plain [of p md opts gz level pooled] assms by (auto simp: compresses_def)
qed

text \<open>A packet, the options it was packed with and the frame; and the packet that a peer receives.\<close>

definition v1_packed :: "('w, 'r) gz_lib \<Rightarrow> int \<Rightarrow> Header \<Rightarrow> Packet \<times> PackOption list \<times> bytes \<Rightarrow> bool" where
  "v1_packed gz level pooled s \<longleftrightarrow> (case s of (p, opts, frame) \<Rightarrow>
     (case pk_Metadata p of None \<Rightarrow> False | Some md \<Rightarrow> \<not> md_Gzip md) \<and> length (pk_Body p) < 2 ^ 32 \<and>
     (case protocolV1_Pack gz level pooled p opts of Some (p', Inr frame') \<Rightarrow> frame' = frame | _ \<Rightarrow> False))"

definition v1_delivered :: "(Header, 'i) Context \<Rightarrow> Packet \<times> PackOption list \<times> bytes \<Rightarrow> Packet" where
  "v1_delivered ctx s = (case s of (p, opts, frame) \<Rightarrow>
     \<lparr>pk_Metadata = map_option (\<lambda>md. v1_received ctx (md\<lparr>md_Gzip := compresses opts (pk_Body p)\<rparr>)) (pk_Metadata p),
      pk_Body = pk_Body p\<rparr>)"

lemma v1_frame_nonempty: "v1_frame md body \<noteq> []"
  by (simp add: v1_frame_parts v1_wire_def)

lemma v1_packed_step:
  assumes gz: "gzip_codec gz" "- 1 \<le> level" "level \<le> 9" and s: "v1_packed gz level pooled (p, opts, frame)"
    and ctx: "ctx_Header ctx = None" "\<not> ctx_beginUnpack ctx"
  shows "v1_step gz zr ctx (frame @ rest) = (ctx, rest, Some (v1_delivered ctx (p, opts, frame)), True, None)" "frame \<noteq> []"
proof -
  obtain md p' where p: "pk_Metadata p = Some md" "\<not> md_Gzip md" "length (pk_Body p) < 2 ^ 32"
    "protocolV1_Pack gz level pooled p opts = Some (p', Inr frame)"
    using s by (auto simp: v1_packed_def split: option.splits sum.splits)
  obtain body where b: "frame = v1_frame (md\<lparr>md_Gzip := compresses opts (pk_Body p)\<rparr>) body"
    "known_ptype (md_Type md)" "length body \<le> MaxBodyLength"
    "maybe_gunzip gz zr (compresses opts (pk_Body p)) body = (pk_Body p, None)"
    using protocolV1_Pack_sent [OF gz p] by metis
  have "ctx\<lparr>ctx_beginUnpack := False\<rparr> = ctx" using ctx(2) by simp
  then show "v1_step gz zr ctx (frame @ rest) = (ctx, rest, Some (v1_delivered ctx (p, opts, frame)), True, None)"
    using v1_step_frame [of "md\<lparr>md_Gzip := compresses opts (pk_Body p)\<rparr>" body ctx gz zr "pk_Body p" rest] b ctx(1) p(1)
    by (simp add: v1_delivered_def)
  show "frame \<noteq> []" by (simp add: b(1) v1_frame_nonempty)
qed

lemma v1_step_empty: "ctx_Header ctx = None \<Longrightarrow> \<exists>ctx'. drain (v1_step gz zr) ctx [] = Some (ctx', [], [], None)"
  by (simp add: drain.simps v1_step_frame_step frame_step_def Header_zero_def v1_header_step_def header_step_def Let_def)

subsection \<open>Runs of a dialled connection\<close>

context tcp_reader
begin

lemma dial_refines:
  assumes "wf_dial o'" "mgr (hs_Version hs) = Some prot"
  shows "\<exists>c0 :: ('h, 'i, 'b, 'cb, 'g) tcpConn. dialTCPConn rb mgr None hs o' = Some (Inr c0) \<and>
    (\<forall>xs c. tcp_run rb c0 xs c \<longrightarrow>
      (\<exists>w. wire_run \<lparr>w_accepted = Handshake_Pack hs, w_sent = [], w_ended = False\<rparr> xs w \<and> tcp_wire content c w) \<and>
      prefix (tc_sent c) (Handshake_Pack hs @ xs))"
proof -
  obtain c0 :: "('h, 'i, 'b, 'cb, 'g) tcpConn" where c0: "dialTCPConn rb mgr None hs o' = Some (Inr c0)" "tcp_ok inv prot c0" "\<not> tc_closeOnce c0"
    "tc_sent c0 = []" "tcp_out content c0 = Handshake_Pack hs"
    using dialled [of o' mgr hs, OF assms] by metis
  let ?w = "\<lparr>w_accepted = Handshake_Pack hs, w_sent = [], w_ended = False\<rparr>"
  have w: "tcp_wire content c0 ?w" "prefix (w_sent ?w) (w_accepted ?w)" using c0 by (simp_all add: tcp_wire_def)
  have "(\<exists>w. wire_run ?w xs w \<and> tcp_wire content c w) \<and> prefix (tc_sent c) (Handshake_Pack hs @ xs)"
    if run: "tcp_run rb c0 xs c" for xs c
  proof -
    obtain w' where w': "wire_run ?w xs w'" "tcp_wire content c w'"
      using tcp_run_refines [OF run c0(2) w] by blast
    with wire_run_accepted [OF w'(1) w(2)] show ?thesis by (auto simp: tcp_wire_def)
  qed
  with c0(1) show ?thesis by blast
qed

text \<open>No operation panics in a state of the invariant, but for the queue operations on a queue that was closed.\<close>

lemma tcp_ok_returns:
  assumes ok: "tcp_ok inv prot c"
  shows "tcp_reading_step rb c r \<noteq> None" "tcp_writing_step rb c ev w \<noteq> None" "tcp_Close c err \<noteq> None" "tcp_OnPacket c \<noteq> None"
    and "(tc_netClosed c \<longrightarrow> fst w = 0 \<and> snd w \<noteq> None) \<Longrightarrow> tcp_writing_select rb c ev w \<noteq> None"
    and "tcp_enqueue c d = None \<longleftrightarrow> tcp_closed c"
    and "tcp_addPacket c q = None \<longleftrightarrow> chan_shut (tc_packetCh c)"
    and "\<not> chan_shut (tc_packetCh c) \<Longrightarrow> tc_packetCh c \<noteq> None \<Longrightarrow> tcp_deliver c \<noteq> None"
    and "tc_packetCh c \<noteq> None \<Longrightarrow> tcp_receive c \<noteq> None"
proof -
  show "tcp_reading_step rb c r \<noteq> None" "tcp_Close c err \<noteq> None" "tcp_OnPacket c \<noteq> None"
    using tcp_reading_result [OF ok, of r] tcp_OnPacket_result [OF ok] tcp_Close_ok [OF ok, of err] by auto
  show sel: "tcp_writing_select rb c ev w \<noteq> None" if "tc_netClosed c \<longrightarrow> fst w = 0 \<and> snd w \<noteq> None"
    using tcp_select_result [OF ok that, of ev] by auto
  show "tcp_writing_step rb c ev w \<noteq> None" using sel tcp_writing_open [OF ok] by auto
  show "tcp_enqueue c d = None \<longleftrightarrow> tcp_closed c"
    using tcp_okD(1,4) [OF ok] by (auto simp: tcp_enqueue_def try_send_def tcp_inv_def)
  show "tcp_addPacket c q = None \<longleftrightarrow> chan_shut (tc_packetCh c)" using tcp_addPacket_queued [OF tcp_okD(5) [OF ok]] by simp
  show rc: "tcp_receive c \<noteq> None" if "tc_packetCh c \<noteq> None"
    using that by (auto simp: tcp_receive_def split: received.splits)
  show "tcp_deliver c \<noteq> None" if "\<not> chan_shut (tc_packetCh c)" "tc_packetCh c \<noteq> None"
    using that rc tcp_deliver_closed [of c] by (cases "tcp_closed c") (auto simp: chan_shut_def tcp_deliver_def)
qed

lemma tcp_Write_returns:
  assumes ok: "tcp_ok inv prot c" and pack: "prot_Pack prot (tc_qctx c) p opts \<noteq> None"
  shows "tcp_Write c p opts \<noteq> None"
proof (cases "tcp_closed c")
  case False
  obtain q y where y: "prot_Pack (tc_p c) (tc_qctx c) p opts = Some (q, y)" using pack tcp_okD(2) [OF ok] by auto
  show ?thesis
  proof (cases y)
    case (Inr d)
    have "tcp_enqueue c d \<noteq> None" using tcp_ok_returns(6) [OF ok] False by simp
    then show ?thesis using y Inr False by (auto simp: tcp_Write_def tcp_write_def)
  qed (use y False in \<open>auto simp: tcp_Write_def\<close>)
qed (simp add: tcp_Write_def)

lemma dial_safe:
  assumes "wf_dial o'" "mgr (hs_Version hs) = Some prot"
    and pack: "\<And>ctx p opts. pk_Metadata p \<noteq> None \<Longrightarrow> prot_Pack prot ctx p opts \<noteq> None"
  shows "\<exists>c0 :: ('h, 'i, 'b, 'cb, 'g) tcpConn. dialTCPConn rb mgr None hs o' = Some (Inr c0) \<and>
    (\<forall>xs c. tcp_run rb c0 xs c \<longrightarrow>
      tcp_reading_step rb c r \<noteq> None \<and> tcp_writing_step rb c ev w \<noteq> None \<and> tcp_Close c err \<noteq> None \<and> tcp_OnPacket c \<noteq> None \<and>
      (pk_Metadata p \<noteq> None \<longrightarrow> tcp_Write c p opts \<noteq> None) \<and>
      ((tc_netClosed c \<longrightarrow> fst w = 0 \<and> snd w \<noteq> None) \<longrightarrow> tcp_writing_select rb c ev w \<noteq> None) \<and>
      (tcp_enqueue c d = None \<longleftrightarrow> tcp_closed c) \<and>
      (tcp_addPacket c q = None \<longleftrightarrow> chan_shut (tc_packetCh c)) \<and> (chan_shut (tc_packetCh c) \<longrightarrow> tcp_closed c) \<and>
      (\<not> chan_shut (tc_packetCh c) \<longrightarrow> tcp_read rb c r \<noteq> None \<and> (tc_packetCh c \<noteq> None \<longrightarrow> tcp_deliver c \<noteq> None \<and> tcp_receive c \<noteq> None)) \<and>
      (if tcp_closed c then tcp_Write c p opts = Some (c, p, Some ErrConnClosed) \<and> tcp_Close c err = Some c \<and>
          (\<exists>ys zs c1 c2 e. tcp_run rb c0 ys c1 \<and> \<not> tcp_closed c1 \<and> tc_calls c1 = [] \<and> tcp_step rb c1 zs c2 \<and> tcp_closed c2 \<and>
             tc_calls c2 = DispatchClose (tc_callbacks c1) e \<and> tcp_run rb c2 [] c \<and> tc_calls c = tc_calls c2) \<and>
          (\<forall>ys c'. tcp_run rb c ys c' \<longrightarrow> tcp_closed c' \<and> tc_calls c' = tc_calls c \<and> tc_sent c' = tc_sent c \<and> ys = [])
       else tc_calls c = [] \<and>
          (\<exists>c'. tcp_Close c err = Some c' \<and> tcp_closed c' \<and> tc_calls c' = DispatchClose (tc_callbacks c) err \<and> tc_sent c' = tc_sent c)))"
proof -
  obtain c0 :: "('h, 'i, 'b, 'cb, 'g) tcpConn" where c0: "dialTCPConn rb mgr None hs o' = Some (Inr c0)" "tcp_ok inv prot c0" "\<not> tc_closeOnce c0" "tc_calls c0 = []"
    using dialled [of o' mgr hs, OF assms(1,2)] by metis
  have runs: "tcp_ok inv prot c" "tcp_closed c = tc_closeOnce c" if "tcp_run rb c0 xs c" for xs c
    using tcp_run_ok [OF that c0(2)] tcp_okD(4) by blast+
  have closed: "\<exists>ys zs c1 c2 e. tcp_run rb c0 ys c1 \<and> \<not> tcp_closed c1 \<and> tc_calls c1 = [] \<and> tcp_step rb c1 zs c2 \<and> tcp_closed c2 \<and>
      tc_calls c2 = DispatchClose (tc_callbacks c1) e \<and> tcp_run rb c2 [] c \<and> tc_calls c = tc_calls c2"
    if run: "tcp_run rb c0 xs c" "tc_closeOnce c" for xs c
  proof -
    obtain ys zs c1 c2 e where *: "tcp_run rb c0 ys c1" "\<not> tc_closeOnce c1" "tcp_step rb c1 zs c2" "tc_closeOnce c2" "tcp_run rb c2 [] c"
      "tc_calls c1 = []" "tc_calls c2 = DispatchClose (tc_callbacks c1) e" "tc_calls c = tc_calls c2"
      using tcp_run_notifies [OF run(1) c0(2-4)] run(2) by auto
    from runs(2) [OF *(1)] runs(2) [OF tcp_run.Step [OF *(1,3)]] * show ?thesis by blast
  qed
  have later: "tcp_closed c' \<and> tc_calls c' = tc_calls c \<and> tc_sent c' = tc_sent c \<and> ys = []"
    if "tcp_run rb c0 xs c" "tc_closeOnce c" "tcp_run rb c ys c'" for xs c ys c'
    using tcp_run_closed [OF that(3) runs(1) [OF that(1)] that(2)] tcp_okD(4) [OF tcp_run_ok [OF that(3) runs(1) [OF that(1)]]] by simp
  have "tcp_reading_step rb c r \<noteq> None \<and> tcp_writing_step rb c ev w \<noteq> None \<and> tcp_Close c err \<noteq> None \<and> tcp_OnPacket c \<noteq> None \<and>
      (pk_Metadata p \<noteq> None \<longrightarrow> tcp_Write c p opts \<noteq> None) \<and>
      ((tc_netClosed c \<longrightarrow> fst w = 0 \<and> snd w \<noteq> None) \<longrightarrow> tcp_writing_select rb c ev w \<noteq> None) \<and>
      (tcp_enqueue c d = None \<longleftrightarrow> tcp_closed c) \<and>
      (tcp_addPacket c q = None \<longleftrightarrow> chan_shut (tc_packetCh c)) \<and> (chan_shut (tc_packetCh c) \<longrightarrow> tcp_closed c) \<and>
      (\<not> chan_shut (tc_packetCh c) \<longrightarrow> tcp_read rb c r \<noteq> None \<and> (tc_packetCh c \<noteq> None \<longrightarrow> tcp_deliver c \<noteq> None \<and> tcp_receive c \<noteq> None))"
    if run: "tcp_run rb c0 xs c" for xs c
  proof -
    note ok = runs(1) [OF run]
    note ret = tcp_ok_returns [OF ok]
    have "chan_shut (tc_packetCh c) \<Longrightarrow> tcp_closed c" using tcp_okD(6) [OF ok] runs(2) [OF run] by blast
    then show ?thesis by (intro conjI impI ret tcp_Write_returns [OF ok pack] tcp_read_result(1) [OF ok]) simp_all
  qed
  moreover have "if tcp_closed c then tcp_Write c p opts = Some (c, p, Some ErrConnClosed) \<and> tcp_Close c err = Some c \<and>
          (\<exists>ys zs c1 c2 e. tcp_run rb c0 ys c1 \<and> \<not> tcp_closed c1 \<and> tc_calls c1 = [] \<and> tcp_step rb c1 zs c2 \<and> tcp_closed c2 \<and>
             tc_calls c2 = DispatchClose (tc_callbacks c1) e \<and> tcp_run rb c2 [] c \<and> tc_calls c = tc_calls c2) \<and>
          (\<forall>ys c'. tcp_run rb c ys c' \<longrightarrow> tcp_closed c' \<and> tc_calls c' = tc_calls c \<and> tc_sent c' = tc_sent c \<and> ys = [])
       else tc_calls c = [] \<and>
          (\<exists>c'. tcp_Close c err = Some c' \<and> tcp_closed c' \<and> tc_calls c' = DispatchClose (tc_callbacks c) err \<and> tc_sent c' = tc_sent c)"
    if run: "tcp_run rb c0 xs c" for xs c
  proof (cases "tc_closeOnce c")
    case True
    then show ?thesis
      using closed [OF run True] later [OF run True] runs [OF run] by (simp add: tcp_Write_def tcp_Close_def)
  next
    case False
    have "tcp_Close c err = Some (tcp_shut c err)" using tcp_Close_eq [OF tcp_okD(1) [OF runs(1) [OF run]]] False by simp
    moreover have "tcp_closed (tcp_shut c err)" using tcp_okD(4) [OF tcp_shut_ok [OF runs(1) [OF run]]] by simp
    moreover have "tc_calls c = []" using tcp_run_notifies [OF run c0(2-4)] False by simp
    ultimately show ?thesis using False runs(2) [OF run] by (simp add: tcp_shut_def)
  qed
  ultimately show ?thesis using c0(1) by blast
qed

text \<open>A freshly dialled connection delivers the frames it receives, in order, as far as the packet queue has room.\<close>

lemma dial_delivers:
  assumes "wf_dial o'" "mgr (hs_Version hs) = Some prot"
    and ctx: "ctx = (NewContext ClientSide)\<lparr>ctx_Codec := hs_Codec hs, ctx_Platform := hs_Platform hs, ctx_Version := hs_Version hs\<rparr>"
    and fqs: "\<And>f q rest. (f, q) \<in> set fqs \<Longrightarrow> step ctx (f @ rest) = (ctx, rest, Some q, True, None)"
    and ne: "\<And>f q. (f, q) \<in> set fqs \<Longrightarrow> f \<noteq> []"
    and wait: "drain step ctx [] = Some (ctx', [], [], None)"
    and ds: "concat ds = concat (map fst fqs)"
  shows "\<exists>(c0 :: ('h, 'i, 'b, 'cb, 'g) tcpConn) c1 c2 ch. dialTCPConn rb mgr None hs o' = Some (Inr c0) \<and> tcp_OnPacket c0 = Some c1 \<and>
    tcp_reading rb c1 (map (\<lambda>d. (d, None)) ds) = Some c2 \<and> \<not> tcp_closed c2 \<and> content (tc_readBuf c2) = [] \<and>
    tc_packetCh c2 = Some ch \<and> ch_buf ch = take (nat (do_ReadQueueSize o')) (map (Some \<circ> snd) fqs)"
proof -
  obtain c0 :: "('h, 'i, 'b, 'cb, 'g) tcpConn" where c0: "dialTCPConn rb mgr None hs o' = Some (Inr c0)" "tcp_ok inv prot c0"
    "\<not> tc_closeOnce c0" "content (tc_readBuf c0) = []" "tc_packetCh c0 = None" "tc_dopts c0 = o'" "tc_qctx c0 = ctx"
    unfolding ctx using dialled [of o' mgr hs, OF assms(1,2)] by metis
  define ch where "ch = \<lparr>ch_buf = ([] :: Packet option list), ch_cap = nat (do_ReadQueueSize o'), ch_closed = False\<rparr>"
  define c1 where "c1 = c0\<lparr>tc_onPacketOnce := True, tc_packetCh := Some ch\<rparr>"
  have c1: "tcp_OnPacket c0 = Some c1"
    using c0 assms(1) by (auto simp: tcp_OnPacket_def make_chan_def c1_def ch_def tcp_ok_def wf_dial_def)
  have ok1: "tc_p c1 = prot" "tcp_inv inv c1" "\<not> tc_closeOnce c1" "open_chan (tc_packetCh c1)"
    using c0(2,3) by (simp_all add: c1_def ch_def tcp_ok_def tcp_inv_def open_chan_def chan_ok_def)
  have st1: "tc_qctx c1 = ctx" "content (tc_readBuf c1) = []" using c0 by (simp_all add: c1_def)
  have fin: "\<exists>ch'. queued (tc_packetCh c1) ps = Some ch' \<and> ch_buf ch' = take (nat (do_ReadQueueSize o')) ps" for ps
    by (simp add: c1_def ch_def queued_def)
  have "\<exists>c2. tcp_reading rb c1 (map (\<lambda>d. (d, None)) ds) = Some c2 \<and> tcp_inv inv c2 \<and> \<not> tc_closeOnce c2 \<and>
      content (tc_readBuf c2) = [] \<and> tc_packetCh c2 = queued (tc_packetCh c1) (map (Some \<circ> snd) fqs)"
  proof (cases "concat ds = []")
    case True
    with ds ne have "fqs = []" by (cases fqs) fastforce+
    then show ?thesis
      using tcp_reading_feed [OF ok1, of ds ctx "[]" "[]" None] True st1 by (auto simp: filter_empty_conv)
  next
    case False
    have "drain step ctx (concat (map fst fqs)) = Some (ctx', [], map (Some \<circ> snd) fqs, None)"
      using drain_frames [of fqs ctx "[]", OF fqs wait] by simp
    then show ?thesis
      using tcp_reading_concat [OF ok1 False, of ctx' "[]" "map (Some \<circ> snd) fqs" None] st1 ds by auto
  qed
  then obtain c2 where "tcp_reading rb c1 (map (\<lambda>d. (d, None)) ds) = Some c2" "tcp_inv inv c2" "\<not> tc_closeOnce c2"
      "content (tc_readBuf c2) = []" "tc_packetCh c2 = queued (tc_packetCh c1) (map (Some \<circ> snd) fqs)" by blast
  moreover from this have "\<not> tcp_closed c2" using tcp_closed_iff by blast
  moreover obtain ch' where "queued (tc_packetCh c1) (map (Some \<circ> snd) fqs) = Some ch'"
      "ch_buf ch' = take (nat (do_ReadQueueSize o')) (map (Some \<circ> snd) fqs)"
    using fin by blast
  ultimately show ?thesis
    using c0(1) c1 by (intro exI [of _ c0] exI [of _ c1] exI [of _ c2] exI [of _ ch'] conjI) simp_all
qed

lemma dial_flushes:
  assumes "wf_dial o'" "mgr (hs_Version hs) = Some prot"
  shows "\<exists>c0 :: ('h, 'i, 'b, 'cb, 'g) tcpConn. dialTCPConn rb mgr None hs o' = Some (Inr c0) \<and>
    (\<forall>xs c n. tcp_run rb c0 xs c \<and> \<not> tcp_closed c \<and> length (Handshake_Pack hs @ xs) \<le> n \<longrightarrow>
      (\<exists>c'. tcp_writing rb c (replicate (length (ch_buf (tc_writeCh c))) (FromQueue, n, None) @ [(Tick, n, None)]) = Some c' \<and>
         \<not> tcp_closed c' \<and> tc_sent c' = Handshake_Pack hs @ xs))"
proof -
  obtain c0 :: "('h, 'i, 'b, 'cb, 'g) tcpConn" where c0: "dialTCPConn rb mgr None hs o' = Some (Inr c0)" "tcp_ok inv prot c0" "\<not> tc_closeOnce c0"
    "tc_sent c0 = []" "tcp_out content c0 = Handshake_Pack hs"
    using dialled [of o' mgr hs, OF assms] by metis
  let ?w = "\<lparr>w_accepted = Handshake_Pack hs, w_sent = [], w_ended = False\<rparr>"
  have w: "tcp_wire content c0 ?w" "prefix (w_sent ?w) (w_accepted ?w)" using c0 by (simp_all add: tcp_wire_def)
  have "\<exists>c'. tcp_writing rb c (replicate (length (ch_buf (tc_writeCh c))) (FromQueue, n, None) @ [(Tick, n, None)]) = Some c' \<and>
       \<not> tcp_closed c' \<and> tc_sent c' = Handshake_Pack hs @ xs"
    if run: "tcp_run rb c0 xs c" and op: "\<not> tcp_closed c" and n: "length (Handshake_Pack hs @ xs) \<le> n" for xs c n
  proof -
    obtain w' where w': "tcp_ok inv prot c" "wire_run ?w xs w'" "tcp_wire content c w'"
      using tcp_run_refines [OF run c0(2) w] by blast
    have cl: "\<not> tc_closeOnce c" using op tcp_okD(4) [OF w'(1)] by simp
    then have out: "tcp_out content c = Handshake_Pack hs @ xs"
      using wire_run_accepted [OF w'(2) w(2)] w'(3) by (simp add: tcp_wire_def)
    from tcp_writing_flush [OF w'(1) cl, of n] n out show ?thesis by simp
  qed
  with c0(1) show ?thesis by blast
qed

end

subsection \<open>Properties\<close>

text \<open>
  C3. A TCP connection refines a reliable byte stream.  Dialling succeeds when the network connects, and on every interleaving of writers,
  closers and the three goroutines that follows, with whatever partial writes, read and write errors, the connection does
  what \<open>wire_run\<close> allows: the bytes accepted are the handshake followed by the accepted frames in order, the bytes handed to the network
  are always a prefix of them, and nothing is accepted or sent after the connection has been closed.
\<close>

theorem tcp_refines_wire:
  assumes "ring_buffer_flat rb content ok flat" "wf_dial o'"
    and "mgr (hs_Version hs) = Some (v1_protocol rb gz level zr pooled)"
  shows "\<exists>c0 :: (Header, 'i, 'b, 'cb, 'g) tcpConn. dialTCPConn rb mgr None hs o' = Some (Inr c0) \<and>
    (\<forall>xs c. tcp_run rb c0 xs c \<longrightarrow>
      (\<exists>w. wire_run \<lparr>w_accepted = Handshake_Pack hs, w_sent = [], w_ended = False\<rparr> xs w \<and> tcp_wire content c w) \<and>
      prefix (tc_sent c) (Handshake_Pack hs @ xs))"
  by (rule tcp_reader.dial_refines [OF v1_tcp_reader [OF assms(1)], of o' mgr hs, OF assms(2,3)])

text \<open>A dial for the examples: the default options, the handshake of version 1 with protobuf on the OpenAPI platform.\<close>

definition example_handshake :: Handshake where
  "example_handshake = \<lparr>hs_Version = 1, hs_Codec = 1, hs_Platform = 9, hs_Reserve = 0\<rparr>"

definition example_manager :: "(Header, unit, circ) Protocol manager" where
  "example_manager = [1 \<mapsto> v1_protocol circ_ops stored_gz 6 None Header_zero]"

definition example_options :: "unit DialOptions" where
  "example_options = newDialOptions []"

abbreviation example_dial :: "(error + (Header, unit, circ, unit, unit) tcpConn) go" where
  "example_dial \<equiv> dialTCPConn circ_ops example_manager None example_handshake example_options"

lemma example_facts:
  "wf_dial example_options" "example_manager (hs_Version example_handshake) = Some (v1_protocol circ_ops stored_gz 6 None Header_zero)"
  "Handshake_Pack example_handshake = [17, 9]"
  by (simp_all add: example_options_def newDialOptions_def wf_dial_def default_defs example_manager_def example_handshake_def
      Handshake_Pack_def VersionMask_def CodecMask_def PlatformMask_def ReserveMask_def)

lemma example_dial_open: "example_dial = Some (Inr c) \<Longrightarrow> \<not> tcp_closed c"
  using circ.dialled [of example_options example_manager example_handshake, OF example_facts(1,2)] tcp_okD(4) by (metis option.inject sum.inject(2))

theorem tcp_refines_wire_witness:
  "\<exists>c0. example_dial = Some (Inr c0) \<and> (\<exists>w. wire_run \<lparr>w_accepted = [17, 9], w_sent = [], w_ended = False\<rparr> [] w \<and> tcp_wire circ_content c0 w)"
  using tcp_refines_wire [OF circ.ring_buffer_flat_axioms example_facts(1), of example_manager example_handshake, OF example_facts(2)]
    tcp_run.Start unfolding example_facts(3) by blast

text \<open>
  C21. Every interleaving of callers and goroutines, in which a \<open>Close\<close> may come between any check of \<open>closed\<close> and what follows it, leaves a dialled TCP
  connection in a state where an iteration of the reading or writing goroutine, the \<open>select\<close> of the latter, \<open>Close\<close>, \<open>OnPacket\<close> and \<open>Write\<close> of a packet with metadata return,
  and where exactly two operations panic: the queue operation of \<open>write\<close>, if and only if the connection has been closed since its check, and \<open>addPacket\<close>, if and
  only if the delivery goroutine has closed the packet queue, which it does only on a closed connection; until then the read loop past its check and the delivery
  goroutine do not panic either.  While the connection is open no callback has been called, and \<open>Close\<close> calls each registered callback once, in order, with its error.
  Once it is closed there was exactly one step that closed it: the callbacks called are those registered at that step, each once, with one error;
  \<open>Write\<close> reports \<open>errConnClosed\<close>, closing again does nothing, and no later step calls, accepts or sends anything.
\<close>

theorem tcp_conn_safe:
  assumes "ring_buffer_flat rb content ok flat" "wf_dial o'"
    and "mgr (hs_Version hs) = Some (v1_protocol rb gz level zr pooled)"
  shows "\<exists>c0 :: (Header, 'i, 'b, 'cb, 'g) tcpConn. dialTCPConn rb mgr None hs o' = Some (Inr c0) \<and>
    (\<forall>xs c. tcp_run rb c0 xs c \<longrightarrow>
      tcp_reading_step rb c r \<noteq> None \<and> tcp_writing_step rb c ev w \<noteq> None \<and> tcp_Close c err \<noteq> None \<and> tcp_OnPacket c \<noteq> None \<and>
      (pk_Metadata p \<noteq> None \<longrightarrow> tcp_Write c p opts \<noteq> None) \<and>
      ((tc_netClosed c \<longrightarrow> fst w = 0 \<and> snd w \<noteq> None) \<longrightarrow> tcp_writing_select rb c ev w \<noteq> None) \<and>
      (tcp_enqueue c d = None \<longleftrightarrow> tcp_closed c) \<and>
      (tcp_addPacket c q = None \<longleftrightarrow> chan_shut (tc_packetCh c)) \<and> (chan_shut (tc_packetCh c) \<longrightarrow> tcp_closed c) \<and>
      (\<not> chan_shut (tc_packetCh c) \<longrightarrow> tcp_read rb c r \<noteq> None \<and> (tc_packetCh c \<noteq> None \<longrightarrow> tcp_deliver c \<noteq> None \<and> tcp_receive c \<noteq> None)) \<and>
      (if tcp_closed c then tcp_Write c p opts = Some (c, p, Some ErrConnClosed) \<and> tcp_Close c err = Some c \<and>
          (\<exists>ys zs c1 c2 e. tcp_run rb c0 ys c1 \<and> \<not> tcp_closed c1 \<and> tc_calls c1 = [] \<and> tcp_step rb c1 zs c2 \<and> tcp_closed c2 \<and>
             tc_calls c2 = DispatchClose (tc_callbacks c1) e \<and> tcp_run rb c2 [] c \<and> tc_calls c = tc_calls c2) \<and>
          (\<forall>ys c'. tcp_run rb c ys c' \<longrightarrow> tcp_closed c' \<and> tc_calls c' = tc_calls c \<and> tc_sent c' = tc_sent c \<and> ys = [])
       else tc_calls c = [] \<and>
          (\<exists>c'. tcp_Close c err = Some c' \<and> tcp_closed c' \<and> tc_calls c' = DispatchClose (tc_callbacks c) err \<and> tc_sent c' = tc_sent c)))"
proof -
  have "prot_Pack (v1_protocol rb gz level zr pooled) (ctx :: (Header, 'i) Context) p opts \<noteq> None" if "pk_Metadata p \<noteq> None" for ctx p opts
    using that protocolV1_Pack_total by (auto simp: v1_protocol_def)
  from tcp_reader.dial_safe [OF v1_tcp_reader [OF assms(1)], of o' mgr hs, OF assms(2,3) this] show ?thesis .
qed

theorem tcp_conn_safe_witness:
  "\<exists>c0 c2. example_dial = Some (Inr c0) \<and> tcp_Close (tcp_OnClose (tcp_OnClose c0 ()) ()) (Some ErrConnClosed) = Some c2 \<and>
     tc_calls c0 = [] \<and> tc_calls c2 = [((), Some ErrConnClosed), ((), Some ErrConnClosed)] \<and> tcp_enqueue c0 [1] \<noteq> None \<and> tcp_enqueue c2 [1] = None \<and>
     tcp_addPacket c2 (Some v1_example) \<noteq> None \<and> tcp_Close c2 (Some ErrConnClosed) = Some c2"
proof -
  let ?e = "Some ErrConnClosed"
  have "\<exists>c0. example_dial = Some (Inr c0) \<and> (\<forall>xs c. tcp_run circ_ops c0 xs c \<longrightarrow> (tcp_enqueue c [1] = None \<longleftrightarrow> tcp_closed c) \<and>
      (tcp_addPacket c (Some v1_example) = None \<longleftrightarrow> chan_shut (tc_packetCh c)) \<and>
      (if tcp_closed c then tcp_Close c ?e = Some c
       else tc_calls c = [] \<and> (\<exists>c'. tcp_Close c ?e = Some c' \<and> tcp_closed c' \<and> tc_calls c' = DispatchClose (tc_callbacks c) ?e)))"
    using tcp_conn_safe [OF circ.ring_buffer_flat_axioms example_facts(1), of example_manager example_handshake, OF example_facts(2),
      where d = "[1]" and q = "Some v1_example" and err = ?e and 'cb = unit and r = "([], None)" and ev = Tick and w = "(0, None)" and p = v1_example and opts = "[]"]
    by (elim ex_forward) (erule conj_forward, assumption, elim all_forward, erule imp_forward, assumption, auto split: if_splits)
  then obtain c0 where dial: "example_dial = Some (Inr c0)"
    and safe: "\<And>xs c. tcp_run circ_ops c0 xs c \<Longrightarrow> (tcp_enqueue c [1] = None \<longleftrightarrow> tcp_closed c) \<and>
      (tcp_addPacket c (Some v1_example) = None \<longleftrightarrow> chan_shut (tc_packetCh c)) \<and>
      (if tcp_closed c then tcp_Close c ?e = Some c
       else tc_calls c = [] \<and> (\<exists>c'. tcp_Close c ?e = Some c' \<and> tcp_closed c' \<and> tc_calls c' = DispatchClose (tc_callbacks c) ?e))"
    by blast
  have c0: "tc_packetCh c0 = None" "tc_callbacks c0 = newCloseCallback"
    using circ.dialTCPConn_result [OF dial] example_facts(1) by (auto simp: wf_dial_def)
  let ?c1 = "tcp_OnClose (tcp_OnClose c0 ()) ()"
  have run0: "tcp_run circ_ops c0 [] c0" by (rule tcp_run.Start)
  have run1: "tcp_run circ_ops c0 [] ?c1"
    using tcp_run.Step [OF tcp_run.Step [OF run0 tcp_step.OnCloseS] tcp_step.OnCloseS, of "()" "()"] by simp
  have op: "\<not> tcp_closed c0" "\<not> tcp_closed ?c1"
    using example_dial_open [OF dial] by (simp_all add: tcp_OnClose_def tcp_closed_def)
  obtain c2 where c2: "tcp_Close ?c1 ?e = Some c2" "tcp_closed c2" "tc_calls c2 = DispatchClose (tc_callbacks ?c1) ?e"
    using safe [OF run1] op(2) by auto
  have run2: "tcp_run circ_ops c0 [] c2" using tcp_run.Step [OF run1 tcp_step.CloseS [OF c2(1)]] by simp
  have "tc_packetCh c2 = None"
    using c2(1) c0(1) by (auto simp: tcp_Close_def tcp_OnClose_def bind_eq_Some_conv split: if_splits)
  moreover have "tc_calls c2 = [((), ?e), ((), ?e)]"
    using c2(3) c0(2) by (simp add: DispatchClose_def tcp_OnClose_def closeCallback_OnClose_def newCloseCallback_def)
  ultimately show ?thesis using dial c2 safe [OF run0] safe [OF run2] op(1) by (auto simp: chan_shut_def)
qed

text \<open>
  C22. Everything accepted is sent if the network takes it: from any open state that a dialled connection reaches, once the writing goroutine has taken
  every entry of the queue and ticked once, with writes that the network takes completely, the bytes handed to the network are exactly the
  handshake followed by all accepted frames.
\<close>

theorem tcp_flushes:
  assumes "ring_buffer_flat rb content ok flat" "wf_dial o'"
    and "mgr (hs_Version hs) = Some (v1_protocol rb gz level zr pooled)"
  shows "\<exists>c0 :: (Header, 'i, 'b, 'cb, 'g) tcpConn. dialTCPConn rb mgr None hs o' = Some (Inr c0) \<and>
    (\<forall>xs c n. tcp_run rb c0 xs c \<and> \<not> tcp_closed c \<and> length (Handshake_Pack hs @ xs) \<le> n \<longrightarrow>
      (\<exists>c'. tcp_writing rb c (replicate (length (ch_buf (tc_writeCh c))) (FromQueue, n, None) @ [(Tick, n, None)]) = Some c' \<and>
         \<not> tcp_closed c' \<and> tc_sent c' = Handshake_Pack hs @ xs))"
  by (rule tcp_reader.dial_flushes [OF v1_tcp_reader [OF assms(1)], of o' mgr hs, OF assms(2,3)])

theorem tcp_flushes_witness:
  "\<exists>c0 c'. example_dial = Some (Inr c0) \<and>
     tcp_writing circ_ops c0 (replicate (length (ch_buf (tc_writeCh c0))) (FromQueue, 2, None) @ [(Tick, 2, None)]) = Some c' \<and>
     tc_sent c' = [17, 9]"
proof -
  obtain c0 where c0: "example_dial = Some (Inr c0)" "\<And>xs c n. tcp_run circ_ops c0 xs c \<and> \<not> tcp_closed c \<and> length ([17, 9] @ xs) \<le> n \<Longrightarrow>
      (\<exists>c'. tcp_writing circ_ops c (replicate (length (ch_buf (tc_writeCh c))) (FromQueue, n, None) @ [(Tick, n, None)]) = Some c' \<and>
         \<not> tcp_closed c' \<and> tc_sent c' = [17, 9] @ xs)"
    using tcp_flushes [OF circ.ring_buffer_flat_axioms example_facts(1), of example_manager example_handshake, OF example_facts(2)]
    unfolding example_facts(3) by metis
  have "tcp_run circ_ops c0 [] c0 \<and> \<not> tcp_closed c0 \<and> length ([17, 9 :: byte] @ []) \<le> 2"
    using tcp_run.Start example_dial_open [OF c0(1)] by simp
  from c0(2) [OF this] c0(1) show ?thesis by auto
qed

text \<open>
  C20. Packets arrive whole and in order, however TCP splits the stream.  If the bytes that arrive on a dialled connection are, in chunks of
  any sizes, the frames that \<open>Pack\<close> of version 1 made for a list of packets, the read loop puts exactly these packets, as received, into the
  packet queue in that order, up to its capacity, leaves no bytes behind and does not close the connection.
\<close>

theorem tcp_v1_delivery:
  assumes "ring_buffer_flat rb content ok flat" "gzip_codec gz" "- 1 \<le> level" "level \<le> 9" "wf_dial o'"
    and "mgr (hs_Version hs) = Some (v1_protocol rb gz level zr pooled)"
    and "list_all (v1_packed gz level pooled') sent" "concat ds = concat (map (snd \<circ> snd) sent)"
    and "ctx = (NewContext ClientSide :: (Header, 'i) Context)\<lparr>ctx_Codec := hs_Codec hs, ctx_Platform := hs_Platform hs, ctx_Version := hs_Version hs\<rparr>"
  shows "\<exists>(c0 :: (Header, 'i, 'b, 'cb, 'g) tcpConn) c1 c2 ch. dialTCPConn rb mgr None hs o' = Some (Inr c0) \<and> tcp_OnPacket c0 = Some c1 \<and>
    tcp_reading rb c1 (map (\<lambda>d. (d, None)) ds) = Some c2 \<and> \<not> tcp_closed c2 \<and> content (tc_readBuf c2) = [] \<and>
    tc_packetCh c2 = Some ch \<and> ch_buf ch = take (nat (do_ReadQueueSize o')) (map (\<lambda>s. Some (v1_delivered ctx s)) sent)"
proof -
  define fqs where "fqs = map (\<lambda>s. (snd (snd s), v1_delivered ctx s)) sent"
  have ctx: "ctx_Header ctx = None" "\<not> ctx_beginUnpack ctx" by (simp_all add: assms(9) NewContext_def)
  have packed: "\<exists>p opts. v1_packed gz level pooled' (p, opts, f) \<and> q = v1_delivered ctx (p, opts, f)" if "(f, q) \<in> set fqs" for f q
    using that assms(7) by (fastforce simp: fqs_def list_all_iff)
  have st: "v1_step gz zr ctx (f @ rest) = (ctx, rest, Some q, True, None)" "f \<noteq> []" if "(f, q) \<in> set fqs" for f q rest
    using packed [OF that] v1_packed_step [OF assms(2-4) _ ctx] by blast+
  obtain ctx' where w: "drain (v1_step gz zr) ctx [] = Some (ctx', [], [], None)" using v1_step_empty [OF ctx(1)] by blast
  have ds: "concat ds = concat (map fst fqs)" using assms(8) by (simp add: fqs_def comp_def)
  have m: "map (Some \<circ> snd) fqs = map (\<lambda>s. Some (v1_delivered ctx s)) sent" by (simp add: fqs_def)
  show ?thesis
    using tcp_reader.dial_delivers [OF v1_tcp_reader [OF assms(1)], of o' mgr hs, OF assms(5,6,9) st w ds] unfolding m .
qed

lemma v1_example_sent: "v1_packed stored_gz 6 Header_zero (v1_example, [], v1_example_frame)"
  using v1_example_facts by (simp add: v1_packed_def v1_example_packed split: option.splits) (simp add: v1_example_def Metadata_zero_def)

theorem tcp_v1_delivery_witness:
  "\<exists>c0 c1 c2 ch. example_dial = Some (Inr c0) \<and> tcp_OnPacket c0 = Some c1 \<and>
    tcp_reading circ_ops c1 [(take 5 v1_example_frame, None), (drop 5 v1_example_frame @ take 20 v1_example_frame, None),
      (drop 20 v1_example_frame, None)] = Some c2 \<and>
    tc_packetCh c2 = Some ch \<and> map (map_option pk_Body) (ch_buf ch) = [Some [4, 5, 6], Some [4, 5, 6]]"
proof -
  let ?s = "(v1_example, [] :: PackOption list, v1_example_frame)"
  let ?ds = "[take 5 v1_example_frame, drop 5 v1_example_frame @ take 20 v1_example_frame, drop 20 v1_example_frame]"
  have "list_all (v1_packed stored_gz 6 Header_zero) [?s, ?s]" using v1_example_sent by simp
  moreover have "concat ?ds = concat (map (snd \<circ> snd) [?s, ?s])" by simp
  ultimately show ?thesis
    using tcp_v1_delivery [OF circ.ring_buffer_flat_axioms stored.gzip_codec_axioms _ _ example_facts(1),
        of 6 example_manager example_handshake None Header_zero Header_zero "[?s, ?s]" ?ds, OF _ _ example_facts(2) _ _ refl]
    by (fastforce simp: v1_delivered_def v1_example_def example_options_def newDialOptions_def default_defs)
qed

text \<open>
  C24. How TCP splits the stream does not matter to version 2 either, whatever the bytes are: two ways of cutting the same bytes into chunks
  leave an open connection with the same queued packets, the same protocol state and the same unread bytes, or closed in both cases.
\<close>

theorem tcp_v2_chunking:
  assumes "ring_buffer_flat rb content ok flat" "tcp_ok ok (v2_protocol rb uni rangeord gz level zr pooled) c" "\<not> tcp_closed c"
    and "concat ds = concat ds'"
  shows "\<exists>c1 c2. tcp_reading rb c (map (\<lambda>d. (d, None)) ds) = Some c1 \<and> tcp_reading rb c (map (\<lambda>d. (d, None)) ds') = Some c2 \<and>
    tc_packetCh c1 = tc_packetCh c2 \<and> tc_qctx c1 = tc_qctx c2 \<and> (tc_closeOnce c1 \<longleftrightarrow> tc_closeOnce c2) \<and>
    (\<not> tc_closeOnce c1 \<longrightarrow> content (tc_readBuf c1) = content (tc_readBuf c2))"
proof -
  note ok = tcp_okD [OF assms(2)]
  have "\<not> tc_closeOnce c" using ok(4) assms(3) by simp
  from tcp_reader.tcp_chunking [OF v2_tcp_reader [OF assms(1)] ok(2,1) this ok(3) [OF this] assms(4)] show ?thesis .
qed

theorem tcp_v2_chunking_witness:
  "\<exists>c c1 c2. dialTCPConn circ_ops [2 \<mapsto> v2_protocol circ_ops id (\<lambda>_. []) stored_gz 6 None v2_Header_zero] None
       (example_handshake\<lparr>hs_Version := 2\<rparr>) example_options = Some (Inr (c :: (v2_Header, unit, circ, unit, unit) tcpConn)) \<and>
     tcp_reading circ_ops c [([1, 2, 0], None), ([0, 7], None)] = Some c1 \<and>
     tcp_reading circ_ops c [([1], None), ([2, 0, 0, 7], None)] = Some c2 \<and> tc_qctx c1 = tc_qctx c2"
proof -
  let ?p = "v2_protocol circ_ops id (\<lambda>_. []) stored_gz 6 None v2_Header_zero"
  have m: "[2 \<mapsto> ?p] (hs_Version (example_handshake\<lparr>hs_Version := 2\<rparr>)) = Some ?p" by simp
  obtain c :: "(v2_Header, unit, circ, unit, unit) tcpConn" where
    c: "dialTCPConn circ_ops [2 \<mapsto> ?p] None (example_handshake\<lparr>hs_Version := 2\<rparr>) example_options = Some (Inr c)"
      "tcp_ok circ_inv ?p c" "\<not> tc_closeOnce c"
    using circ.dialled [of example_options "[2 \<mapsto> ?p]" "example_handshake\<lparr>hs_Version := 2\<rparr>", OF example_facts(1) m] by metis
  have "\<not> tcp_closed c" "concat [[1, 2, 0], [0, 7 :: byte]] = concat [[1], [2, 0, 0, 7]]" using c tcp_okD(4) [OF c(2)] by simp_all
  from tcp_v2_chunking [OF circ.ring_buffer_flat_axioms c(2) this] c(1) show ?thesis by auto
qed

end
