(* ===== verification/Tcp_Delivery.thy ===== *)
theory Tcp_Delivery
  imports Tcp_Run
begin

text \<open>
  What closing a TCP connection means for the goroutine that \<open>OnPacket\<close> starts (\<open>go/client/tcp_conn.go\<close>): the behaviour of the rest of the
  connection while this goroutine waits for a packet.

  Whether it is woken depends on where the reading goroutine is, so that one has a program counter here.
\<close>

text \<open>The places of \<open>reading\<close>: before the check of \<open>closed\<close>, in \<open>conn.Read\<close>, with the bytes of a read, after the loop.\<close>

datatype reading_at = AtCheck | InRead | Unpacking bytes | Ended

text \<open>
  A step of everything but the goroutine of \<open>OnPacket\<close>: callers of \<open>Write\<close>, also past their checks, \<open>Close\<close>, \<open>OnPacket\<close> and \<open>OnClose\<close>, the writing
  goroutine, also past its check, and the reading goroutine.  After the network connection was closed \<open>conn.Read\<close> returns an error, and so does \<open>conn.Write\<close>.
\<close>

inductive tcp_other ::
    "'b rb_ops \<Rightarrow> ('h, 'i, 'b, 'cb, 'g) tcpConn \<Rightarrow> reading_at \<Rightarrow> ('h, 'i, 'b, 'cb, 'g) tcpConn \<Rightarrow> reading_at \<Rightarrow> bool" for rb where
  WriteO: "tcp_Write c p popts = Some (c', p', err) \<Longrightarrow> tcp_other rb c pc c' pc"
| EnqueueO: "tcp_enqueue c data = Some (c', err) \<Longrightarrow> tcp_other rb c pc c' pc"
| WritingO: "tcp_writing_step rb c ev w = Some (c', goes) \<Longrightarrow> tcp_other rb c pc c' pc"
| SelectO: "tc_netClosed c \<longrightarrow> fst w = 0 \<and> snd w \<noteq> None \<Longrightarrow> tcp_writing_select rb c ev w = Some (c', goes) \<Longrightarrow> tcp_other rb c pc c' pc"
| CloseO: "tcp_Close c err = Some c' \<Longrightarrow> tcp_other rb c pc c' pc"
| OnPacketO: "tcp_OnPacket c = Some c' \<Longrightarrow> tcp_other rb c pc c' pc"
| OnCloseO: "tcp_other rb c pc (tcp_OnClose c cb) pc"
| CheckO: "tcp_other rb c AtCheck c (if tcp_closed c then Ended else InRead)"
| FailedO: "tcp_Close c (Some err) = Some c' \<Longrightarrow> tcp_other rb c InRead c' Ended"
| EmptyO: "\<not> tc_netClosed c \<Longrightarrow> tcp_other rb c InRead c AtCheck"
| DataO: "\<not> tc_netClosed c \<Longrightarrow> data \<noteq> [] \<Longrightarrow> tcp_other rb c InRead c (Unpacking data)"
| UnpackO: "tcp_unpack rb c data = Some (c', goes) \<Longrightarrow> tcp_other rb c (Unpacking data) c' (if goes then AtCheck else Ended)"

inductive tcp_others ::
    "'b rb_ops \<Rightarrow> ('h, 'i, 'b, 'cb, 'g) tcpConn \<Rightarrow> reading_at \<Rightarrow> ('h, 'i, 'b, 'cb, 'g) tcpConn \<Rightarrow> reading_at \<Rightarrow> bool" for rb c pc where
  NoneO: "tcp_others rb c pc c pc"
| StepO: "tcp_others rb c pc c1 pc1 \<Longrightarrow> tcp_other rb c1 pc1 c2 pc2 \<Longrightarrow> tcp_others rb c pc c2 pc2"

text \<open>These are the parts of the iterations of \<open>reading\<close>.\<close>

lemma tcp_reading_step_parts:
  assumes "tcp_reading_step rb c r = Some (c', goes)" "\<not> tc_netClosed c"
  shows "tcp_others rb c AtCheck c' (if goes then AtCheck else Ended)"
proof (cases "tcp_closed c")
  case True
  then show ?thesis
    using assms(1) tcp_others.StepO [OF NoneO CheckO, of rb c] by (simp add: tcp_reading_step_def)
next
  case False
  then have chk: "tcp_others rb c AtCheck c InRead" using tcp_others.StepO [OF NoneO CheckO, of rb c] by simp
  obtain d e where r: "r = (d, e)" by fastforce
  have rd: "tcp_read rb c r = Some (c', goes)" using assms(1) False by (simp add: tcp_reading_step_def)
  show ?thesis
  proof (cases e)
    case (Some x)
    then have "tcp_Close c (Some x) = Some c'" "\<not> goes" using rd r by (auto simp: tcp_read_def bind_eq_Some_conv)
    then show ?thesis using StepO [OF chk FailedO] by simp
  next
    case None
    show ?thesis
    proof (cases "d = []")
      case True
      then show ?thesis using None rd r StepO [OF chk EmptyO [OF assms(2)]] by (simp add: tcp_read_def)
    next
      case False
      then show ?thesis
        using None rd r StepO [OF StepO [OF chk DataO [OF assms(2) False]] UnpackO] by (simp add: tcp_read_def)
    qed
  qed
qed

subsection \<open>After closing\<close>

text \<open>What is left of the state once the connection is closed and the reading goroutine is not at the bytes of a read.\<close>

definition tcp_quiet :: "Packet option chan option \<Rightarrow> ('h, 'i, 'b, 'cb, 'g) tcpConn \<Rightarrow> reading_at \<Rightarrow> bool" where
  "tcp_quiet ch c pc \<longleftrightarrow> tcp_closed c \<and> tc_netClosed c \<and> tc_onPacketOnce c \<and> tc_packetCh c = ch \<and> (\<forall>d. pc \<noteq> Unpacking d)"

lemma tcp_quiet_upd [simp]:
  "tcp_quiet ch (c\<lparr>tc_wbuf := b\<rparr>) pc = tcp_quiet ch c pc" "tcp_quiet ch (c\<lparr>tc_writeCh := wch\<rparr>) pc = tcp_quiet ch c pc"
  "tcp_quiet ch (c\<lparr>tc_sent := x\<rparr>) pc = tcp_quiet ch c pc" "tcp_quiet ch (c\<lparr>tc_callbacks := cb\<rparr>) pc = tcp_quiet ch c pc"
  by (simp_all add: tcp_quiet_def tcp_closed_def)

lemma tcp_quiet_Close: "tcp_quiet ch c pc \<Longrightarrow> tcp_Close c err = Some c"
  by (simp add: tcp_quiet_def tcp_Close_def)

lemma tcp_quiet_netWrite:
  assumes "tcp_quiet ch c pc" "tcp_netWrite rb c b w = Some (c', goes)"
  shows "tcp_quiet ch c' pc"
proof -
  obtain n e where w: "w = (n, e)" by fastforce
  let ?c = "c\<lparr>tc_sent := tc_sent c @ take n b\<rparr>"
  have "tcp_quiet ch ?c pc" using assms(1) by simp
  then show ?thesis
    using assms(2) tcp_quiet_Close [of ch ?c pc] w
    by (cases e; cases "n < length b") (auto simp: tcp_netWrite_def Let_def bind_eq_Some_conv case_prod_unfold)
qed

lemma tcp_quiet_select:
  assumes q: "tcp_quiet ch c pc" and s: "tcp_writing_select rb c ev w = Some (c', goes)"
  shows "tcp_quiet ch c' pc"
proof (cases ev)
  case Tick
  have q1: "tcp_quiet ch (c\<lparr>tc_wbuf := rb_Reset rb (tc_wbuf c)\<rparr>) pc" using q by simp
  show ?thesis
    using s q Tick tcp_quiet_netWrite [OF q1]
    by (cases "rb_IsEmpty rb (tc_wbuf c)") (simp_all add: tcp_writing_select_def Let_def case_prod_unfold)
next
  case FromQueue
  show ?thesis
  proof (cases "try_recv (tc_writeCh c)")
    case (Got b wch)
    have q1: "tcp_quiet ch (c\<lparr>tc_writeCh := wch\<rparr>) pc" "tcp_quiet ch (c\<lparr>tc_writeCh := wch, tc_wbuf := rb_Reset rb (tc_wbuf c)\<rparr>) pc"
      using q by simp_all
    show ?thesis
      using s Got FromQueue tcp_quiet_netWrite [OF q1(1)] tcp_quiet_netWrite [OF q1(2)]
      by (cases "rb_Length rb (tc_wbuf c) = 0") (simp_all add: tcp_writing_select_def Let_def case_prod_unfold)
  qed (use s q FromQueue in \<open>auto simp: tcp_writing_select_def\<close>)
qed

lemma tcp_other_quiet:
  assumes "tcp_other rb c pc c' pc'" "tcp_quiet ch c pc"
  shows "tcp_quiet ch c' pc'"
  using assms
proof (cases rule: tcp_other.cases)
  case (WriteO p popts p' err)
  then show ?thesis using assms(2) by (auto simp: tcp_quiet_def tcp_Write_def)
next
  case (EnqueueO data err)
  then show ?thesis using assms(2) by (auto simp: tcp_enqueue_def bind_eq_Some_conv)
next
  case (WritingO ev w goes)
  then show ?thesis using assms(2) by (auto simp: tcp_quiet_def tcp_writing_step_def)
next
  case (SelectO w ev goes)
  then show ?thesis using assms(2) tcp_quiet_select by blast
next
  case (CloseO err)
  then show ?thesis using assms(2) tcp_quiet_Close by fastforce
next
  case OnPacketO
  then show ?thesis using assms(2) by (auto simp: tcp_quiet_def tcp_OnPacket_def)
next
  case (OnCloseO cb)
  then show ?thesis using assms(2) by (simp add: tcp_OnClose_def)
next
  case (FailedO err)
  then have "c' = c" using tcp_quiet_Close [OF assms(2)] by simp
  then show ?thesis using assms(2) FailedO by (simp add: tcp_quiet_def)
qed (use assms(2) in \<open>auto simp: tcp_quiet_def\<close>)

lemma tcp_others_quiet:
  assumes "tcp_others rb c pc c' pc'" "tcp_quiet ch c pc"
  shows "tcp_quiet ch c' pc'"
  using assms by (induction rule: tcp_others.induct) (auto intro: tcp_other_quiet)

text \<open>
  C23. What closing a TCP connection means for the goroutine of \<open>OnPacket\<close>.  Suppose the connection is closed while this goroutine waits for a packet, with an empty queue of positive capacity.
  If the reading goroutine is not just then turning the bytes of a read into packets, the waiting goroutine is never woken, whatever the callers and the other goroutines do
  from then on, including those that passed a check of \<open>closed\<close> before: it never reports \<open>errConnClosed\<close>.  If the reading goroutine is at that point, the packets that the bytes complete are
  still queued and wake it; without one, it goes on waiting.  If the goroutine comes to its check of \<open>closed\<close> it delivers what is queued, reports the error
  last and closes the queue; a reading goroutine that is then still at the bytes of a read panics exactly if they complete a packet.
\<close>

theorem tcp_close_delivery:
  assumes "ring_buffer_flat rb content ok flat" "tcp_ok ok (v1_protocol rb gz level zr pooled) c"
    and "tcp_closed c" "tc_packetCh c = Some ch" "\<not> ch_closed ch" "0 < ch_cap ch"
    and "drain (v1_step gz zr) (tc_qctx c) (content (tc_readBuf c) @ d) = Some (ctx', rest, ps, e)"
  shows "(ch_buf ch = [] \<and> (\<forall>b. pc \<noteq> Unpacking b) \<longrightarrow> (\<forall>c' pc'. tcp_others rb c pc c' pc' \<longrightarrow> tcp_receive c' = Some (c', [], Waiting))) \<and>
    (\<exists>c'. tcp_unpack rb c d = Some (c', e = None) \<and>
       tcp_receive c' = (case take (ch_cap ch) (ch_buf ch @ ps) of
           [] \<Rightarrow> Some (c', [], Waiting)
         | q # qs \<Rightarrow> Some (c'\<lparr>tc_packetCh := Some (ch\<lparr>ch_buf := qs\<rparr>)\<rparr>, [(q, None)], Again))) \<and>
    (\<exists>c'. tcp_deliver c = Some (c', map (\<lambda>p. (p, None)) (ch_buf ch) @ [(None, Some ErrConnClosed)], Returned) \<and>
       (tcp_unpack rb c' d = None \<longleftrightarrow> ps \<noteq> []))"
proof -
  note ok = tcp_okD [OF assms(2)]
  note unpack = tcp_reader.tcp_unpack_feed [OF v1_tcp_reader [OF assms(1), where gz = gz and zr = zr and level = level and pooled = pooled]]
  have "tcp_quiet (Some ch) c pc" if "\<forall>b. pc \<noteq> Unpacking b"
    using that assms(2-4) ok(1,4) by (simp add: tcp_quiet_def tcp_ok_def tcp_inv_def)
  then have "tcp_receive c' = Some (c', [], Waiting)" if "ch_buf ch = []" "\<forall>b. pc \<noteq> Unpacking b" "tcp_others rb c pc c' pc'" for c' pc'
    using tcp_others_quiet [OF that(3), of "Some ch"] that(1,2) assms(5) by (simp add: tcp_quiet_def tcp_receive_def try_recv_def)
  moreover have "\<exists>c'. tcp_unpack rb c d = Some (c', e = None) \<and>
       tcp_receive c' = (case take (ch_cap ch) (ch_buf ch @ ps) of
           [] \<Rightarrow> Some (c', [], Waiting)
         | q # qs \<Rightarrow> Some (c'\<lparr>tc_packetCh := Some (ch\<lparr>ch_buf := qs\<rparr>)\<rparr>, [(q, None)], Again))"
  proof -
    obtain c' where "tcp_unpack rb c d = Some (c', e = None)" "tc_packetCh c' = queued (Some ch) ps"
      using unpack [OF ok(2,1,5) assms(7)] assms(4,5) by (auto simp: chan_shut_def)
    then show ?thesis
      using assms(5)
      by (intro exI [of _ c'], cases "take (ch_cap ch) (ch_buf ch @ ps)")
         (simp_all add: queued_def tcp_receive_def try_recv_def del: take_append take_eq_Nil)
  qed
  moreover have "\<exists>c'. tcp_deliver c = Some (c', map (\<lambda>p. (p, None)) (ch_buf ch) @ [(None, Some ErrConnClosed)], Returned) \<and>
       (tcp_unpack rb c' d = None \<longleftrightarrow> ps \<noteq> [])"
  proof -
    let ?ch = "ch\<lparr>ch_buf := [], ch_closed := True\<rparr>"
    let ?c = "c\<lparr>tc_packetCh := Some ?ch\<rparr>"
    have c: "tc_p ?c = v1_protocol rb gz level zr pooled" "tcp_inv ok ?c" "chan_fits (tc_packetCh ?c)" "chan_shut (tc_packetCh ?c)"
      "drain (v1_step gz zr) (tc_qctx ?c) (content (tc_readBuf ?c) @ d) = Some (ctx', rest, ps, e)"
      using ok(1,2) assms(7) by (simp_all add: tcp_inv_def chan_fits_def chan_ok_def chan_shut_def)
    from unpack [OF c(1-3,5)] c(4) have "tcp_unpack rb ?c d = None \<longleftrightarrow> ps \<noteq> []" by (cases "ps = []") auto
    then show ?thesis using tcp_deliver_closed [OF assms(3,4)] assms(5) by simp
  qed
  ultimately show ?thesis by blast
qed

theorem tcp_close_delivery_witness:
  "\<exists>c0 c1 c2 c3 c4 q c5. example_dial = Some (Inr c0) \<and> tcp_OnPacket c0 = Some c1 \<and> tcp_Close c1 None = Some c2 \<and> tcp_closed c2 \<and>
     tcp_receive c2 = Some (c2, [], Waiting) \<and>
     tcp_unpack circ_ops c2 v1_example_frame = Some (c3, True) \<and> tcp_receive c3 = Some (c4, [(Some q, None)], Again) \<and>
     tcp_deliver c2 = Some (c5, [(None, Some ErrConnClosed)], Returned) \<and> tcp_unpack circ_ops c5 v1_example_frame = None"
proof -
  let ?prot = "v1_protocol circ_ops stored_gz 6 None Header_zero :: (Header, unit, circ) Protocol"
  obtain c0 :: "(Header, unit, circ, unit, unit) tcpConn" where c0: "example_dial = Some (Inr c0)" "tcp_ok circ_inv ?prot c0"
    "\<not> tc_closeOnce c0" "tc_packetCh c0 = None" "tc_dopts c0 = example_options" "circ_content (tc_readBuf c0) = []"
    "tc_qctx c0 = (NewContext ClientSide)\<lparr>ctx_Codec := hs_Codec example_handshake, ctx_Platform := hs_Platform example_handshake, ctx_Version := hs_Version example_handshake\<rparr>"
    using circ.dialled [of example_options example_manager example_handshake, OF example_facts(1,2)] by metis
  obtain c1 ch where c1: "tcp_OnPacket c0 = Some c1" "tc_packetCh c1 = Some ch" "ch_buf ch = []" "\<not> ch_closed ch" "0 < ch_cap ch"
    "tc_qctx c1 = tc_qctx c0" "tc_readBuf c1 = tc_readBuf c0"
    using c0 by (auto simp: tcp_OnPacket_def make_chan_def tcp_ok_def example_options_def newDialOptions_def default_defs)
  have ok1: "tcp_ok circ_inv ?prot c1" "\<not> tc_closeOnce c1" using tcp_OnPacket_result [OF c0(2)] c0(3) c1(1) by auto
  define c2 where "c2 = tcp_shut c1 None"
  have c2': "tcp_Close c1 None = Some c2" "tcp_ok circ_inv ?prot c2"
    using tcp_Close_ok [OF ok1(1), of None] ok1(2) by (auto simp: c2_def)
  then have c2: "tcp_Close c1 None = Some c2" "tcp_ok circ_inv ?prot c2" "tcp_closed c2"
    using tcp_okD(4) [OF c2'(2)] by (simp_all add: c2_def)
  have ctx: "ctx_Header (tc_qctx c2) = None" "\<not> ctx_beginUnpack (tc_qctx c2)" by (simp_all add: c2_def c1(6) c0(7) NewContext_def)
  let ?q = "v1_delivered (tc_qctx c2) (v1_example, [], v1_example_frame)"
  obtain ctx' where "drain (v1_step stored_gz None) (tc_qctx c2) [] = Some (ctx', [], [], None)" using v1_step_empty [OF ctx(1)] by blast
  then have dr: "drain (v1_step stored_gz None) (tc_qctx c2) (circ_content (tc_readBuf c2) @ v1_example_frame) = Some (ctx', [], [Some ?q], None)"
    using drain_done [of "v1_step stored_gz None", OF v1_packed_step(1) [OF stored.gzip_codec_axioms _ _ v1_example_sent ctx, of None "[]"]] c0(6)
    by (simp add: c2_def c1(7))
  note cd = tcp_close_delivery [OF circ.ring_buffer_flat_axioms c2(2,3) _ c1(4,5) dr, of AtCheck]
  have "tcp_receive c2 = Some (c2, [], Waiting)" using cd NoneO [of circ_ops c2 AtCheck] c1(2,3) by (auto simp: c2_def)
  moreover obtain n where "ch_cap ch = Suc n" using c1(5) by (cases "ch_cap ch") auto
  ultimately show ?thesis using cd c0(1) c1(1-3) c2 by (fastforce simp: c2_def)
qed

end
