(* ===== verification/Ws_Conn.thy ===== *)
theory Ws_Conn
  imports Tcp_Run
begin

text \<open>
  The WebSocket connection (\<open>go/client/ws_conn.go\<close>).

  \<open>github.com/gorilla/websocket\<close> is a library: what it returns is an argument, what is handed to it is recorded in \<open>ws_sent\<close> as messages.
  \<open>NextReader\<close> calls the ping, pong and close handlers for the control frames it meets before it returns, so one result of it is a
  list of control frames and an outcome; a handler that fails makes it return that error.
  The protobuf messages of the generated package \<open>control\<close> are the composite literals the client builds (\<open>control_msg\<close>);
  their encoding is a parameter.  The operations are those of the TCP connection, with what follows a check of \<open>closed\<close> as an operation of its own
  where the two can be separated (\<open>ws_enqueue\<close>, \<open>ws_read\<close>, \<open>ws_receive\<close>, \<open>ws_finish\<close>); a message that is taken from the write queue and finds the connection closed
  is dropped, before or in \<open>WriteMessage\<close>.

  Main results: a message that cannot be unpacked is dropped and does not disturb the next one, control frames become packets with
  the ids the peer sent, frames are sent in the order in which they were accepted.
\<close>

subsection \<open>Messages of the control package\<close>

text \<open>Metadata of a request is an association list of strings; a heartbeat id is an optional \<open>int32\<close>.\<close>

datatype control_msg =
    ControlClose int string
  | Heartbeat int "32 word option"
  | AuthRequest string "(bytes \<rightharpoonup> bytes) option"
  | ReconnectRequest string "(bytes \<rightharpoonup> bytes) option"

subsection \<open>Dialling\<close>

record URL =
  url_Scheme :: string
  url_Host :: string
  url_RawQuery :: string

text \<open>\<open>url.Values.Encode\<close> on the three values the code sets: sorted by key; digits need no escaping.\<close>

definition ws_query :: "8 word \<Rightarrow> string" where
  "ws_query ver = ''codec=1&platform=9&version='' @ fmt_d (unat ver)"

datatype ws_type = TextMessage | BinaryMessage | CloseMessage | PingMessage | PongMessage

record ('h, 'i, 'b, 'cb, 'g) wsConn =
  ws_onPacketOnce :: bool
  ws_closeOnce :: bool
  ws_callbacks :: "'cb closeCallback"
  ws_qctx :: "('h, 'i) Context"
  ws_p :: "('h, 'i, 'b) Protocol"
  ws_closeCh :: "unit chan"
  ws_writeCh :: "bytes chan"
  ws_packetCh :: "Packet option chan option"
  ws_dopts :: "'g DialOptions"
  ws_sent :: "(ws_type \<times> bytes) list"
  ws_netClosed :: bool
  ws_calls :: "('cb \<times> error option) list"

definition dialWSConn ::
    "('h, 'i, 'b) Protocol manager \<Rightarrow> error option \<Rightarrow> URL \<Rightarrow> Handshake \<Rightarrow> 'g DialOptions
     \<Rightarrow> (URL \<times> (error + ('h, 'i, 'b, 'cb, 'g) wsConn)) go" where
  "dialWSConn mgr dialed uri handshake o' =
     (case GetProtocol mgr (hs_Version handshake) of
        Inl err \<Rightarrow> Some (uri, Inl err)
      | Inr p \<Rightarrow>
          let uri = uri\<lparr>url_RawQuery := ws_query (hs_Version handshake)\<rparr> in
          (case dialed of
             Some err \<Rightarrow> Some (uri, Inl err)
           | None \<Rightarrow> do {
               let qctx = (NewContext ClientSide)\<lparr>ctx_Codec := hs_Codec handshake, ctx_Platform := hs_Platform handshake,
                            ctx_Version := hs_Version handshake\<rparr>;
               writeCh \<leftarrow> make_chan (do_WriteQueueSize o');
               closeCh \<leftarrow> make_chan 0;
               Some (uri, Inr \<lparr>ws_onPacketOnce = False, ws_closeOnce = False, ws_callbacks = newCloseCallback, ws_qctx = qctx,
                 ws_p = p, ws_closeCh = closeCh, ws_writeCh = writeCh, ws_packetCh = None, ws_dopts = o',
                 ws_sent = [], ws_netClosed = False, ws_calls = []\<rparr>) }))"

definition ws_NeedHandleControl :: "('h, 'i, 'b, 'cb, 'g) wsConn \<Rightarrow> bool" where
  "ws_NeedHandleControl c = False"

definition ws_Context :: "('h, 'i, 'b, 'cb, 'g) wsConn \<Rightarrow> ('h, 'i) Context" where
  "ws_Context c = ws_qctx c"

definition ws_OnClose :: "('h, 'i, 'b, 'cb, 'g) wsConn \<Rightarrow> 'cb \<Rightarrow> ('h, 'i, 'b, 'cb, 'g) wsConn" where
  "ws_OnClose c cb = c\<lparr>ws_callbacks := closeCallback_OnClose (ws_callbacks c) cb\<rparr>"

definition ws_closed :: "('h, 'i, 'b, 'cb, 'g) wsConn \<Rightarrow> bool" where
  "ws_closed c = (case try_recv (ws_closeCh c) of Blocks \<Rightarrow> False | _ \<Rightarrow> True)"

subsection \<open>Writing\<close>

text \<open>\<open>conn.conn.WriteControl\<close> with result \<open>res\<close>: without an error the frame is sent.\<close>

definition ws_WriteControl ::
    "('h, 'i, 'b, 'cb, 'g) wsConn \<Rightarrow> ws_type \<Rightarrow> bytes \<Rightarrow> error option \<Rightarrow> ('h, 'i, 'b, 'cb, 'g) wsConn \<times> error option" where
  "ws_WriteControl c t data res =
     (if res = None then (c\<lparr>ws_sent := ws_sent c @ [(t, data)]\<rparr>, None) else (c, res))"

definition ws_writePing ::
    "('h, 'i, 'b, 'cb, 'g) wsConn \<Rightarrow> Packet \<Rightarrow> error option \<Rightarrow> ('h, 'i, 'b, 'cb, 'g) wsConn \<times> error option" where
  "ws_writePing c p res = (if ws_closed c then (c, Some ErrConnClosed) else ws_WriteControl c PingMessage (pk_Body p) res)"

definition ws_writeClose ::
    "('h, 'i, 'b, 'cb, 'g) wsConn \<Rightarrow> Packet \<Rightarrow> error option \<Rightarrow> ('h, 'i, 'b, 'cb, 'g) wsConn \<times> error option" where
  "ws_writeClose c p res = (if ws_closed c then (c, Some ErrConnClosed) else ws_WriteControl c CloseMessage (pk_Body p) res)"

text \<open>The \<open>select\<close> of \<open>write\<close>.\<close>

definition ws_enqueue ::
    "('h, 'i, 'b, 'cb, 'g) wsConn \<Rightarrow> bytes \<Rightarrow> (('h, 'i, 'b, 'cb, 'g) wsConn \<times> error option) go" where
  "ws_enqueue c data = do {
     (ch, sent) \<leftarrow> try_send (ws_writeCh c) data;
     Some (c\<lparr>ws_writeCh := ch\<rparr>,
           if sent then None else Some (ErrNew (''write queue full, len: '' @ fmt_d (length (ch_buf ch))))) }"

definition ws_write ::
    "('h, 'i, 'b, 'cb, 'g) wsConn \<Rightarrow> bytes \<Rightarrow> (('h, 'i, 'b, 'cb, 'g) wsConn \<times> error option) go" where
  "ws_write c data = (if ws_closed c then Some (c, Some ErrConnClosed) else ws_enqueue c data)"

definition ws_Write ::
    "control \<Rightarrow> ('h, 'i, 'b, 'cb, 'g) wsConn \<Rightarrow> Packet \<Rightarrow> PackOption list \<Rightarrow> error option
     \<Rightarrow> (('h, 'i, 'b, 'cb, 'g) wsConn \<times> Packet \<times> error option) go" where
  "ws_Write ctl c p popts res =
     (if ws_closed c then Some (c, p, Some ErrConnClosed)
      else do {
        ping \<leftarrow> Packet_IsPing ctl p;
        (if ping then let (c, err) = ws_writePing c p res in Some (c, p, err)
         else do {
           cls \<leftarrow> Packet_IsClose ctl p;
           (if cls then let (c, err) = ws_writeClose c p res in Some (c, p, err)
            else do {
              (p, r) \<leftarrow> prot_Pack (ws_p c) (ws_qctx c) p popts;
              (case r of
                 Inl err \<Rightarrow> Some (c, p, Some err)
               | Inr data \<Rightarrow> do {
                   (c, err) \<leftarrow> ws_write c data;
                   Some (c, p, err) }) }) }) })"

subsection \<open>Closing and delivering\<close>

definition ws_Close ::
    "('h, 'i, 'b, 'cb, 'g) wsConn \<Rightarrow> error option \<Rightarrow> ('h, 'i, 'b, 'cb, 'g) wsConn go" where
  "ws_Close c err =
     (if ws_closed c then Some c
      else if ws_closeOnce c then Some c
      else do {
        closeCh \<leftarrow> close_chan (ws_closeCh c);
        writeCh \<leftarrow> close_chan (ws_writeCh c);
        Some (c\<lparr>ws_closeOnce := True, ws_closeCh := closeCh, ws_writeCh := writeCh, ws_netClosed := True,
                ws_calls := ws_calls c @ DispatchClose (ws_callbacks c) err\<rparr>) })"

definition ws_OnPacket :: "('h, 'i, 'b, 'cb, 'g) wsConn \<Rightarrow> ('h, 'i, 'b, 'cb, 'g) wsConn go" where
  "ws_OnPacket c =
     (if ws_onPacketOnce c then Some c
      else do {
        ch \<leftarrow> make_chan (do_ReadQueueSize (ws_dopts c));
        Some (c\<lparr>ws_onPacketOnce := True, ws_packetCh := Some ch\<rparr>) })"

definition ws_receive ::
    "('h, 'i, 'b, 'cb, 'g) wsConn
     \<Rightarrow> (('h, 'i, 'b, 'cb, 'g) wsConn \<times> (Packet option \<times> error option) list \<times> loop) go" where
  "ws_receive c = do {
     ch \<leftarrow> ws_packetCh c;
     (case try_recv ch of
        Got p ch \<Rightarrow> Some (c\<lparr>ws_packetCh := Some ch\<rparr>, [(p, None)], Again)
      | Closed \<Rightarrow> Some (c, [(None, None)], Again)
      | Blocks \<Rightarrow> Some (c, [], Waiting)) }"

fun ws_drain ::
    "nat \<Rightarrow> ('h, 'i, 'b, 'cb, 'g) wsConn \<Rightarrow> (('h, 'i, 'b, 'cb, 'g) wsConn \<times> (Packet option \<times> error option) list) go" where
  "ws_drain 0 c = Some (c, [])"
| "ws_drain (Suc l) c = do {
     (c, call, _) \<leftarrow> ws_receive c;
     (c, calls) \<leftarrow> ws_drain l c;
     Some (c, call @ calls) }"

definition ws_finish ::
    "('h, 'i, 'b, 'cb, 'g) wsConn \<Rightarrow> (('h, 'i, 'b, 'cb, 'g) wsConn \<times> (Packet option \<times> error option) list) go" where
  "ws_finish c = do {
     ch \<leftarrow> ws_packetCh c;
     ch \<leftarrow> close_chan ch;
     Some (c\<lparr>ws_packetCh := Some ch\<rparr>, [(None, Some ErrConnClosed)]) }"

definition ws_deliver ::
    "('h, 'i, 'b, 'cb, 'g) wsConn
     \<Rightarrow> (('h, 'i, 'b, 'cb, 'g) wsConn \<times> (Packet option \<times> error option) list \<times> loop) go" where
  "ws_deliver c =
     (if ws_closed c then do {
        ch \<leftarrow> ws_packetCh c;
        let l = length (ch_buf ch);
        (c, calls) \<leftarrow> (if l > 0 then ws_drain l c else Some (c, []));
        (c, end') \<leftarrow> ws_finish c;
        Some (c, calls @ end', Returned) }
      else ws_receive c)"

definition ws_addPacket ::
    "('h, 'i, 'b, 'cb, 'g) wsConn \<Rightarrow> Packet option \<Rightarrow> ('h, 'i, 'b, 'cb, 'g) wsConn go" where
  "ws_addPacket c p =
     (case ws_packetCh c of
        None \<Rightarrow> Some c
      | Some ch \<Rightarrow> do { (ch, _) \<leftarrow> try_send ch p; Some (c\<lparr>ws_packetCh := Some ch\<rparr>) })"

subsection \<open>Control frames\<close>

text \<open>The close code is converted to \<open>control.Close_Code\<close>, an \<open>int32\<close>.\<close>

definition ws_onClose ::
    "control \<Rightarrow> control_msg encoders \<Rightarrow> ('h, 'i, 'b, 'cb, 'g) wsConn \<Rightarrow> int \<Rightarrow> string
     \<Rightarrow> (('h, 'i, 'b, 'cb, 'g) wsConn \<times> error option) go" where
  "ws_onClose ctl enc c code message = do {
     p \<leftarrow> MustNewPush enc (ws_qctx c) (CMD_CLOSE ctl) (MsgBody (ControlClose (sint (word_of_int code :: 32 word)) message)) [];
     c \<leftarrow> ws_addPacket c (Some p);
     Some (c, None) }"

text \<open>\<open>res\<close> is the result of sending the pong.\<close>

definition ws_onPing ::
    "control \<Rightarrow> control_msg encoders \<Rightarrow> ('h, 'i, 'b, 'cb, 'g) wsConn \<Rightarrow> bytes \<Rightarrow> error option
     \<Rightarrow> (('h, 'i, 'b, 'cb, 'g) wsConn \<times> error option) go" where
  "ws_onPing ctl enc c data res =
     (let (c, err) = ws_WriteControl c PongMessage data res in
      if err \<noteq> None then Some (c, err)
      else do {
        (qctx, p) \<leftarrow> MustNewRequest enc (ws_qctx c) (CMD_HEARTBEAT ctl) (BytesBody data) [];
        c \<leftarrow> ws_addPacket (c\<lparr>ws_qctx := qctx\<rparr>) (Some p);
        Some (c, None) })"

text \<open>\<open>hb\<close> is \<open>proto.Unmarshal\<close> into a \<open>control.Heartbeat\<close>, of which only the id is used.\<close>

definition ws_onPong ::
    "control \<Rightarrow> control_msg encoders \<Rightarrow> (bytes \<Rightarrow> error + 32 word option) \<Rightarrow> ('h, 'i, 'b, 'cb, 'g) wsConn \<Rightarrow> bytes
     \<Rightarrow> (('h, 'i, 'b, 'cb, 'g) wsConn \<times> error option) go" where
  "ws_onPong ctl enc hb c data = do {
     p \<leftarrow> MustNewResponse enc (ws_qctx c) (CMD_HEARTBEAT ctl) 0 (BytesBody data) [];
     md \<leftarrow> pk_Metadata p;
     let p = (case hb data of Inr (Some id') \<Rightarrow> p\<lparr>pk_Metadata := Some (md\<lparr>md_RequestId := id'\<rparr>)\<rparr> | _ \<Rightarrow> p);
     c \<leftarrow> ws_addPacket c (Some p);
     Some (c, None) }"

datatype ws_control = PingFrame bytes "error option" | PongFrame bytes | CloseFrame int string

definition ws_handler ::
    "control \<Rightarrow> control_msg encoders \<Rightarrow> (bytes \<Rightarrow> error + 32 word option) \<Rightarrow> ('h, 'i, 'b, 'cb, 'g) wsConn \<Rightarrow> ws_control
     \<Rightarrow> (('h, 'i, 'b, 'cb, 'g) wsConn \<times> error option) go" where
  "ws_handler ctl enc hb c f =
     (case f of
        PingFrame data res \<Rightarrow> ws_onPing ctl enc c data res
      | PongFrame data \<Rightarrow> ws_onPong ctl enc hb c data
      | CloseFrame code message \<Rightarrow> ws_onClose ctl enc c code message)"

fun ws_controls ::
    "control \<Rightarrow> control_msg encoders \<Rightarrow> (bytes \<Rightarrow> error + 32 word option) \<Rightarrow> ('h, 'i, 'b, 'cb, 'g) wsConn \<Rightarrow> ws_control list
     \<Rightarrow> (('h, 'i, 'b, 'cb, 'g) wsConn \<times> error option) go" where
  "ws_controls ctl enc hb c [] = Some (c, None)"
| "ws_controls ctl enc hb c (f # fs) = do {
     (c, err) \<leftarrow> ws_handler ctl enc hb c f;
     if err \<noteq> None then Some (c, err) else ws_controls ctl enc hb c fs }"

subsection \<open>Reading\<close>

definition ws_readPacket ::
    "('h, 'i, 'b, 'cb, 'g) wsConn \<Rightarrow> bytes \<Rightarrow> (('h, 'i, 'b, 'cb, 'g) wsConn \<times> error option) go" where
  "ws_readPacket c data = do {
     (ctx, packet, err) \<leftarrow> prot_UnpackBytes (ws_p c) (ws_qctx c) data;
     let c = c\<lparr>ws_qctx := ctx\<rparr>;
     (if err \<noteq> None then Some (c, err)
      else do { c \<leftarrow> ws_addPacket c packet; Some (c, None) }) }"

text \<open>What \<open>NextReader\<close> and then \<open>io.ReadAll\<close> return.\<close>

datatype ws_outcome = Message ws_type bytes | NextErr error | BodyErr error

definition ws_read ::
    "control \<Rightarrow> control_msg encoders \<Rightarrow> (bytes \<Rightarrow> error + 32 word option) \<Rightarrow> ('h, 'i, 'b, 'cb, 'g) wsConn
     \<Rightarrow> ws_control list \<times> ws_outcome \<Rightarrow> (('h, 'i, 'b, 'cb, 'g) wsConn \<times> bool) go" where
  "ws_read ctl enc hb c r = do {
     (c, cerr) \<leftarrow> ws_controls ctl enc hb c (fst r);
     (case (cerr, snd r) of
        (Some err, _) \<Rightarrow> do { c \<leftarrow> ws_Close c (Some err); Some (c, False) }
      | (None, NextErr err) \<Rightarrow> do { c \<leftarrow> ws_Close c (Some err); Some (c, False) }
      | (None, BodyErr err) \<Rightarrow> do { c \<leftarrow> ws_Close c (Some err); Some (c, False) }
      | (None, Message t data) \<Rightarrow>
          if t = BinaryMessage \<or> t = TextMessage then do {
            (c, _) \<leftarrow> ws_readPacket c data;
            Some (c, True) }
          else Some (c, True)) }"

definition ws_reading_step ::
    "control \<Rightarrow> control_msg encoders \<Rightarrow> (bytes \<Rightarrow> error + 32 word option) \<Rightarrow> ('h, 'i, 'b, 'cb, 'g) wsConn
     \<Rightarrow> ws_control list \<times> ws_outcome \<Rightarrow> (('h, 'i, 'b, 'cb, 'g) wsConn \<times> bool) go" where
  "ws_reading_step ctl enc hb c r = (if ws_closed c then Some (c, False) else ws_read ctl enc hb c r)"

fun ws_reading ::
    "control \<Rightarrow> control_msg encoders \<Rightarrow> (bytes \<Rightarrow> error + 32 word option) \<Rightarrow> ('h, 'i, 'b, 'cb, 'g) wsConn
     \<Rightarrow> (ws_control list \<times> ws_outcome) list \<Rightarrow> ('h, 'i, 'b, 'cb, 'g) wsConn go" where
  "ws_reading ctl enc hb c [] = Some c"
| "ws_reading ctl enc hb c (r # rs) = do {
     (c, goes) \<leftarrow> ws_reading_step ctl enc hb c r;
     if goes then ws_reading ctl enc hb c rs else Some c }"

text \<open>One iteration of \<open>writing\<close>; \<open>res\<close> is the result of \<open>WriteMessage\<close>.  A receive that would block leaves the state as it is.\<close>

definition ws_writing_step ::
    "('h, 'i, 'b, 'cb, 'g) wsConn \<Rightarrow> error option \<Rightarrow> (('h, 'i, 'b, 'cb, 'g) wsConn \<times> bool) go" where
  "ws_writing_step c res =
     (case try_recv (ws_writeCh c) of
        Closed \<Rightarrow> Some (c, False)
      | Blocks \<Rightarrow> Some (c, True)
      | Got b ch \<Rightarrow>
          let c = c\<lparr>ws_writeCh := ch\<rparr> in
          if ws_closed c then Some (c, False)
          else (case res of
                  Some err \<Rightarrow> do { c \<leftarrow> ws_Close c (Some err); Some (c, False) }
                | None \<Rightarrow> Some (c\<lparr>ws_sent := ws_sent c @ [(BinaryMessage, b)]\<rparr>, True)))"

subsection \<open>The interface to a protocol version\<close>

text \<open>
  A message is a whole frame, so the read loop relies on less than for TCP: in a context without a half-read frame \<open>UnpackBytes\<close>
  returns, what it returns depends on the message and the codec only, and it leaves the context without a half-read frame.
\<close>

locale message_protocol =
  fixes prot :: "('h, 'i, 'b) Protocol" and parse :: "CodecType \<Rightarrow> bytes \<Rightarrow> Packet option \<times> error option"
  assumes UnpackBytes_parse: "ctx_Header ctx = None \<Longrightarrow>
     \<exists>ctx'. prot_UnpackBytes prot ctx bs = Some (ctx', parse (ctx_Codec ctx) bs) \<and>
       ctx_Header ctx' = None \<and> ctx_Codec ctx' = ctx_Codec ctx"

definition v1_parse :: "('w, 'r) gz_lib \<Rightarrow> 'r option \<Rightarrow> CodecType \<Rightarrow> bytes \<Rightarrow> Packet option \<times> error option" where
  "v1_parse gz zr codec bs = snd (v1_bytes_spec gz zr ((NewContext ClientSide :: (Header, unit) Context)\<lparr>ctx_Codec := codec\<rparr>) bs)"

definition v2_parse ::
    "(bytes \<Rightarrow> bytes) \<Rightarrow> ('w, 'r) gz_lib \<Rightarrow> 'r option \<Rightarrow> CodecType \<Rightarrow> bytes \<Rightarrow> Packet option \<times> error option" where
  "v2_parse uni gz zr codec bs =
     snd (v2_bytes_spec uni gz zr ((NewContext ClientSide :: (v2_Header, unit) Context)\<lparr>ctx_Codec := codec\<rparr>) bs)"

lemma v1_bytes_spec_codec:
  assumes "ctx_Header ctx = None"
  shows "snd (v1_bytes_spec gz zr ctx bs) = v1_parse gz zr (ctx_Codec ctx) bs"
    "ctx_Codec (fst (v1_bytes_spec gz zr ctx bs)) = ctx_Codec ctx"
proof -
  let ?ctx = "(NewContext ClientSide :: (Header, unit) Context)\<lparr>ctx_Codec := ctx_Codec ctx\<rparr>"
  have h: "current_header ctx = Header_zero" "current_header ?ctx = Header_zero"
    using assms by (simp_all add: current_header_def)
  have m: "Header_Metadata h ctx = Header_Metadata h ?ctx" for h :: Header by (simp add: Header_Metadata_def)
  show "snd (v1_bytes_spec gz zr ctx bs) = v1_parse gz zr (ctx_Codec ctx) bs"
    unfolding v1_parse_def v1_bytes_spec_def h m Let_def
    by (auto split: prod.splits sum.splits option.splits)
  show "ctx_Codec (fst (v1_bytes_spec gz zr ctx bs)) = ctx_Codec ctx"
    by (auto simp: v1_bytes_spec_def Let_def split: prod.splits sum.splits option.splits)
qed

lemma v2_bytes_spec_codec:
  assumes "ctx_Header ctx = None"
  shows "snd (v2_bytes_spec uni gz zr ctx bs) = v2_parse uni gz zr (ctx_Codec ctx) bs"
    "ctx_Codec (fst (v2_bytes_spec uni gz zr ctx bs)) = ctx_Codec ctx"
proof -
  let ?ctx = "(NewContext ClientSide :: (v2_Header, unit) Context)\<lparr>ctx_Codec := ctx_Codec ctx\<rparr>"
  have h: "v2_current_header ctx = v2_Header_zero" "v2_current_header ?ctx = v2_Header_zero"
    using assms by (simp_all add: v2_current_header_def)
  have m: "Header_Metadata h ctx = Header_Metadata h ?ctx" for h :: v2_Header by (simp add: Header_Metadata_def)
  show "snd (v2_bytes_spec uni gz zr ctx bs) = v2_parse uni gz zr (ctx_Codec ctx) bs"
    unfolding v2_parse_def v2_bytes_spec_def h m Let_def
    by (auto split: prod.splits sum.splits option.splits)
  show "ctx_Codec (fst (v2_bytes_spec uni gz zr ctx bs)) = ctx_Codec ctx"
    by (auto simp: v2_bytes_spec_def Let_def split: prod.splits sum.splits option.splits)
qed

interpretation v1_msg: message_protocol "v1_protocol rb gz level zr pooled" "v1_parse gz zr" for rb gz level zr pooled
proof (unfold_locales, goal_cases)
  case (1 ctx bs)
  obtain ctx' p e where s: "v1_bytes_spec gz zr ctx bs = (ctx', p, e)" by (metis prod_cases3)
  then show ?case
    using v1_bytes_spec_codec [OF 1, of gz zr bs] v1_bytes_spec_result(1) [OF s]
    by (simp add: v1_protocol_def protocolV1_UnpackBytes_eq s)
qed

interpretation v2_msg: message_protocol "v2_protocol rb uni rangeord gz level zr pooled" "v2_parse uni gz zr" for rb uni rangeord gz level zr pooled
proof (unfold_locales, goal_cases)
  case (1 ctx bs)
  obtain ctx' p e where s: "v2_bytes_spec uni gz zr ctx bs = (ctx', p, e)" by (metis prod_cases3)
  then show ?case
    using v2_bytes_spec_codec [OF 1, of uni gz zr bs] v2_bytes_spec_result(1) [OF s]
    by (simp add: v2_protocol_def protocolV2_UnpackBytes_eq s)
qed

subsection \<open>The state of a connection\<close>

definition ws_ok :: "('h, 'i, 'b) Protocol \<Rightarrow> ('h, 'i, 'b, 'cb, 'g) wsConn \<Rightarrow> bool" where
  "ws_ok prot c \<longleftrightarrow> ws_p c = prot \<and> chan_ok (ws_writeCh c) \<and> ch_buf (ws_closeCh c) = [] \<and>
     ch_closed (ws_closeCh c) = ws_closeOnce c \<and> ch_closed (ws_writeCh c) = ws_closeOnce c \<and> ws_netClosed c = ws_closeOnce c \<and>
     0 \<le> do_ReadQueueSize (ws_dopts c) \<and> (ws_onPacketOnce c \<longleftrightarrow> ws_packetCh c \<noteq> None) \<and>
     chan_fits (ws_packetCh c) \<and> (chan_shut (ws_packetCh c) \<longrightarrow> ws_closeOnce c)"

lemma ws_closed_iff: "ws_ok prot c \<Longrightarrow> ws_closed c = ws_closeOnce c"
  by (auto simp: ws_ok_def ws_closed_def try_recv_def)

definition ws_shut :: "('h, 'i, 'b, 'cb, 'g) wsConn \<Rightarrow> error option \<Rightarrow> ('h, 'i, 'b, 'cb, 'g) wsConn" where
  "ws_shut c err = c\<lparr>ws_closeOnce := True, ws_closeCh := (ws_closeCh c)\<lparr>ch_closed := True\<rparr>,
     ws_writeCh := (ws_writeCh c)\<lparr>ch_closed := True\<rparr>, ws_netClosed := True,
     ws_calls := ws_calls c @ DispatchClose (ws_callbacks c) err\<rparr>"

lemma ws_Close_eq: "ws_ok prot c \<Longrightarrow> ws_Close c err = Some (if ws_closeOnce c then c else ws_shut c err)"
  using ws_closed_iff [of prot c] by (auto simp: ws_Close_def ws_ok_def close_chan_def ws_shut_def)

lemma ws_shut_ok: "ws_ok prot c \<Longrightarrow> ws_ok prot (ws_shut c err)"
  by (auto simp: ws_ok_def ws_shut_def chan_ok_def)

lemma ws_ok_open: "ws_ok prot c \<Longrightarrow> \<not> ws_closeOnce c \<Longrightarrow> open_chan (ws_packetCh c)"
  by (auto simp: ws_ok_def open_chan_iff)

lemma ws_addPacket_result:
  assumes "ws_ok prot c"
  shows "ws_addPacket c p = (if chan_shut (ws_packetCh c) then None else Some (c\<lparr>ws_packetCh := queued (ws_packetCh c) [p]\<rparr>))"
    "ws_ok prot (c\<lparr>ws_packetCh := queued (ws_packetCh c) [p]\<rparr>)"
proof -
  have o: "chan_fits (ws_packetCh c)" using assms by (simp add: ws_ok_def)
  then show "ws_addPacket c p = (if chan_shut (ws_packetCh c) then None else Some (c\<lparr>ws_packetCh := queued (ws_packetCh c) [p]\<rparr>))"
    by (cases "ws_packetCh c") (auto simp: ws_addPacket_def queued_def chan_fits_def chan_shut_def try_send_def chan_ok_def)
  show "ws_ok prot (c\<lparr>ws_packetCh := queued (ws_packetCh c) [p]\<rparr>)"
    using assms queued_fits [of "ws_packetCh c"] by (auto simp: ws_ok_def) (simp_all add: queued_def)
qed

lemma ws_addPacket_queued:
  assumes "ws_ok prot c" "\<not> ws_closeOnce c"
  shows "ws_addPacket c p = Some (c\<lparr>ws_packetCh := queued (ws_packetCh c) [p]\<rparr>)"
    "ws_ok prot (c\<lparr>ws_packetCh := queued (ws_packetCh c) [p]\<rparr>)"
  using ws_addPacket_result [OF assms(1)] ws_ok_open [OF assms] by (simp_all add: open_chan_iff)

lemma ws_ok_upd [simp]:
  "ws_ok prot (c\<lparr>ws_qctx := q\<rparr>) = ws_ok prot c" "ws_ok prot (c\<lparr>ws_sent := x\<rparr>) = ws_ok prot c"
  by (simp_all add: ws_ok_def)

subsection \<open>Reading messages\<close>

text \<open>The packets that a list of messages contains: those messages that parse.\<close>

definition parsed :: "(bytes \<Rightarrow> Packet option \<times> error option) \<Rightarrow> bytes list \<Rightarrow> Packet option list" where
  "parsed f ms = map (fst \<circ> f) (filter (\<lambda>m. snd (f m) = None) ms)"

context message_protocol
begin

lemma ws_message:
  assumes ok: "ws_ok prot c" "\<not> ws_closeOnce c" "ctx_Header (ws_qctx c) = None" and t: "t = BinaryMessage \<or> t = TextMessage"
  shows "\<exists>c'. ws_reading_step ctl enc hb c ([], Message t m) = Some (c', True) \<and> ws_ok prot c' \<and> \<not> ws_closeOnce c' \<and>
    ctx_Header (ws_qctx c') = None \<and> ctx_Codec (ws_qctx c') = ctx_Codec (ws_qctx c) \<and>
    ws_packetCh c' = queued (ws_packetCh c) (parsed (parse (ctx_Codec (ws_qctx c))) [m])"
proof -
  obtain ctx' p e where u: "prot_UnpackBytes prot (ws_qctx c) m = Some (ctx', p, e)" "parse (ctx_Codec (ws_qctx c)) m = (p, e)"
    "ctx_Header ctx' = None" "ctx_Codec ctx' = ctx_Codec (ws_qctx c)"
    using UnpackBytes_parse [OF ok(3), of m] by (metis prod.collapse)
  define c1 where "c1 = c\<lparr>ws_qctx := ctx'\<rparr>"
  have c1: "ws_ok prot c1" "\<not> ws_closeOnce c1" "ws_packetCh c1 = ws_packetCh c" using ok by (simp_all add: c1_def)
  have p: "ws_p c = prot" "\<not> ws_closed c" "chan_fits (ws_packetCh c)" using ok ws_closed_iff by (auto simp: ws_ok_def)
  have "ws_readPacket c m = Some (if e = None then c1\<lparr>ws_packetCh := queued (ws_packetCh c1) [p]\<rparr> else c1, e)"
    using ws_addPacket_queued(1) [OF c1(1,2), of p] unfolding ws_readPacket_def p(1) u(1) c1_def by (cases e) simp_all
  then have st: "ws_reading_step ctl enc hb c ([], Message t m) =
      Some (if e = None then c1\<lparr>ws_packetCh := queued (ws_packetCh c1) [p]\<rparr> else c1, True)"
    using p(2) t unfolding ws_reading_step_def ws_read_def by (elim disjE) simp_all
  have c1': "ctx_Header (ws_qctx c1) = None" "ctx_Codec (ws_qctx c1) = ctx_Codec (ws_qctx c)" using u by (simp_all add: c1_def)
  show ?thesis
    unfolding st using u(2) c1 c1' ws_addPacket_queued(2) [OF c1(1,2), of p] queued_Nil [OF p(3)]
    by (cases e) (simp_all add: parsed_def)
qed

lemma ws_messages:
  assumes "ws_ok prot c" "\<not> ws_closeOnce c" "ctx_Header (ws_qctx c) = None" "\<forall>(t, m) \<in> set ms. t = BinaryMessage \<or> t = TextMessage"
  shows "\<exists>c'. ws_reading ctl enc hb c (map (\<lambda>(t, m). ([], Message t m)) ms) = Some c' \<and> ws_ok prot c' \<and> \<not> ws_closeOnce c' \<and>
    ws_packetCh c' = queued (ws_packetCh c) (parsed (parse (ctx_Codec (ws_qctx c))) (map snd ms))"
  using assms
proof (induction ms arbitrary: c)
  case Nil
  then show ?case by (auto simp: parsed_def queued_Nil ws_ok_def)
next
  case (Cons x ms)
  obtain t m where x: "x = (t, m)" by fastforce
  obtain c1 where c1: "ws_reading_step ctl enc hb c ([], Message t m) = Some (c1, True)" "ws_ok prot c1" "\<not> ws_closeOnce c1"
    "ctx_Header (ws_qctx c1) = None" "ctx_Codec (ws_qctx c1) = ctx_Codec (ws_qctx c)"
    "ws_packetCh c1 = queued (ws_packetCh c) (parsed (parse (ctx_Codec (ws_qctx c))) [m])"
    using ws_message [OF Cons.prems(1-3), of t ctl enc hb m] Cons.prems(4) x by auto
  obtain c' where c': "ws_reading ctl enc hb c1 (map (\<lambda>(t, m). ([], Message t m)) ms) = Some c'" "ws_ok prot c'" "\<not> ws_closeOnce c'"
    "ws_packetCh c' = queued (ws_packetCh c1) (parsed (parse (ctx_Codec (ws_qctx c1))) (map snd ms))"
    using Cons.IH [OF c1(2-4)] Cons.prems(4) by auto
  have "parsed f (map snd (x # ms)) = parsed f [m] @ parsed f (map snd ms)" for f by (simp add: parsed_def x)
  then show ?case using c' c1 by (simp add: x queued_queued)
qed

end

subsection \<open>Results of the operations\<close>

text \<open>The frames of data among what was handed to the network, and the fields that the handlers of control frames leave alone.\<close>

definition ws_data :: "('h, 'i, 'b, 'cb, 'g) wsConn \<Rightarrow> bytes list" where
  "ws_data c = map snd (filter (\<lambda>f. fst f = BinaryMessage) (ws_sent c))"

definition ws_queue :: "('h, 'i, 'b, 'cb, 'g) wsConn
    \<Rightarrow> bytes list \<times> bytes chan \<times> bool \<times> 'cb closeCallback \<times> ('cb \<times> error option) list" where
  "ws_queue c = (ws_data c, ws_writeCh c, ws_closeOnce c, ws_callbacks c, ws_calls c)"

lemma ws_queue_upd [simp]:
  "ws_queue (c\<lparr>ws_qctx := q\<rparr>) = ws_queue c" "ws_queue (c\<lparr>ws_packetCh := ch\<rparr>) = ws_queue c"
  "ws_queue (c\<lparr>ws_onPacketOnce := b\<rparr>) = ws_queue c"
  by (simp_all add: ws_queue_def ws_data_def)

lemma ws_WriteControl_queue:
  assumes "ws_WriteControl c t data res = (c', err)" "t \<noteq> BinaryMessage"
  shows "ws_queue c' = ws_queue c \<and> ws_ok prot c' = ws_ok prot c \<and> ws_closeOnce c' = ws_closeOnce c \<and> ws_qctx c' = ws_qctx c \<and> err = res"
  using assms by (auto simp: ws_WriteControl_def ws_queue_def ws_data_def split: if_splits)

lemma ws_addPacket_Some:
  assumes "ws_ok prot c" "ws_addPacket c p = Some c'"
  shows "ws_ok prot c' \<and> ws_queue c' = ws_queue c"
  using ws_addPacket_result [OF assms(1), of p] assms(2) by (auto split: if_splits)

lemma ws_handler_result:
  assumes ok: "ws_ok prot c" and h: "ws_handler ctl enc hb c f = Some (c', err)"
  shows "ws_ok prot c' \<and> ws_queue c' = ws_queue c"
proof (cases f)
  case (PingFrame data res)
  obtain c1 e1 where w: "ws_WriteControl c PongMessage data res = (c1, e1)" by fastforce
  note r = ws_WriteControl_queue [OF w, of prot, simplified]
  show ?thesis
  proof (cases "e1 = None")
    case False
    then show ?thesis using h PingFrame w r ok by (auto simp: ws_handler_def ws_onPing_def)
  next
    case True
    then obtain q p where "ws_addPacket (c1\<lparr>ws_qctx := q\<rparr>) (Some p) = Some c'"
      using h PingFrame w by (auto simp: ws_handler_def ws_onPing_def bind_eq_Some_conv)
    then show ?thesis using ws_addPacket_Some [of prot "c1\<lparr>ws_qctx := q\<rparr>"] r ok by auto
  qed
next
  case (PongFrame data)
  then obtain p where "ws_addPacket c (Some p) = Some c'"
    using h by (auto simp: ws_handler_def ws_onPong_def bind_eq_Some_conv Let_def)
  then show ?thesis using ws_addPacket_Some [OF ok] by blast
next
  case (CloseFrame code message)
  then obtain p where "ws_addPacket c (Some p) = Some c'"
    using h by (auto simp: ws_handler_def ws_onClose_def bind_eq_Some_conv)
  then show ?thesis using ws_addPacket_Some [OF ok] by blast
qed

lemma ws_controls_result:
  assumes "ws_ok prot c" "ws_controls ctl enc hb c fs = Some (c', err)"
  shows "ws_ok prot c' \<and> ws_queue c' = ws_queue c"
  using assms
proof (induction fs arbitrary: c)
  case (Cons f fs)
  obtain c1 e1 where h: "ws_handler ctl enc hb c f = Some (c1, e1)"
    using Cons.prems(2) by (auto simp: bind_eq_Some_conv)
  with ws_handler_result [OF Cons.prems(1)] have "ws_ok prot c1" "ws_queue c1 = ws_queue c" by blast+
  with Cons h show ?case by (cases "e1 = None") auto
qed simp

text \<open>From one state to the next: nothing, or closed with the callbacks called once.\<close>

definition ws_closes :: "('h, 'i, 'b, 'cb, 'g) wsConn \<Rightarrow> ('h, 'i, 'b, 'cb, 'g) wsConn \<Rightarrow> bool" where
  "ws_closes c c' \<longleftrightarrow> ws_queue c' = ws_queue c \<or> \<not> ws_closeOnce c \<and> (\<exists>err. ws_queue c' = ws_queue (ws_shut c err))"

lemma ws_queue_shut: "ws_queue c1 = ws_queue c \<Longrightarrow> ws_queue (ws_shut c1 err) = ws_queue (ws_shut c err)"
  by (simp add: ws_queue_def ws_shut_def ws_data_def)

lemma ws_read_result:
  assumes ok: "ws_ok prot c" and r: "ws_read ctl enc hb c r = Some (c', goes)"
  shows "ws_ok prot c' \<and> ws_closes c c'"
proof -
  obtain c1 e1 where ctl: "ws_controls ctl enc hb c (fst r) = Some (c1, e1)"
    using r by (auto simp: ws_read_def bind_eq_Some_conv)
  have c1: "ws_ok prot c1" "ws_queue c1 = ws_queue c" using ws_controls_result [OF ok ctl] by blast+
  then have once: "ws_closeOnce c1 = ws_closeOnce c" by (simp add: ws_queue_def)
  have same: "ws_ok prot c1 \<and> ws_closes c c1" using c1 by (simp add: ws_closes_def)
  have cl: "\<exists>c2. ws_Close c1 x = Some c2 \<and> ws_ok prot c2 \<and> ws_closes c c2" for x
    using ws_Close_eq [OF c1(1), of x] ws_shut_ok [OF c1(1), of x] ws_queue_shut [OF c1(2), of x] same once
    by (cases "ws_closeOnce c") (auto simp: ws_closes_def)
  have rp: "ws_ok prot c2 \<and> ws_closes c c2" if "ws_readPacket c1 data = Some (c2, e2)" for data c2 e2
  proof -
    obtain ctx p e where "prot_UnpackBytes (ws_p c1) (ws_qctx c1) data = Some (ctx, p, e)"
      using \<open>ws_readPacket c1 data = Some (c2, e2)\<close> by (auto simp: ws_readPacket_def bind_eq_Some_conv)
    then show ?thesis
      using that c1 ws_addPacket_Some [of prot "c1\<lparr>ws_qctx := ctx\<rparr>" p]
      by (cases e) (auto simp: ws_readPacket_def ws_closes_def Let_def bind_eq_Some_conv)
  qed
  have cl': "ws_ok prot c2 \<and> ws_closes c c2" if "ws_Close c1 x = Some c2" for x c2 using cl [of x] that by auto
  show ?thesis
    using r ctl same cl' rp
    by (auto simp: ws_read_def bind_eq_Some_conv split: option.splits ws_outcome.splits if_splits)
qed

lemma ws_reading_result:
  assumes ok: "ws_ok prot c" and r: "ws_reading_step ctl enc hb c r = Some (c', goes)"
  shows "ws_ok prot c' \<and> ws_closes c c'"
  using ws_read_result [OF ok, of ctl enc hb r c' goes] r ok
  by (cases "ws_closed c") (simp_all add: ws_reading_step_def ws_closes_def)

lemma ws_writing_result:
  assumes ok: "ws_ok prot c"
  shows "\<exists>c' goes. ws_writing_step c res = Some (c', goes) \<and> ws_ok prot c' \<and>
    (if ws_closeOnce c then ws_data c' = ws_data c \<and> ws_closeOnce c' \<and> ws_calls c' = ws_calls c
     else (\<exists>b. ws_data c' @ b @ ch_buf (ws_writeCh c') = ws_data c @ ch_buf (ws_writeCh c) \<and> (b = [] \<or> ws_closeOnce c')) \<and>
       ws_callbacks c' = ws_callbacks c \<and>
       (if ws_closeOnce c' then \<exists>err. ws_calls c' = ws_calls c @ DispatchClose (ws_callbacks c) err else ws_calls c' = ws_calls c))"
proof (cases "ch_buf (ws_writeCh c)")
  case Nil
  then show ?thesis using ok by (auto simp: ws_writing_step_def try_recv_def)
next
  case (Cons b bs)
  define c1 where "c1 = c\<lparr>ws_writeCh := (ws_writeCh c)\<lparr>ch_buf := bs\<rparr>\<rparr>"
  have r: "try_recv (ws_writeCh c) = Got b ((ws_writeCh c)\<lparr>ch_buf := bs\<rparr>)" using Cons by (simp add: try_recv_def)
  have c1: "ws_ok prot c1" "ws_closeOnce c1 = ws_closeOnce c" "ws_data c1 = ws_data c" "ws_calls c1 = ws_calls c"
    "ch_buf (ws_writeCh c1) = bs" "ws_callbacks c1 = ws_callbacks c" "ws_sent c1 = ws_sent c"
    using ok Cons by (auto simp: c1_def ws_ok_def chan_ok_def ws_data_def)
  have st: "ws_writing_step c res =
      (if ws_closeOnce c then Some (c1, False)
       else case res of Some err \<Rightarrow> Some (ws_shut c1 (Some err), False)
                      | None \<Rightarrow> Some (c1\<lparr>ws_sent := ws_sent c1 @ [(BinaryMessage, b)]\<rparr>, True))"
    unfolding ws_writing_step_def r received.case Let_def c1_def [symmetric]
    using ws_closed_iff [OF c1(1)] c1(2) ws_Close_eq [OF c1(1)] by (auto split: option.splits)
  have sh: "ws_data (ws_shut c1 e) = ws_data c1" "ws_calls (ws_shut c1 e) = ws_calls c1 @ DispatchClose (ws_callbacks c1) e"
    "ws_closeOnce (ws_shut c1 e)" "ws_callbacks (ws_shut c1 e) = ws_callbacks c1" "ch_buf (ws_writeCh (ws_shut c1 e)) = bs" for e
    using c1(5) by (simp_all add: ws_shut_def ws_data_def)
  show ?thesis
  proof (cases "ws_closeOnce c")
    case True
    then show ?thesis using st c1 by auto
  next
    case False
    then show ?thesis
    proof (cases res)
      case None
      then show ?thesis using st c1 False Cons by (auto simp: ws_data_def)
    next
      case (Some e)
      then have "ws_data (ws_shut c1 (Some e)) @ [b] @ ch_buf (ws_writeCh (ws_shut c1 (Some e))) = ws_data c @ ch_buf (ws_writeCh c)"
        using sh c1(3) Cons by simp
      then show ?thesis using Some st False c1 sh ws_shut_ok [OF c1(1)] by (auto intro!: exI [of _ "[b]"])
    qed
  qed
qed

text \<open>The frame that a call of \<open>Write\<close> with result \<open>err\<close> has put into the queue: what \<open>Pack\<close> made, unless the packet goes out as a control frame.\<close>

definition ws_accepted ::
    "control \<Rightarrow> ('h, 'i, 'b, 'cb, 'g) wsConn \<Rightarrow> Packet \<Rightarrow> PackOption list \<Rightarrow> error option \<Rightarrow> bytes list" where
  "ws_accepted ctl c p popts err =
     (if Packet_IsPing ctl p = Some True \<or> Packet_IsClose ctl p = Some True then []
      else (case prot_Pack (ws_p c) (ws_qctx c) p popts of
              Some (_, Inr data) \<Rightarrow> if err = None then [data] else []
            | _ \<Rightarrow> []))"

lemma ws_enqueue_result:
  assumes "ws_ok prot c" "ws_enqueue c data = Some (c', err)"
  shows "ws_ok prot c' \<and> \<not> ws_closeOnce c \<and> \<not> ws_closeOnce c' \<and> ws_data c' = ws_data c \<and> ws_calls c' = ws_calls c \<and> ws_callbacks c' = ws_callbacks c \<and>
    ws_qctx c' = ws_qctx c \<and> ch_buf (ws_writeCh c') = ch_buf (ws_writeCh c) @ (if err = None then [data] else []) \<and> (err \<noteq> None \<longrightarrow> c' = c)"
  using assms by (auto simp: ws_enqueue_def try_send_def ws_ok_def chan_ok_def ws_data_def split: if_splits)

lemma ws_Write_result:
  assumes ok: "ws_ok prot c" and w: "ws_Write ctl c p popts res = Some (c', p', err)"
  shows "ws_ok prot c' \<and> ws_closeOnce c' = ws_closeOnce c \<and> ws_calls c' = ws_calls c \<and> ws_callbacks c' = ws_callbacks c \<and> ws_qctx c' = ws_qctx c \<and>
    (ws_closeOnce c \<longrightarrow> c' = c \<and> err = Some ErrConnClosed) \<and>
    ws_data c' = ws_data c \<and> ch_buf (ws_writeCh c') = ch_buf (ws_writeCh c) @ ws_accepted ctl c p popts err"
proof (cases "ws_closeOnce c")
  case True
  then have "c' = c \<and> err = Some ErrConnClosed" using w ws_closed_iff [OF ok] by (simp add: ws_Write_def)
  then show ?thesis using True ok by (auto simp: ws_accepted_def split: option.splits sum.splits)
next
  case False
  then have st: "\<not> ws_closed c" "ws_p c = prot" "\<not> ch_closed (ws_writeCh c)" "chan_ok (ws_writeCh c)"
    using ok ws_closed_iff [OF ok] by (auto simp: ws_ok_def)
  obtain ping where ping: "Packet_IsPing ctl p = Some ping" using w st by (auto simp: ws_Write_def bind_eq_Some_conv)
  obtain cls where cls: "\<not> ping \<longrightarrow> Packet_IsClose ctl p = Some cls"
    using w st ping by (cases ping) (auto simp: ws_Write_def bind_eq_Some_conv)
  show ?thesis
  proof (cases "ping \<or> cls")
    case True
    then obtain t where t: "ws_WriteControl c t (pk_Body p) res = (c', err)" "t \<noteq> BinaryMessage"
      using w st ping cls by (cases ping) (auto simp: ws_Write_def ws_writePing_def ws_writeClose_def split: prod.splits)
    have "ws_accepted ctl c p popts err = []" using True ping cls by (cases ping) (auto simp: ws_accepted_def)
    then show ?thesis using ws_WriteControl_queue [OF t, of prot] ok False by (auto simp: ws_queue_def)
  next
    case other: False
    then obtain q r where r: "prot_Pack prot (ws_qctx c) p popts = Some (q, r)"
      using w st ping cls by (auto simp: ws_Write_def bind_eq_Some_conv)
    show ?thesis
    proof (cases r)
      case (Inl e)
      then show ?thesis using w st ping cls other r ok False by (auto simp: ws_Write_def ws_accepted_def)
    next
      case (Inr data)
      then have "ws_enqueue c data = Some (c', err)"
        using w st ping cls other r by (auto simp: ws_Write_def ws_write_def bind_eq_Some_conv)
      then show ?thesis
        using ws_enqueue_result [OF ok] ping cls other r Inr st(2) False by (auto simp: ws_accepted_def)
    qed
  qed
qed

subsection \<open>Runs\<close>

inductive ws_step ::
    "control \<Rightarrow> control_msg encoders \<Rightarrow> (bytes \<Rightarrow> error + 32 word option) \<Rightarrow> ('h, 'i, 'b, 'cb, 'g) wsConn
     \<Rightarrow> bytes list \<Rightarrow> ('h, 'i, 'b, 'cb, 'g) wsConn \<Rightarrow> bool" for ctl enc hb where
  WriteW: "ws_Write ctl c p popts res = Some (c', p', err) \<Longrightarrow> ws_step ctl enc hb c (ws_accepted ctl c p popts err) c'"
| EnqueueW: "prot_Pack (ws_p c) ctx p popts = Some (p', Inr data) \<Longrightarrow> ws_enqueue c data = Some (c', err) \<Longrightarrow>
    ws_step ctl enc hb c (if err = None then [data] else []) c'"
| WritingW: "ws_writing_step c res = Some (c', goes) \<Longrightarrow> ws_step ctl enc hb c [] c'"
| CloseW: "ws_Close c err = Some c' \<Longrightarrow> ws_step ctl enc hb c [] c'"
| ReadingW: "ws_reading_step ctl enc hb c r = Some (c', goes) \<Longrightarrow> ws_step ctl enc hb c [] c'"
| ReadW: "ws_read ctl enc hb c r = Some (c', goes) \<Longrightarrow> ws_step ctl enc hb c [] c'"
| OnPacketW: "ws_OnPacket c = Some c' \<Longrightarrow> ws_step ctl enc hb c [] c'"
| DeliverW: "ws_deliver c = Some (c', calls, goes) \<Longrightarrow> ws_step ctl enc hb c [] c'"
| ReceiveW: "ws_receive c = Some (c', calls, goes) \<Longrightarrow> ws_step ctl enc hb c [] c'"
| FinishW: "ws_closed c \<Longrightarrow> ws_finish c = Some (c', calls) \<Longrightarrow> ws_step ctl enc hb c [] c'"
| OnCloseW: "ws_step ctl enc hb c [] (ws_OnClose c cb)"

inductive ws_run ::
    "control \<Rightarrow> control_msg encoders \<Rightarrow> (bytes \<Rightarrow> error + 32 word option) \<Rightarrow> ('h, 'i, 'b, 'cb, 'g) wsConn
     \<Rightarrow> bytes list \<Rightarrow> ('h, 'i, 'b, 'cb, 'g) wsConn \<Rightarrow> bool" for ctl enc hb c where
  ws_Start: "ws_run ctl enc hb c [] c"
| ws_Step: "ws_run ctl enc hb c xs c1 \<Longrightarrow> ws_step ctl enc hb c1 ys c2 \<Longrightarrow> ws_run ctl enc hb c (xs @ ys) c2"

lemma ws_OnPacket_result:
  assumes "ws_ok prot c"
  shows "\<exists>c'. ws_OnPacket c = Some c' \<and> ws_ok prot c' \<and> ws_queue c' = ws_queue c \<and> ws_packetCh c' \<noteq> None"
  using assms by (auto simp: ws_OnPacket_def make_chan_def ws_ok_def chan_fits_def chan_shut_def chan_ok_def)

lemma ws_ok_packets:
  assumes "ws_ok prot c" "ws_packetCh c \<noteq> None" "chan_ok ch" "ch_closed ch \<longrightarrow> ws_closeOnce c"
  shows "ws_ok prot (c\<lparr>ws_packetCh := Some ch\<rparr>)"
  using assms by (simp add: ws_ok_def chan_fits_def chan_shut_def)

lemma ws_receive_result:
  assumes ok: "ws_ok prot c" and d: "ws_receive c = Some (c', calls, l)"
  shows "ws_ok prot c' \<and> ws_queue c' = ws_queue c"
proof -
  obtain ch where ch: "ws_packetCh c = Some ch" using d by (auto simp: ws_receive_def bind_eq_Some_conv)
  have k: "chan_ok ch" "ch_closed ch \<longrightarrow> ws_closeOnce c" using ok ch by (auto simp: ws_ok_def chan_fits_def chan_shut_def)
  show ?thesis
  proof (cases "try_recv ch")
    case (Got p ch')
    then show ?thesis
      using d ch try_recv_ok [OF Got] k ws_ok_packets [OF ok, of ch'] by (auto simp: ws_receive_def)
  qed (use d ch ok in \<open>auto simp: ws_receive_def\<close>)
qed

lemma ws_finish_result:
  assumes ok: "ws_ok prot c" and "ws_closeOnce c" "ws_finish c = Some (c', calls)"
  shows "ws_ok prot c' \<and> ws_queue c' = ws_queue c"
proof -
  obtain ch where ch: "ws_packetCh c = Some ch" "c' = c\<lparr>ws_packetCh := Some (ch\<lparr>ch_closed := True\<rparr>)\<rparr>"
    using assms(3) by (auto simp: ws_finish_def bind_eq_Some_conv close_chan_def split: if_splits)
  moreover have "chan_ok ch" using ok ch(1) by (auto simp: ws_ok_def chan_fits_def)
  ultimately show ?thesis
    using ws_ok_packets [OF ok, of "ch\<lparr>ch_closed := True\<rparr>"] assms(2) by (auto simp: chan_ok_def)
qed

lemma ws_drain_result: "ws_ok prot c \<Longrightarrow> ws_drain l c = Some (c', calls) \<Longrightarrow> ws_ok prot c' \<and> ws_queue c' = ws_queue c"
proof (induction l arbitrary: c calls)
  case (Suc l)
  then obtain c1 call lp calls' where c1: "ws_receive c = Some (c1, call, lp)" "ws_drain l c1 = Some (c', calls')"
    by (auto simp: bind_eq_Some_conv)
  with Suc ws_receive_result [OF Suc.prems(1) c1(1)] show ?case by fastforce
qed simp

lemma ws_deliver_result:
  assumes ok: "ws_ok prot c" and d: "ws_deliver c = Some (c', calls, l)"
  shows "ws_ok prot c' \<and> ws_queue c' = ws_queue c"
proof (cases "ws_closed c")
  case True
  have "(if 0 < n then ws_drain n c else Some (c, [])) = ws_drain n c" for n by (cases n) simp_all
  with True obtain n c1 calls1 end' where c1: "ws_drain n c = Some (c1, calls1)" "ws_finish c1 = Some (c', end')"
    using d by (auto simp: ws_deliver_def bind_eq_Some_conv Let_def)
  have ok1: "ws_ok prot c1" "ws_queue c1 = ws_queue c" using ws_drain_result [OF ok c1(1)] by blast+
  then have "ws_closeOnce c1" using True ws_closed_iff [OF ok] by (simp add: ws_queue_def)
  then show ?thesis using ws_finish_result [OF ok1(1) _ c1(2)] ok1(2) by simp
next
  case False
  then show ?thesis using d ws_receive_result [OF ok, of c' calls l] by (simp add: ws_deliver_def)
qed

text \<open>One step: the queue grows by what is accepted, what is sent is taken from its front, and after closing nothing changes.\<close>

lemma ws_step_result:
  assumes "ws_step ctl enc hb c d c'" "ws_ok prot c"
  shows "ws_ok prot c' \<and>
    (if ws_closeOnce c then ws_closeOnce c' \<and> d = [] \<and> ws_data c' = ws_data c \<and> ws_calls c' = ws_calls c
     else prefix (ws_data c') (ws_data c @ ch_buf (ws_writeCh c) @ d) \<and>
       (if ws_closeOnce c' then \<exists>err. ws_calls c' = ws_calls c @ DispatchClose (ws_callbacks c) err
        else ws_data c' @ ch_buf (ws_writeCh c') = ws_data c @ ch_buf (ws_writeCh c) @ d \<and> ws_calls c' = ws_calls c))"
  using assms
proof (cases rule: ws_step.cases)
  case (WriteW p popts res p' err)
  note r = ws_Write_result [OF assms(2) WriteW(2)]
  have q: "ws_data c' = ws_data c" "ch_buf (ws_writeCh c') = ch_buf (ws_writeCh c) @ d" using r WriteW(1) by simp_all
  have "d = []" if "ws_closeOnce c" using r that q(2) by simp
  with r q assms(2) show ?thesis by (cases "ws_closeOnce c") simp_all
next
  case (EnqueueW ctx p popts p' data err)
  then show ?thesis using ws_enqueue_result [OF assms(2) EnqueueW(3)] by auto
next
  case (WritingW res goes)
  obtain c2 g where w: "ws_writing_step c res = Some (c2, g)" "ws_ok prot c2"
    and q: "if ws_closeOnce c then ws_data c2 = ws_data c \<and> ws_closeOnce c2 \<and> ws_calls c2 = ws_calls c
     else (\<exists>b. ws_data c2 @ b @ ch_buf (ws_writeCh c2) = ws_data c @ ch_buf (ws_writeCh c) \<and> (b = [] \<or> ws_closeOnce c2)) \<and>
       ws_callbacks c2 = ws_callbacks c \<and>
       (if ws_closeOnce c2 then \<exists>err. ws_calls c2 = ws_calls c @ DispatchClose (ws_callbacks c) err else ws_calls c2 = ws_calls c)"
    using ws_writing_result [OF assms(2), of res] by blast
  have c2: "c2 = c'" using w WritingW(2) by simp
  show ?thesis
  proof (cases "ws_closeOnce c")
    case True
    then show ?thesis using w q c2 WritingW(1) by simp
  next
    case False
    then obtain b where b: "ws_data c' @ b @ ch_buf (ws_writeCh c') = ws_data c @ ch_buf (ws_writeCh c)" "b = [] \<or> ws_closeOnce c'"
      using q c2 by auto
    then have "prefix (ws_data c') (ws_data c @ ch_buf (ws_writeCh c))" by (metis prefixI)
    then show ?thesis using b False w(2) q c2 WritingW(1) by auto
  qed
next
  case (CloseW err)
  then show ?thesis
    using ws_Close_eq [OF assms(2), of err] assms(2) ws_shut_ok [OF assms(2), of err] ws_queue_shut [of c c err]
    by (cases "ws_closeOnce c") (auto simp: ws_shut_def ws_data_def)
next
  case (ReadingW r goes)
  have "ws_ok prot c'" "ws_closes c c'" using ws_reading_result [OF assms(2) ReadingW(2)] by blast+
  then show ?thesis using ReadingW(1) by (auto simp: ws_closes_def ws_queue_def ws_shut_def ws_data_def)
next
  case (ReadW r goes)
  have "ws_ok prot c'" "ws_closes c c'" using ws_read_result [OF assms(2) ReadW(2)] by blast+
  then show ?thesis using ReadW(1) by (auto simp: ws_closes_def ws_queue_def ws_shut_def ws_data_def)
next
  case OnPacketW
  then show ?thesis using ws_OnPacket_result [OF assms(2)] by (auto simp: ws_queue_def)
next
  case (DeliverW calls goes)
  then show ?thesis using ws_deliver_result [OF assms(2) DeliverW(2)] by (auto simp: ws_queue_def)
next
  case (ReceiveW calls goes)
  then show ?thesis using ws_receive_result [OF assms(2) ReceiveW(2)] by (auto simp: ws_queue_def)
next
  case (FinishW calls)
  then show ?thesis using ws_finish_result [OF assms(2) _ FinishW(3)] ws_closed_iff [OF assms(2)] by (auto simp: ws_queue_def)
next
  case (OnCloseW cb)
  then show ?thesis using assms(2) by (auto simp: ws_OnClose_def ws_ok_def ws_data_def)
qed

lemma ws_run_result:
  assumes "ws_run ctl enc hb c xs c'" "ws_ok prot c" "\<not> ws_closeOnce c"
  shows "ws_ok prot c' \<and> prefix (ws_data c') (ws_data c @ ch_buf (ws_writeCh c) @ xs) \<and>
    (\<not> ws_closeOnce c' \<longrightarrow> ws_data c' @ ch_buf (ws_writeCh c') = ws_data c @ ch_buf (ws_writeCh c) @ xs)"
  using assms
proof (induction rule: ws_run.induct)
  case ws_Start
  then show ?case by simp
next
  case (ws_Step xs c1 ys c2)
  then have ok: "ws_ok prot c1" and p1: "prefix (ws_data c1) (ws_data c @ ch_buf (ws_writeCh c) @ xs)"
    and cl: "\<not> ws_closeOnce c1 \<Longrightarrow> ws_data c1 @ ch_buf (ws_writeCh c1) = ws_data c @ ch_buf (ws_writeCh c) @ xs"
    by blast+
  note st = ws_step_result [OF ws_Step.hyps(2) ok]
  show ?case
  proof (cases "ws_closeOnce c1")
    case True
    then show ?thesis using st p1 by simp
  next
    case False
    then have eq: "ws_data c1 @ ch_buf (ws_writeCh c1) @ ys = ws_data c @ ch_buf (ws_writeCh c) @ xs @ ys" using cl by (metis append_assoc)
    show ?thesis using st [unfolded eq] False by (auto split: if_splits)
  qed
qed

lemma ws_run_closed:
  assumes "ws_run ctl enc hb c xs c'" "ws_ok prot c" "ws_closeOnce c"
  shows "ws_ok prot c' \<and> ws_closeOnce c' \<and> ws_data c' = ws_data c \<and> ws_calls c' = ws_calls c \<and> xs = []"
  using assms
proof (induction rule: ws_run.induct)
  case (ws_Step xs c1 ys c2)
  then show ?case using ws_step_result [OF ws_Step.hyps(2), of prot] by simp
qed simp

text \<open>As for TCP: one step closes, and calls the callbacks registered until then.\<close>

lemma ws_run_notifies:
  assumes "ws_run ctl enc hb c xs c'" "ws_ok prot c" "\<not> ws_closeOnce c" "ws_calls c = []"
  shows "if ws_closeOnce c'
    then \<exists>ys zs c1 c2 e. ws_run ctl enc hb c ys c1 \<and> \<not> ws_closeOnce c1 \<and> ws_step ctl enc hb c1 zs c2 \<and> ws_closeOnce c2 \<and> ws_run ctl enc hb c2 [] c' \<and>
      ws_calls c1 = [] \<and> ws_calls c2 = DispatchClose (ws_callbacks c1) e \<and> ws_calls c' = ws_calls c2
    else ws_calls c' = []"
  using assms
proof (induction rule: ws_run.induct)
  case (ws_Step xs c1 ys c2)
  have "ws_ok prot c1" using ws_run_result [OF ws_Step.hyps(1) ws_Step.prems(1,2)] by blast
  note nt = ws_step_result [OF ws_Step.hyps(2) this]
  show ?case
  proof (cases "ws_closeOnce c1")
    case True
    with nt have "ws_closeOnce c2" "ws_calls c2 = ws_calls c1" "ys = []" by simp_all
    with ws_Step.IH [OF ws_Step.prems] True show ?thesis using ws_run.ws_Step [OF _ ws_Step.hyps(2)] by fastforce
  next
    case False
    with ws_Step.IH [OF ws_Step.prems] have "ws_calls c1 = []" by simp
    then show ?thesis
      using nt False ws_Step.hyps ws_run.ws_Start by (cases "ws_closeOnce c2") fastforce+
  qed
qed simp

lemma dialWSConn_result:
  assumes "wf_dial o'" "mgr (hs_Version hs) = Some p"
  shows "\<exists>c :: ('h, 'i, 'b, 'cb, 'g) wsConn. dialWSConn mgr None uri hs o' = Some (uri\<lparr>url_RawQuery := ws_query (hs_Version hs)\<rparr>, Inr c) \<and> ws_ok p c \<and>
    \<not> ws_closeOnce c \<and> ws_sent c = [] \<and> ch_buf (ws_writeCh c) = [] \<and> ws_packetCh c = None \<and> ws_calls c = [] \<and> ws_dopts c = o' \<and> ws_callbacks c = newCloseCallback \<and>
    ws_qctx c = (NewContext ClientSide)\<lparr>ctx_Codec := hs_Codec hs, ctx_Platform := hs_Platform hs, ctx_Version := hs_Version hs\<rparr>"
  using assms
  by (auto simp: dialWSConn_def GetProtocol_def make_chan_def wf_dial_def ws_ok_def chan_fits_def chan_shut_def chan_ok_def Let_def)

subsection \<open>Properties\<close>

text \<open>
  C25. Messages are independent.  On a dialled WebSocket connection every binary or text message is unpacked on its own: the packet queue
  holds, up to its capacity and in order, exactly the packets of those messages that \<open>UnpackBytes\<close> accepts in the dialled context, and messages that it
  refuses are skipped without closing the connection or changing how later ones are read.
\<close>

theorem ws_v1_messages:
  assumes "wf_dial o'" "mgr (hs_Version hs) = Some (v1_protocol rb gz level zr pooled)"
    and "\<forall>(t, m) \<in> set ms. t = BinaryMessage \<or> t = TextMessage"
    and "ctx = (NewContext ClientSide :: (Header, 'i) Context)\<lparr>ctx_Codec := hs_Codec hs, ctx_Platform := hs_Platform hs, ctx_Version := hs_Version hs\<rparr>"
  shows "\<exists>uri' (c0 :: (Header, 'i, 'b, 'cb, 'g) wsConn) c1 c2 ch. dialWSConn mgr None uri hs o' = Some (uri', Inr c0) \<and> ws_OnPacket c0 = Some c1 \<and>
    ws_reading ctl enc hb c1 (map (\<lambda>(t, m). ([], Message t m)) ms) = Some c2 \<and> \<not> ws_closed c2 \<and> ws_packetCh c2 = Some ch \<and>
    ch_buf ch = take (nat (do_ReadQueueSize o')) (parsed (\<lambda>m. snd (the (protocolV1_UnpackBytes gz zr pooled ctx m))) (map snd ms))"
proof -
  let ?p = "v1_protocol rb gz level zr pooled"
  obtain uri' and c0 :: "(Header, 'i, 'b, 'cb, 'g) wsConn" where
    c0: "dialWSConn mgr None uri hs o' = Some (uri', Inr c0)" "ws_ok ?p c0" "\<not> ws_closeOnce c0" "ws_packetCh c0 = None"
      "ws_dopts c0 = o'" "ws_qctx c0 = ctx"
    unfolding assms(4) using dialWSConn_result [of o' mgr hs, OF assms(1,2)] by blast
  define ch where "ch = \<lparr>ch_buf = ([] :: Packet option list), ch_cap = nat (do_ReadQueueSize o'), ch_closed = False\<rparr>"
  define c1 where "c1 = c0\<lparr>ws_onPacketOnce := True, ws_packetCh := Some ch\<rparr>"
  have c1: "ws_OnPacket c0 = Some c1"
    using c0 assms(1) by (auto simp: ws_OnPacket_def make_chan_def c1_def ch_def ws_ok_def wf_dial_def)
  have ok: "ws_ok ?p c1" "\<not> ws_closeOnce c1" "ctx_Header (ws_qctx c1) = None" "ctx_Codec (ws_qctx c1) = ctx_Codec ctx"
    using c0 by (auto simp: c1_def ch_def ws_ok_def chan_fits_def chan_shut_def chan_ok_def assms(4))
  obtain c2 where c2: "ws_reading ctl enc hb c1 (map (\<lambda>(t, m). ([], Message t m)) ms) = Some c2" "ws_ok ?p c2" "\<not> ws_closeOnce c2"
    "ws_packetCh c2 = queued (ws_packetCh c1) (parsed (v1_parse gz zr (ctx_Codec ctx)) (map snd ms))"
    using v1_msg.ws_messages [OF ok(1-3) assms(3)] ok(4) by metis
  have "ctx_Header ctx = None" by (simp add: assms(4))
  then have "snd (the (protocolV1_UnpackBytes gz zr pooled ctx m)) = v1_parse gz zr (ctx_Codec ctx) m" for m
    by (simp add: protocolV1_UnpackBytes_eq v1_bytes_spec_codec)
  then show ?thesis
    using c0(1) c1 c2 ws_closed_iff [OF c2(2)]
    by (intro exI [of _ uri'] exI [of _ c0] exI [of _ c1] exI [of _ c2]) (simp add: queued_def c1_def ch_def)
qed

text \<open>
  C26. Control frames of WebSocket become packets.  On an open connection a ping whose pong is sent leaves the answer with the same data on the wire and puts a
  heartbeat request with these data and the next request id into the packet queue; if the pong cannot be sent, nothing changes and
  the error is returned.  A pong becomes a heartbeat response that carries the id in its data if there is one, and a close frame whose reason can be encoded a close
  push.  The client's classification recognises them as ping, pong and close.
\<close>

theorem ws_control_frames:
  assumes "ws_ok prot c" "\<not> ws_closed c"
    and "marshal enc (ctx_Codec (ws_qctx c)) (ControlClose (sint (word_of_int code :: 32 word)) reason) = Some (Inr data')"
  shows "(\<exists>p. ws_onPing ctl enc c data None =
        Some (c\<lparr>ws_sent := ws_sent c @ [(PongMessage, data)], ws_qctx := fst (NextReqId (ws_qctx c)),
                ws_packetCh := queued (ws_packetCh c) [Some p]\<rparr>, None) \<and>
        Packet_IsPing ctl p = Some True \<and> pk_Body p = data \<and> map_option md_RequestId (pk_Metadata p) = Some (snd (NextReqId (ws_qctx c)))) \<and>
    ws_onPing ctl enc c data (Some err) = Some (c, Some err) \<and>
    (\<exists>p. ws_onPong ctl enc hb c data = Some (c\<lparr>ws_packetCh := queued (ws_packetCh c) [Some p]\<rparr>, None) \<and>
        Packet_IsPong ctl p = Some True \<and> pk_Body p = data \<and>
        map_option md_RequestId (pk_Metadata p) = Some (case hb data of Inr (Some id') \<Rightarrow> id' | _ \<Rightarrow> 0)) \<and>
    (\<exists>p. ws_onClose ctl enc c code reason = Some (c\<lparr>ws_packetCh := queued (ws_packetCh c) [Some p]\<rparr>, None) \<and>
        Packet_IsClose ctl p = Some True \<and> pk_Body p = data')"
proof -
  have ok: "ws_ok prot (c\<lparr>ws_sent := x, ws_qctx := q\<rparr>)" "\<not> ws_closeOnce (c\<lparr>ws_sent := x, ws_qctx := q\<rparr>)"
    "ws_ok prot c" "\<not> ws_closeOnce c" for x q
    using assms ws_closed_iff by auto
  note add = ws_addPacket_queued(1) [OF ok(1,2)] ws_addPacket_queued(1) [OF ok(3,4)]
  have "\<exists>p. ws_onPing ctl enc c data None =
        Some (c\<lparr>ws_sent := ws_sent c @ [(PongMessage, data)], ws_qctx := fst (NextReqId (ws_qctx c)),
                ws_packetCh := queued (ws_packetCh c) [Some p]\<rparr>, None) \<and>
        Packet_IsPing ctl p = Some True \<and> pk_Body p = data \<and> map_option md_RequestId (pk_Metadata p) = Some (snd (NextReqId (ws_qctx c)))"
    by (intro exI [of _ "\<lparr>pk_Metadata = Some (Metadata_zero\<lparr>md_Type := RequestPacket, md_Codec := ctx_Codec (ws_qctx c),
          md_CmdCode := CMD_HEARTBEAT ctl, md_Values := Some Map.empty, md_RequestId := ctx_reqId (ws_qctx c) + 1\<rparr>), pk_Body = data\<rparr>"])
       (simp add: ws_onPing_def ws_WriteControl_def MustNewRequest_def must_def NewPacket_def NextReqId_def add packet_kind_defs
        WithRequestId_def Let_def)
  moreover have "ws_onPing ctl enc c data (Some err) = Some (c, Some err)" by (simp add: ws_onPing_def ws_WriteControl_def)
  moreover have "\<exists>p. ws_onPong ctl enc hb c data = Some (c\<lparr>ws_packetCh := queued (ws_packetCh c) [Some p]\<rparr>, None) \<and>
        Packet_IsPong ctl p = Some True \<and> pk_Body p = data \<and>
        map_option md_RequestId (pk_Metadata p) = Some (case hb data of Inr (Some id') \<Rightarrow> id' | _ \<Rightarrow> 0)"
    by (intro exI [of _ "\<lparr>pk_Metadata = Some (Metadata_zero\<lparr>md_Type := ResponsePacket, md_Codec := ctx_Codec (ws_qctx c),
          md_CmdCode := CMD_HEARTBEAT ctl, md_Values := Some Map.empty, md_StatusCode := 0,
          md_RequestId := case hb data of Inr (Some id') \<Rightarrow> id' | _ \<Rightarrow> 0\<rparr>), pk_Body = data\<rparr>"])
       (simp add: ws_onPong_def MustNewResponse_def must_def NewPacket_def add packet_kind_defs WithStatusCode_def Metadata_zero_def Let_def
        split: sum.split option.split)
  moreover have "\<exists>p. ws_onClose ctl enc c code reason = Some (c\<lparr>ws_packetCh := queued (ws_packetCh c) [Some p]\<rparr>, None) \<and>
        Packet_IsClose ctl p = Some True \<and> pk_Body p = data'"
    using assms(3)
    by (intro exI [of _ "\<lparr>pk_Metadata = Some (Metadata_zero\<lparr>md_Type := PushPacket, md_Codec := ctx_Codec (ws_qctx c),
          md_CmdCode := CMD_CLOSE ctl, md_Values := Some Map.empty\<rparr>), pk_Body = data'\<rparr>"])
       (simp add: ws_onClose_def MustNewPush_def must_def NewPacket_def add packet_kind_defs)
  ultimately show ?thesis by blast
qed


text \<open>Applications to the dial of the examples.\<close>

definition example_uri :: URL where
  "example_uri = \<lparr>url_Scheme = ''wss'', url_Host = ''example.com'', url_RawQuery = []\<rparr>"

definition example_control :: control where
  "example_control = \<lparr>CMD_CLOSE = 0, CMD_HEARTBEAT = 1, CMD_AUTH = 2, CMD_RECONNECT = 3\<rparr>"

text \<open>Any message is encoded as the empty body.\<close>

definition empty_enc :: "control_msg encoders" where
  "empty_enc = \<lparr>is_proto_msg = (\<lambda>_. True), json_Marshal = (\<lambda>_. Inr []), proto_Marshal = (\<lambda>_. Inr [])\<rparr>"

abbreviation example_ws :: "(URL \<times> (error + (Header, unit, circ, unit, unit) wsConn)) go" where
  "example_ws \<equiv> dialWSConn example_manager None example_uri example_handshake example_options"

theorem ws_v1_messages_witness:
  "\<exists>uri' c0 c1 c2 ch. example_ws = Some (uri', Inr c0) \<and> ws_OnPacket c0 = Some c1 \<and>
     ws_reading example_control empty_enc (\<lambda>_. Inr None) c1
       [([], Message BinaryMessage [255]), ([], Message TextMessage v1_example_frame)] = Some c2 \<and>
     ws_packetCh c2 = Some ch \<and> length (ch_buf ch) = 1"
proof -
  let ?ctx = "(NewContext ClientSide :: (Header, unit) Context)\<lparr>ctx_Codec := 1, ctx_Platform := 9, ctx_Version := 1\<rparr>"
  let ?md = "the (pk_Metadata v1_example)"
  have "the (v1_Header_UnpackBytes Header_zero [255]) = (set_flags Header_zero 255, Inl ErrUnknowPacket)" by code_simp
  then have bad: "snd (snd (v1_bytes_spec stored_gz None ?ctx [255])) = Some ErrUnknowPacket"
    by (simp add: v1_bytes_spec_def current_header_def Let_def)
  have g: "snd (snd (v1_bytes_spec stored_gz None ?ctx (v1_frame ?md (pk_Body v1_example)))) = None"
    by (subst v1_bytes_frame [where out = "[4, 5, 6]"])
       (simp_all add: v1_example_def known_ptype_def MaxBodyLength_def Metadata_zero_def maybe_gunzip_def)
  have "length (parsed (\<lambda>m. snd (the (protocolV1_UnpackBytes stored_gz None Header_zero ?ctx m))) [[255], v1_example_frame]) = 1"
    using bad g by (simp add: parsed_def protocolV1_UnpackBytes_eq v1_example_frame_def)
  moreover have "do_ReadQueueSize example_options = 16" by (simp add: example_options_def newDialOptions_def default_defs)
  ultimately show ?thesis
    using ws_v1_messages [OF example_facts(1), of example_manager example_handshake, OF example_facts(2) _ refl,
        of "[(BinaryMessage, [255]), (TextMessage, v1_example_frame)]" example_uri example_control empty_enc "\<lambda>_. Inr None"]
    by (fastforce simp: example_handshake_def)
qed

theorem ws_control_frames_witness:
  "\<exists>uri' c0 p q. example_ws = Some (uri', Inr c0) \<and>
     ws_onPing example_control empty_enc c0 [1] (Some ErrConnClosed) = Some (c0, Some ErrConnClosed) \<and>
     ws_onPing example_control empty_enc c0 [1] None =
       Some (c0\<lparr>ws_sent := [(PongMessage, [1])], ws_qctx := fst (NextReqId (ws_qctx c0)), ws_packetCh := queued (ws_packetCh c0) [Some p]\<rparr>, None) \<and>
     Packet_IsPing example_control p = Some True \<and> map_option md_RequestId (pk_Metadata p) = Some 1 \<and>
     ws_onPong example_control empty_enc (\<lambda>_. Inr (Some 7)) c0 [1] = Some (c0\<lparr>ws_packetCh := queued (ws_packetCh c0) [Some q]\<rparr>, None) \<and>
     map_option md_RequestId (pk_Metadata q) = Some 7"
proof -
  obtain uri' c0 where c0: "example_ws = Some (uri', Inr c0)"
    "ws_ok (v1_protocol circ_ops stored_gz 6 None Header_zero) c0" "\<not> ws_closeOnce c0" "ctx_Codec (ws_qctx c0) = 1"
    "ws_sent c0 = []" "ctx_reqId (ws_qctx c0) = 0"
    using dialWSConn_result [of example_options example_manager example_handshake, OF example_facts(1,2)]
    by (fastforce simp: example_handshake_def NewContext_def)
  have "\<not> ws_closed c0" using c0(3) ws_closed_iff [OF c0(2)] by simp
  moreover have "marshal empty_enc (ctx_Codec (ws_qctx c0)) (ControlClose (sint (word_of_int 1000 :: 32 word)) ''bye'') = Some (Inr [])"
    by (simp add: c0(4) marshal_def empty_enc_def CodecProtobuf_def)
  moreover have "snd (NextReqId (ws_qctx c0)) = 1" using c0(6) by (simp add: NextReqId_def)
  ultimately show ?thesis
    using c0(1,5) ws_control_frames [OF c0(2), of empty_enc 1000 "''bye''" "[]" example_control "[1]" ErrConnClosed "\<lambda>_. Inr (Some 7)"] by auto
qed


end
