(* ===== verification/Conn_Iface.thy ===== *)
theory Conn_Iface
  imports Ws_Conn
begin

text \<open>
  The interface between the client and a connection (\<open>ClientConn\<close> in \<open>go/client/client_conn.go\<close>).

  A value of the Go interface is a state and the record \<open>ClientConn\<close> of its methods.  \<open>Context()\<close> returns a pointer, through which the client
  draws request ids: \<open>cc_setContext\<close> is what such a write does to the connection.  \<open>Close\<close> also returns the calls of the
  close callbacks that it made.  The argument of type \<open>error option\<close> of \<open>cc_Write\<close> is the result of a control frame sent by a WebSocket connection.
  The locale \<open>client_conn\<close> is what the client relies on; it is interpreted for both kinds of connection and both protocol versions.
\<close>

record ('c, 'h, 'i, 'cb) ClientConn =
  cc_Close :: "'c \<Rightarrow> error option \<Rightarrow> ('c \<times> ('cb \<times> error option) list) go"
  cc_OnPacket :: "'c \<Rightarrow> 'c go"
  cc_Write :: "'c \<Rightarrow> Packet \<Rightarrow> PackOption list \<Rightarrow> error option \<Rightarrow> ('c \<times> Packet \<times> error option) go"
  cc_Context :: "'c \<Rightarrow> ('h, 'i) Context"
  cc_setContext :: "'c \<Rightarrow> ('h, 'i) Context \<Rightarrow> 'c"
  cc_NeedHandleControl :: "'c \<Rightarrow> bool"
  cc_OnClose :: "'c \<Rightarrow> 'cb \<Rightarrow> 'c"

definition tcp_ClientConn :: "(('h, 'i, 'b, 'cb, 'g) tcpConn, 'h, 'i, 'cb) ClientConn" where
  "tcp_ClientConn =
     \<lparr>cc_Close = (\<lambda>c err. do { c' \<leftarrow> tcp_Close c err; Some (c', drop (length (tc_calls c)) (tc_calls c')) }),
      cc_OnPacket = tcp_OnPacket,
      cc_Write = (\<lambda>c p popts _. tcp_Write c p popts),
      cc_Context = tcp_Context,
      cc_setContext = (\<lambda>c ctx. c\<lparr>tc_qctx := ctx\<rparr>),
      cc_NeedHandleControl = tcp_NeedHandleControl,
      cc_OnClose = tcp_OnClose\<rparr>"

definition ws_ClientConn :: "control \<Rightarrow> (('h, 'i, 'b, 'cb, 'g) wsConn, 'h, 'i, 'cb) ClientConn" where
  "ws_ClientConn ctl =
     \<lparr>cc_Close = (\<lambda>c err. do { c' \<leftarrow> ws_Close c err; Some (c', drop (length (ws_calls c)) (ws_calls c')) }),
      cc_OnPacket = ws_OnPacket,
      cc_Write = ws_Write ctl,
      cc_Context = ws_Context,
      cc_setContext = (\<lambda>c ctx. c\<lparr>ws_qctx := ctx\<rparr>),
      cc_NeedHandleControl = ws_NeedHandleControl,
      cc_OnClose = ws_OnClose\<rparr>"

locale client_conn =
  fixes cc :: "('c, 'h, 'i, 'cb) ClientConn" and ok :: "'c \<Rightarrow> bool" and closed :: "'c \<Rightarrow> bool" and cbs :: "'c \<Rightarrow> 'cb list"
  assumes Close: "ok c \<Longrightarrow> \<exists>c'. cc_Close cc c err = Some (c', if closed c then [] else map (\<lambda>cb. (cb, err)) (cbs c)) \<and>
        ok c' \<and> closed c' \<and> cbs c' = cbs c \<and> cc_Context cc c' = cc_Context cc c"
    and Write: "ok c \<Longrightarrow> pk_Metadata p = Some md \<Longrightarrow> \<exists>c' p' err md'. cc_Write cc c p popts res = Some (c', p', err) \<and> ok c' \<and>
        closed c' = closed c \<and> cbs c' = cbs c \<and> cc_Context cc c' = cc_Context cc c \<and>
        pk_Metadata p' = Some md' \<and> md_RequestId md' = md_RequestId md \<and> (closed c \<longrightarrow> err = Some ErrConnClosed)"
    and OnPacket: "ok c \<Longrightarrow> \<exists>c'. cc_OnPacket cc c = Some c' \<and> ok c' \<and> closed c' = closed c \<and> cbs c' = cbs c \<and>
        cc_Context cc c' = cc_Context cc c"
    and OnClose: "ok c \<Longrightarrow> ok (cc_OnClose cc c cb) \<and> closed (cc_OnClose cc c cb) = closed c \<and>
        cbs (cc_OnClose cc c cb) = cbs c @ [cb] \<and> cc_Context cc (cc_OnClose cc c cb) = cc_Context cc c"
    and setContext: "ok c \<Longrightarrow> ok (cc_setContext cc c ctx) \<and> closed (cc_setContext cc c ctx) = closed c \<and>
        cbs (cc_setContext cc c ctx) = cbs c \<and> cc_Context cc (cc_setContext cc c ctx) = ctx"

text \<open>What a connection needs of a protocol version: \<open>Pack\<close> does not panic and keeps the request id.\<close>

locale packing_protocol =
  fixes prot :: "('h, 'i, 'b) Protocol"
  assumes Pack: "pk_Metadata p = Some md \<Longrightarrow>
     \<exists>p' r md'. prot_Pack prot ctx p popts = Some (p', r) \<and> pk_Metadata p' = Some md' \<and> md_RequestId md' = md_RequestId md"

lemma protocolV1_Pack_metadata:
  assumes "pk_Metadata p = Some md"
  shows "\<exists>p' r md'. protocolV1_Pack gz level pooled p opts = Some (p', r) \<and> pk_Metadata p' = Some md' \<and>
    md_RequestId md' = md_RequestId md"
proof (cases "compresses opts (pk_Body p)")
  case True
  obtain z er where z: "gzip_Compress gz level (pk_Body p) = (z, er)" by fastforce
  show ?thesis
    using protocolV1_Pack_gzip [of p md opts gz level z pooled] True z assms
    by (cases er) (auto simp: compresses_def protocolV1_Pack_def)
next
  case False
  then show ?thesis
    using protocolV1_Pack_plain [of p md opts gz level pooled] assms by (auto simp: compresses_def)
qed

lemma protocolV2_Pack_metadata:
  assumes "pk_Metadata p = Some md"
  shows "\<exists>p' r md'. protocolV2_Pack ord gz level pooled p opts = Some (p', r) \<and> pk_Metadata p' = Some md' \<and>
    md_RequestId md' = md_RequestId md"
proof (cases "compresses opts (pk_Body p)")
  case True
  obtain z er where z: "gzip_Compress gz level (pk_Body p) = (z, er)" by fastforce
  show ?thesis
    using protocolV2_Pack_gzip [of p md opts gz level z ord pooled] protocolV2_Pack_fails [of p md opts gz level z _ ord pooled] True z assms
    by (cases er) auto
next
  case False
  then show ?thesis
    using protocolV2_Pack_plain [of p md opts ord gz level pooled] assms by auto
qed

interpretation v1_pack: packing_protocol "v1_protocol rb gz level zr pooled" for rb gz level zr pooled
  by unfold_locales (simp add: v1_protocol_def, metis protocolV1_Pack_metadata)

interpretation v2_pack: packing_protocol "v2_protocol rb uni rangeord gz level zr pooled" for rb uni rangeord gz level zr pooled
  by unfold_locales (simp add: v2_protocol_def, metis protocolV2_Pack_metadata)

context packing_protocol
begin

lemma tcp_client_conn: "client_conn tcp_ClientConn (tcp_ok valid prot) tcp_closed (\<lambda>c. callbacks (tc_callbacks c))"
proof (unfold_locales, goal_cases)
  case (1 c err)
  then show ?case
    using tcp_Close_ok [OF 1, of err] tcp_okD(4) [OF 1] tcp_okD(4) [of valid prot "tcp_shut c err"] tcp_shut_ok [OF 1, of err]
    by (auto simp: tcp_ClientConn_def tcp_Context_def DispatchClose_def) (simp_all add: tcp_shut_def DispatchClose_def)
next
  case (2 c p md popts res)
  obtain p' r md' where pk: "prot_Pack (tc_p c) (tc_qctx c) p popts = Some (p', r)" "pk_Metadata p' = Some md'"
    "md_RequestId md' = md_RequestId md"
    using Pack [OF 2(2), of "tc_qctx c" popts] tcp_okD(2) [OF 2(1)] by auto
  note cl = tcp_okD(4) [OF 2(1)]
  have same: "\<exists>c' q err md'. tcp_Write c p popts = Some (c', q, err) \<and> tc_callbacks c' = tc_callbacks c \<and> tc_qctx c' = tc_qctx c \<and>
      tcp_ok valid prot c' \<and> tc_closeOnce c' = tc_closeOnce c \<and>
      pk_Metadata q = Some md' \<and> md_RequestId md' = md_RequestId md \<and> (tc_closeOnce c \<longrightarrow> err = Some ErrConnClosed)"
  proof (cases "tc_closeOnce c")
    case True
    then show ?thesis using cl 2 by (simp add: tcp_Write_def)
  next
    case False
    show ?thesis
    proof (cases r)
      case (Inl e)
      then show ?thesis using cl False pk 2(1) by (simp add: tcp_Write_def)
    next
      case (Inr data)
      obtain c' e where "tcp_enqueue c data = Some (c', e)" "tcp_ok valid prot c'"
        "c' = c\<lparr>tc_writeCh := (tc_writeCh c)\<lparr>ch_buf := ch_buf (tc_writeCh c) @ (if e = None then [data] else [])\<rparr>\<rparr>"
        using tcp_enqueue_result [OF 2(1) False] by blast
      then show ?thesis using Inr cl False pk by (simp add: tcp_Write_def tcp_write_def)
    qed
  qed
  then show ?case using tcp_okD(4) cl by (fastforce simp: tcp_ClientConn_def tcp_Context_def)
next
  case (3 c)
  then show ?case
    using tcp_OnPacket_result [OF 3] tcp_okD(4) [OF 3]
    by (auto simp: tcp_ClientConn_def tcp_Context_def tcp_OnPacket_def bind_eq_Some_conv tcp_closed_def split: if_splits)
next
  case (4 c cb)
  then show ?case by (auto simp: tcp_ClientConn_def tcp_OnClose_def tcp_ok_def tcp_inv_def tcp_closed_def tcp_Context_def closeCallback_OnClose_def)
next
  case (5 c ctx)
  then show ?case by (simp add: tcp_ClientConn_def tcp_ok_def tcp_inv_def tcp_closed_def tcp_Context_def)
qed

lemma ws_client_conn: "client_conn (ws_ClientConn ctl) (ws_ok prot) ws_closed (\<lambda>c. callbacks (ws_callbacks c))"
proof (unfold_locales, goal_cases)
  case (1 c err)
  then show ?case
    using ws_Close_eq [OF 1, of err] ws_closed_iff [OF 1] ws_closed_iff [of prot "ws_shut c err"] ws_shut_ok [OF 1, of err]
    by (auto simp: ws_ClientConn_def ws_Context_def DispatchClose_def) (simp_all add: ws_shut_def DispatchClose_def)
next
  case (2 c p md popts res)
  obtain p' r md' where pk: "prot_Pack (ws_p c) (ws_qctx c) p popts = Some (p', r)" "pk_Metadata p' = Some md'"
    "md_RequestId md' = md_RequestId md"
    using Pack [OF 2(2), of "ws_qctx c" popts] 2(1) by (auto simp: ws_ok_def)
  note cl = ws_closed_iff [OF 2(1)]
  have "\<exists>c' q err md'. ws_Write ctl c p popts res = Some (c', q, err) \<and> pk_Metadata q = Some md' \<and> md_RequestId md' = md_RequestId md"
    using 2 pk cl
    by (auto simp: ws_Write_def ws_writePing_def ws_writeClose_def ws_write_def ws_enqueue_def ws_WriteControl_def packet_kind_defs try_send_def ws_ok_def
        split: sum.splits)
  then obtain c' q err md' where w: "ws_Write ctl c p popts res = Some (c', q, err)" "pk_Metadata q = Some md'" "md_RequestId md' = md_RequestId md"
    by blast
  from ws_Write_result [OF 2(1) w(1)] w show ?case
    using ws_closed_iff [of prot c'] cl by (auto simp: ws_ClientConn_def ws_Context_def)
next
  case (3 c)
  then show ?case
    using ws_OnPacket_result [OF 3] ws_closed_iff [OF 3]
    by (auto simp: ws_ClientConn_def ws_Context_def ws_OnPacket_def bind_eq_Some_conv ws_closed_def split: if_splits)
next
  case (4 c cb)
  then show ?case by (auto simp: ws_ClientConn_def ws_OnClose_def ws_ok_def ws_closed_def ws_Context_def closeCallback_OnClose_def)
next
  case (5 c ctx)
  then show ?case by (simp add: ws_ClientConn_def ws_ok_def ws_closed_def ws_Context_def)
qed

end

text \<open>Both kinds of connection with both versions, for any ring buffer.\<close>

interpretation tcp_v1: client_conn tcp_ClientConn "tcp_ok valid (v1_protocol rb gz level zr pooled)" tcp_closed "\<lambda>c. callbacks (tc_callbacks c)"
  for valid rb gz level zr pooled
  by (rule v1_pack.tcp_client_conn)

interpretation tcp_v2: client_conn tcp_ClientConn "tcp_ok valid (v2_protocol rb uni rangeord gz level zr pooled)" tcp_closed
    "\<lambda>c. callbacks (tc_callbacks c)"
  for valid rb uni rangeord gz level zr pooled
  by (rule v2_pack.tcp_client_conn)

interpretation ws_v1: client_conn "ws_ClientConn ctl" "ws_ok (v1_protocol rb gz level zr pooled)" ws_closed "\<lambda>c. callbacks (ws_callbacks c)"
  for ctl rb gz level zr pooled
  by (rule v1_pack.ws_client_conn)

interpretation ws_v2: client_conn "ws_ClientConn ctl" "ws_ok (v2_protocol rb uni rangeord gz level zr pooled)" ws_closed
    "\<lambda>c. callbacks (ws_callbacks c)"
  for ctl rb uni rangeord gz level zr pooled
  by (rule v2_pack.ws_client_conn)

end
