(* ===== verification/Client.thy ===== *)
theory Client
  imports Conn_Iface
    "HOL-Library.AList" "HOL-Library.Signed_Division"
begin

text \<open>
  The client (\<open>go/client/client.go\<close>, the client options of \<open>go/client/options.go\<close>).

  \<^item> The state is the record \<open>client\<close>.  The connection is a value of the type parameter \<open>'c\<close> with the methods \<open>cc\<close>.  Callbacks that the user
    registers are names of type \<open>'s\<close>; calling one appends an event to \<open>cl_log\<close>.  They are taken not to call back into the client.
  \<^item> The response channels live in \<open>cl_chans\<close> and are referred to by index, because \<open>recv\<close> and \<open>reconnect\<close> share them.
  \<^item> \<open>sync.RWMutex\<close>: locks of other goroutines are released in the end, locks that the running goroutine (or one that waits for it) holds itself are
    not.  \<open>cl_rheld\<close> counts the read locks of the running chain of calls; acquiring the write lock while it is positive
    blocks for good, which is the result \<open>Blocked\<close>.
  \<^item> What comes from outside (results of dialling and of tokens, packets that arrive while a request waits, the clock) are arguments.
    The endless reconnect loop takes the list of its attempts' environments and reports \<open>Trying\<close> when the list is used up.
  Logging is left out.
\<close>

subsection \<open>State\<close>

record AuthResponse =
  ar_SessionId :: string
  ar_Expires :: int

datatype 's event = PushTo 's Packet | PingTo 's Packet | PongTo 's Packet | ClosedTo 's "error option" | ReconnectedTo 's

datatype client_cb = OnConnClose

record ('c, 's, 'g, 'k, 'l) client =
  cl_Context :: "'k option"
  cl_Logger :: "'l option"
  cl_conn :: "'c option"
  cl_closeCh :: "unit chan"
  cl_onPing :: "'s option"
  cl_onPong :: "'s option"
  cl_onClose :: "'s option"
  cl_afterReconnected :: "'s option"
  cl_authInfo :: "AuthResponse option"
  cl_handshake :: Handshake
  cl_subs :: "32 word \<rightharpoonup> 's list"
  cl_recvs :: "(32 word \<times> nat) list"
  cl_chans :: "Packet option chan list"
  cl_lastKeepaliveId :: "32 word"
  cl_lastPongAt :: int
  cl_reconnectCount :: int
  cl_doReconnectting :: bool
  cl_addr :: URL
  cl_dialOptions :: "'g DialOptions"
  cl_connectMetadata :: "(bytes \<rightharpoonup> bytes) option"
  cl_log :: "'s event list"
  cl_rheld :: nat

datatype 'a outcome = Blocked 'a | Trying 'a | Returns 'a

subsection \<open>Construction and registration\<close>

type_synonym ('c, 's, 'g, 'k, 'l) ClientOption = "('c, 's, 'g, 'k, 'l) client \<Rightarrow> ('c, 's, 'g, 'k, 'l) client"

definition WithContext :: "'k option \<Rightarrow> ('c, 's, 'g, 'k, 'l) ClientOption" where
  "WithContext ctx = (\<lambda>c. c\<lparr>cl_Context := ctx\<rparr>)"

definition WithLogger :: "'l option \<Rightarrow> ('c, 's, 'g, 'k, 'l) ClientOption" where
  "WithLogger l = (\<lambda>c. c\<lparr>cl_Logger := l\<rparr>)"

definition WithConnectMetadata :: "(bytes \<rightharpoonup> bytes) option \<Rightarrow> ('c, 's, 'g, 'k, 'l) ClientOption" where
  "WithConnectMetadata m = (\<lambda>c. c\<lparr>cl_connectMetadata := m\<rparr>)"

definition Handshake_zero :: Handshake where
  "Handshake_zero = \<lparr>hs_Version = 0, hs_Codec = 0, hs_Platform = 0, hs_Reserve = 0\<rparr>"

definition URL_zero :: URL where
  "URL_zero = \<lparr>url_Scheme = [], url_Host = [], url_RawQuery = []\<rparr>"

text \<open>\<open>bg\<close> and \<open>lg\<close> are \<open>context.Background()\<close> and a default logger; the pointers that \<open>Dial\<close> sets hold placeholders before it.\<close>

definition New :: "'k \<Rightarrow> 'l \<Rightarrow> ('c, 's, 'g, 'k, 'l) ClientOption list \<Rightarrow> ('c, 's, 'g, 'k, 'l) client" where
  "New bg lg opts =
     (let c = \<lparr>cl_Context = None, cl_Logger = None, cl_conn = None,
               cl_closeCh = \<lparr>ch_buf = [], ch_cap = 0, ch_closed = False\<rparr>,
               cl_onPing = None, cl_onPong = None, cl_onClose = None, cl_afterReconnected = None, cl_authInfo = None,
               cl_handshake = Handshake_zero, cl_subs = Map.empty, cl_recvs = [], cl_chans = [], cl_lastKeepaliveId = 0,
               cl_lastPongAt = 0, cl_reconnectCount = 0, cl_doReconnectting = False, cl_addr = URL_zero,
               cl_dialOptions = newDialOptions [], cl_connectMetadata = None, cl_log = [], cl_rheld = 0\<rparr>;
          c = foldl (\<lambda>c opt. opt c) c opts;
          c = (if cl_Context c = None then c\<lparr>cl_Context := Some bg\<rparr> else c);
          c = (if cl_Logger c = None then c\<lparr>cl_Logger := Some lg\<rparr> else c)
      in c)"

definition AuthInfo :: "('c, 's, 'g, 'k, 'l) client \<Rightarrow> AuthResponse option" where
  "AuthInfo c = cl_authInfo c"

definition Subscribe :: "('c, 's, 'g, 'k, 'l) client \<Rightarrow> 32 word \<Rightarrow> 's \<Rightarrow> ('c, 's, 'g, 'k, 'l) client" where
  "Subscribe c cmd sub =
     (case cl_subs c cmd of
        None \<Rightarrow> c\<lparr>cl_subs := (cl_subs c)(cmd \<mapsto> [sub])\<rparr>
      | Some subs \<Rightarrow> c\<lparr>cl_subs := (cl_subs c)(cmd \<mapsto> subs @ [sub])\<rparr>)"

definition OnPing :: "('c, 's, 'g, 'k, 'l) client \<Rightarrow> 's \<Rightarrow> ('c, 's, 'g, 'k, 'l) client" where
  "OnPing c fn = c\<lparr>cl_onPing := Some fn\<rparr>"

definition OnPong :: "('c, 's, 'g, 'k, 'l) client \<Rightarrow> 's \<Rightarrow> ('c, 's, 'g, 'k, 'l) client" where
  "OnPong c fn = c\<lparr>cl_onPong := Some fn\<rparr>"

definition OnClose :: "('c, 's, 'g, 'k, 'l) client \<Rightarrow> 's \<Rightarrow> ('c, 's, 'g, 'k, 'l) client" where
  "OnClose c fn = c\<lparr>cl_onClose := Some fn\<rparr>"

definition AfterReconnected :: "('c, 's, 'g, 'k, 'l) client \<Rightarrow> 's \<Rightarrow> ('c, 's, 'g, 'k, 'l) client" where
  "AfterReconnected c fn = c\<lparr>cl_afterReconnected := Some fn\<rparr>"

definition notify :: "('s \<Rightarrow> 's event) \<Rightarrow> 's option \<Rightarrow> ('c, 's, 'g, 'k, 'l) client \<Rightarrow> ('c, 's, 'g, 'k, 'l) client" where
  "notify ev fn c = (case fn of None \<Rightarrow> c | Some f \<Rightarrow> c\<lparr>cl_log := cl_log c @ [ev f]\<rparr>)"

subsection \<open>Requests\<close>

text \<open>Messages: those of the control package and the user's.  Libraries of the client: command numbers, codecs, letter case of non-ASCII text.\<close>

datatype 'u message = CtlMsg control_msg | UserMsg 'u

record 'u client_lib =
  lib_ctl :: control
  lib_enc :: "'u message encoders"
  lib_uni :: "bytes \<Rightarrow> bytes"
  lib_err :: "control_Error decoders"
  lib_auth :: "AuthResponse decoders"

text \<open>The metadata of a request in the order in which \<open>range\<close> visits it.\<close>

record 'u Request =
  rq_Cmd :: "32 word"
  rq_Body :: "'u message option"
  rq_Metadata :: "(bytes \<times> bytes) list"

definition client_write ::
    "('c, 'h, 'i, client_cb) ClientConn \<Rightarrow> ('c, 's, 'g, 'k, 'l) client \<Rightarrow> Packet \<Rightarrow> error option
     \<Rightarrow> (('c, 's, 'g, 'k, 'l) client \<times> Packet \<times> error option) go" where
  "client_write cc c p res = do {
     conn \<leftarrow> cl_conn c;
     (conn, p, err) \<leftarrow> cc_Write cc conn p [GzipSize (do_MinGzipSize (cl_dialOptions c))] res;
     Some (c\<lparr>cl_conn := Some conn\<rparr>, p, err) }"

fun set_all :: "(bytes \<Rightarrow> bytes) \<Rightarrow> Packet \<Rightarrow> (bytes \<times> bytes) list \<Rightarrow> Packet go" where
  "set_all uni p [] = Some p"
| "set_all uni p ((k, v) # kvs) = do { p \<leftarrow> SetMetadata uni p k v; set_all uni p kvs }"

text \<open>\<open>Do\<close> up to the call of \<open>recv\<close>: the request id, or the error.\<close>

definition do_request ::
    "'u client_lib \<Rightarrow> ('c, 'h, 'i, client_cb) ClientConn \<Rightarrow> ('c, 's, 'g, 'k, 'l) client \<Rightarrow> 'u Request \<Rightarrow> error option
     \<Rightarrow> (('c, 's, 'g, 'k, 'l) client \<times> (error + 32 word)) go" where
  "do_request lib cc c req res = do {
     conn \<leftarrow> cl_conn c;
     (ctx, rp, e) \<leftarrow> NewRequest (lib_enc lib) (cc_Context cc conn) (rq_Cmd req)
                       (case rq_Body req of None \<Rightarrow> NilBody | Some m \<Rightarrow> MsgBody m) [];
     let c = c\<lparr>cl_conn := Some (cc_setContext cc conn ctx)\<rparr>;
     (case e of
        Some err \<Rightarrow> Some (c, Inl err)
      | None \<Rightarrow> do {
          rp \<leftarrow> set_all (lib_uni lib) rp (rq_Metadata req);
          (c, rp, err) \<leftarrow> client_write cc c rp res;
          (case err of
             Some err \<Rightarrow> Some (c, Inl err)
           | None \<Rightarrow> do { md \<leftarrow> pk_Metadata rp; Some (c, Inr (md_RequestId md)) }) }) }"

text \<open>\<open>recv\<close> before and after its \<open>select\<close>; \<open>h\<close> is the local variable \<open>ch\<close>.\<close>

definition recv_begin ::
    "('c, 's, 'g, 'k, 'l) client \<Rightarrow> 32 word \<Rightarrow> ('c, 's, 'g, 'k, 'l) client \<times> nat" where
  "recv_begin c rid =
     (let h = length (cl_chans c);
          ch = \<lparr>ch_buf = [], ch_cap = 1, ch_closed = False\<rparr>
      in (c\<lparr>cl_chans := cl_chans c @ [ch], cl_recvs := AList.update rid h (cl_recvs c)\<rparr>, h))"

definition timeout_error :: "32 word \<Rightarrow> error" where
  "timeout_error rid = ErrNew (''wait for '' @ fmt_d (unat rid) @ '' response timeout'')"

text \<open>The \<open>select\<close> waits until the channel or the deadline is ready; \<open>late\<close> says that the deadline was taken though the channel was ready.\<close>

definition recv_end ::
    "('c, 's, 'g, 'k, 'l) client \<Rightarrow> 32 word \<Rightarrow> nat \<Rightarrow> bool
     \<Rightarrow> (('c, 's, 'g, 'k, 'l) client \<times> Packet option \<times> error option) go" where
  "recv_end c rid h late = do {
     ch \<leftarrow> idx (cl_chans c) h;
     let (ch, res, err) = (if late then (ch, None, Some (timeout_error rid))
       else case try_recv ch of
              Got p ch \<Rightarrow> (ch, p, None)
            | Closed \<Rightarrow> (ch, None, None)
            | Blocks \<Rightarrow> (ch, None, Some (timeout_error rid)));
     let c = c\<lparr>cl_recvs := AList.delete rid (cl_recvs c)\<rparr>;
     ch \<leftarrow> close_chan ch;
     Some (c\<lparr>cl_chans := (cl_chans c)[h := ch]\<rparr>, res, err) }"

definition handleResponse ::
    "('c, 's, 'g, 'k, 'l) client \<Rightarrow> Packet \<Rightarrow> ('c, 's, 'g, 'k, 'l) client go" where
  "handleResponse c packet = do {
     md \<leftarrow> pk_Metadata packet;
     (case map_of (cl_recvs c) (md_RequestId md) of
        None \<Rightarrow> Some c
      | Some h \<Rightarrow> do {
          ch \<leftarrow> idx (cl_chans c) h;
          (ch, sent) \<leftarrow> try_send ch (Some packet);
          Some (c\<lparr>cl_chans := (cl_chans c)[h := ch]\<rparr>) }) }"

fun handleResponses ::
    "('c, 's, 'g, 'k, 'l) client \<Rightarrow> Packet list \<Rightarrow> ('c, 's, 'g, 'k, 'l) client go" where
  "handleResponses c [] = Some c"
| "handleResponses c (p # ps) = do { c \<leftarrow> handleResponse c p; handleResponses c ps }"

text \<open>
  What happens around one call of \<open>Do\<close>: the result of a control frame, the responses that are handled after the request was written and before \<open>recv\<close>
  has registered its channel, those that are handled while it waits, which case \<open>select\<close> takes.
\<close>

record do_env =
  de_res :: "error option"
  de_early :: "Packet list"
  de_in :: "Packet list"
  de_late :: bool

definition client_Do ::
    "'u client_lib \<Rightarrow> ('c, 'h, 'i, client_cb) ClientConn \<Rightarrow> ('c, 's, 'g, 'k, 'l) client \<Rightarrow> 'u Request \<Rightarrow> do_env
     \<Rightarrow> (('c, 's, 'g, 'k, 'l) client \<times> Packet option \<times> error option) go" where
  "client_Do lib cc c req env = do {
     let c = c\<lparr>cl_rheld := cl_rheld c + 1\<rparr>;
     (c, r) \<leftarrow> do_request lib cc c req (de_res env);
     (c, res, err) \<leftarrow> (case r of
        Inl err \<Rightarrow> Some (c, None, Some err)
      | Inr rid \<Rightarrow> do {
          c \<leftarrow> handleResponses c (de_early env);
          let (c, h) = recv_begin c rid;
          c \<leftarrow> handleResponses c (de_in env);
          (c, res, err) \<leftarrow> recv_end c rid h (de_late env);
          (case err of
             Some e \<Rightarrow> Some (c, res, Some e)
           | None \<Rightarrow> do { p \<leftarrow> res; e \<leftarrow> Packet_Err (lib_err lib) p; Some (c, res, e) }) });
     Some (c\<lparr>cl_rheld := cl_rheld c - 1\<rparr>, res, err) }"

subsection \<open>Authentication\<close>

text \<open>The environment of \<open>auth\<close>: what the token getter returns, and the environment of its request.\<close>

record auth_env =
  ae_token :: "error + string"
  ae_do :: do_env

definition auth ::
    "'u client_lib \<Rightarrow> ('c, 'h, 'i, client_cb) ClientConn \<Rightarrow> ('c, 's, 'g, 'k, 'l) client \<Rightarrow> auth_env
     \<Rightarrow> (('c, 's, 'g, 'k, 'l) client \<times> error option) go" where
  "auth lib cc c env =
     (if do_AuthTokenGetter (cl_dialOptions c) = None then Some (c, None)
      else (case ae_token env of
        Inl err \<Rightarrow> Some (c, Some err)
      | Inr token \<Rightarrow> do {
          (c, res, err) \<leftarrow> client_Do lib cc c
             \<lparr>rq_Cmd = CMD_AUTH (lib_ctl lib), rq_Body = Some (CtlMsg (AuthRequest token (cl_connectMetadata c))), rq_Metadata = []\<rparr>
             (ae_do env);
          (case err of
             Some e \<Rightarrow> Some (c, Some (ErrWrap e ''do auth''))
           | None \<Rightarrow> do {
               p \<leftarrow> res;
               r \<leftarrow> Packet_Unmarshal (lib_auth lib) p;
               (case r of
                  Inl e \<Rightarrow> Some (c, Some (ErrWrap e ''auth unmarshal res''))
                | Inr info \<Rightarrow> Some (c\<lparr>cl_authInfo := Some info\<rparr>, None)) }) }))"

text \<open>Times are nanoseconds since the epoch; Go's \<open>/\<close> and \<open>%\<close> truncate.\<close>

definition time_Unix :: "int \<Rightarrow> int \<Rightarrow> int" where
  "time_Unix sec nsec = sec * time_Second + nsec"

definition isAuthExpired :: "('c, 's, 'g, 'k, 'l) client \<Rightarrow> int \<Rightarrow> bool" where
  "isAuthExpired c now =
     (case cl_authInfo c of
        None \<Rightarrow> True
      | Some info \<Rightarrow>
          let expireAt = time_Unix (ar_Expires info sdiv 1000 - 10) (ar_Expires info smod 1000 * 1000000)
          in now - expireAt \<ge> 0)"

record reconnect_env =
  re_do :: do_env
  re_auth :: auth_env

definition reconnectDial ::
    "'u client_lib \<Rightarrow> ('c, 'h, 'i, client_cb) ClientConn \<Rightarrow> ('c, 's, 'g, 'k, 'l) client \<Rightarrow> reconnect_env
     \<Rightarrow> (('c, 's, 'g, 'k, 'l) client \<times> error option) go" where
  "reconnectDial lib cc c env = do {
     info \<leftarrow> cl_authInfo c;
     (c, res, err) \<leftarrow> client_Do lib cc c
        \<lparr>rq_Cmd = CMD_RECONNECT (lib_ctl lib), rq_Body = Some (CtlMsg (ReconnectRequest (ar_SessionId info) (cl_connectMetadata c))),
         rq_Metadata = []\<rparr> (re_do env);
     (case err of
        Some e \<Rightarrow> Some (c, Some (ErrWrap e ''reconnect request''))
      | None \<Rightarrow> do {
          p \<leftarrow> res;
          code \<leftarrow> Packet_StatusCode p;
          (if code = StatusUnauthenticated then auth lib cc c (re_auth env)
           else do {
             r \<leftarrow> Packet_Unmarshal (lib_auth lib) p;
             (case r of
                Inl e \<Rightarrow> Some (c, Some (ErrWrap e ''reconnect unmarshal''))
              | Inr info \<Rightarrow> Some (c\<lparr>cl_authInfo := Some info, cl_reconnectCount := 0, cl_lastKeepaliveId := 0\<rparr>, None)) }) }) }"

subsection \<open>Dialling and closing\<close>

text \<open>A dialer gets the address, the handshake, the options and what the network does; it may change the address.\<close>

type_synonym ('c, 'g, 'e) dialer = "URL \<Rightarrow> Handshake \<Rightarrow> 'g DialOptions \<Rightarrow> 'e \<Rightarrow> (URL \<times> (error + 'c)) go"

definition client_dial ::
    "('c, 'h, 'i, client_cb) ClientConn \<Rightarrow> ('c, 'g, 'e) dialer \<Rightarrow> ('c, 's, 'g, 'k, 'l) client \<Rightarrow> 'e
     \<Rightarrow> (('c, 's, 'g, 'k, 'l) client \<times> error option) outcome go" where
  "client_dial cc dialer c e =
     (if cl_rheld c > 0 then Some (Blocked (c, None))
      else do {
        (uri, r) \<leftarrow> dialer (cl_addr c) (cl_handshake c) (cl_dialOptions c) e;
        let c = c\<lparr>cl_addr := uri\<rparr>;
        (case r of
           Inl err \<Rightarrow> Some (Returns (c\<lparr>cl_conn := None\<rparr>, Some err))
         | Inr conn \<Rightarrow> do {
             conn \<leftarrow> cc_OnPacket cc conn;
             Some (Returns (c\<lparr>cl_conn := Some (cc_OnClose cc conn OnConnClose)\<rparr>, None)) }) })"

definition client_closed :: "('c, 's, 'g, 'k, 'l) client \<Rightarrow> bool" where
  "client_closed c = (case try_recv (cl_closeCh c) of Blocks \<Rightarrow> False | _ \<Rightarrow> True)"

text \<open>
  The start of \<open>reconnecting\<close>: it goes on only if nobody else does.  \<open>nested\<close> is a callback \<open>onConnClose\<close> that runs while
  \<open>doReconnectting\<close> is set or the client is closed: it returns at the start, unless it waits for a lock.
\<close>

definition reconnecting_enter :: "('c, 's, 'g, 'k, 'l) client \<Rightarrow> (('c, 's, 'g, 'k, 'l) client \<times> bool) outcome" where
  "reconnecting_enter c =
     (if cl_rheld c > 0 then Blocked (c, False)
      else if cl_doReconnectting c then Returns (c, False)
      else Returns (c\<lparr>cl_doReconnectting := True\<rparr>, True))"

definition nested :: "('c, 's, 'g, 'k, 'l) client \<Rightarrow> ('c, 's, 'g, 'k, 'l) client outcome" where
  "nested c =
     (if client_closed c then Returns c
      else (case reconnecting_enter c of
              Returns (c, False) \<Rightarrow> Returns c
            | Returns (c, True) \<Rightarrow> Trying c
            | Blocked (c, _) \<Rightarrow> Blocked c
            | Trying (c, _) \<Rightarrow> Trying c))"

fun run_nested :: "('c, 's, 'g, 'k, 'l) client \<Rightarrow> (client_cb \<times> error option) list \<Rightarrow> ('c, 's, 'g, 'k, 'l) client outcome" where
  "run_nested c [] = Returns c"
| "run_nested c ((OnConnClose, err) # calls) =
     (case nested c of Returns c \<Rightarrow> run_nested c calls | r \<Rightarrow> r)"

definition close_conn ::
    "('c, 'h, 'i, client_cb) ClientConn \<Rightarrow> ('c, 's, 'g, 'k, 'l) client \<Rightarrow> error
     \<Rightarrow> ('c, 's, 'g, 'k, 'l) client outcome go" where
  "close_conn cc c err =
     (case cl_conn c of
        None \<Rightarrow> Some (Returns c)
      | Some conn \<Rightarrow> do {
          (conn, calls) \<leftarrow> cc_Close cc conn (Some err);
          Some (run_nested (c\<lparr>cl_conn := Some conn\<rparr>) calls) })"

definition client_Close ::
    "('c, 'h, 'i, client_cb) ClientConn \<Rightarrow> ('c, 's, 'g, 'k, 'l) client \<Rightarrow> error option
     \<Rightarrow> ('c, 's, 'g, 'k, 'l) client outcome go" where
  "client_Close cc c err = do {
     closeCh \<leftarrow> close_chan (cl_closeCh c);
     let c = c\<lparr>cl_closeCh := closeCh, cl_rheld := cl_rheld c + 1\<rparr>;
     r \<leftarrow> close_conn cc c (ErrNew ''close by client'');
     (case r of
        Returns c \<Rightarrow> Some (Returns (notify (\<lambda>f. ClosedTo f err) (cl_onClose c) (c\<lparr>cl_rheld := cl_rheld c - 1\<rparr>)))
      | r \<Rightarrow> Some r) }"

subsection \<open>Reconnecting\<close>

fun close_all :: "Packet option chan list \<Rightarrow> (32 word \<times> nat) list \<Rightarrow> Packet option chan list go" where
  "close_all chans [] = Some chans"
| "close_all chans ((rid, h) # recvs) = do {
     ch \<leftarrow> idx chans h;
     ch \<leftarrow> close_chan ch;
     close_all (chans[h := ch]) recvs }"

text \<open>The environment of an attempt: the network, the time after dialling, the requests.\<close>

record 'e attempt =
  at_dial :: 'e
  at_now :: int
  at_auth :: auth_env
  at_reconnect :: reconnect_env

definition reconnect ::
    "'u client_lib \<Rightarrow> ('c, 'h, 'i, client_cb) ClientConn \<Rightarrow> ('c, 'g, 'e) dialer dialers \<Rightarrow> ('c, 's, 'g, 'k, 'l) client \<Rightarrow> 'e attempt
     \<Rightarrow> (('c, 's, 'g, 'k, 'l) client \<times> error option) outcome go" where
  "reconnect lib cc ds c at =
     (if do_MaxReconnect (cl_dialOptions c) > 0 \<and> cl_reconnectCount c \<ge> do_MaxReconnect (cl_dialOptions c)
      then Some (Returns (c, Some ErrHitMaxReconnect))
      else do {
        let c = c\<lparr>cl_reconnectCount := cl_reconnectCount c + 1\<rparr>;
        r \<leftarrow> close_conn cc c (ErrNew ''close old conn for reconnect'');
        (case r of
           Blocked c \<Rightarrow> Some (Blocked (c, None))
         | Trying c \<Rightarrow> Some (Trying (c, None))
         | Returns c \<Rightarrow> do {
             chans \<leftarrow> close_all (cl_chans c) (cl_recvs c);
             let c = c\<lparr>cl_chans := chans, cl_recvs := []\<rparr>;
             dialer \<leftarrow> fst (GetDialer ds (url_Scheme (cl_addr c)));
             r \<leftarrow> client_dial cc dialer c (at_dial at);
             (case r of
                Returns (c, None) \<Rightarrow>
                  if cl_authInfo c = None then Some (Returns (c, None))
                  else if isAuthExpired c (at_now at) then do {
                    (c, e) \<leftarrow> auth lib cc c (at_auth at); Some (Returns (c, e)) }
                  else do {
                    (c, e) \<leftarrow> reconnectDial lib cc c (at_reconnect at); Some (Returns (c, e)) }
              | r \<Rightarrow> Some r) }) })"

text \<open>The loop of \<open>reconnecting\<close> over the attempts.\<close>

fun reconnect_loop ::
    "'u client_lib \<Rightarrow> ('c, 'h, 'i, client_cb) ClientConn \<Rightarrow> ('c, 'g, 'e) dialer dialers \<Rightarrow> ('c, 's, 'g, 'k, 'l) client \<Rightarrow> 'e attempt list
     \<Rightarrow> ('c, 's, 'g, 'k, 'l) client outcome go" where
  "reconnect_loop lib cc ds c [] = Some (Trying c)"
| "reconnect_loop lib cc ds c (at # ats) = do {
     r \<leftarrow> reconnect lib cc ds c at;
     (case r of
        Blocked (c, _) \<Rightarrow> Some (Blocked c)
      | Trying (c, _) \<Rightarrow> Some (Trying c)
      | Returns (c, None) \<Rightarrow> Some (Returns (notify ReconnectedTo (cl_afterReconnected c) c))
      | Returns (c, Some err) \<Rightarrow>
          if err = ErrHitMaxReconnect then client_Close cc c (Some err)
          else reconnect_loop lib cc ds c ats) }"

definition reconnecting ::
    "'u client_lib \<Rightarrow> ('c, 'h, 'i, client_cb) ClientConn \<Rightarrow> ('c, 'g, 'e) dialer dialers \<Rightarrow> ('c, 's, 'g, 'k, 'l) client \<Rightarrow> 'e attempt list
     \<Rightarrow> ('c, 's, 'g, 'k, 'l) client outcome go" where
  "reconnecting lib cc ds c ats =
     (case reconnecting_enter c of
        Blocked (c, _) \<Rightarrow> Some (Blocked c)
      | Trying (c, _) \<Rightarrow> Some (Trying c)
      | Returns (c, False) \<Rightarrow> Some (Returns c)
      | Returns (c, True) \<Rightarrow> do {
          r \<leftarrow> reconnect_loop lib cc ds c ats;
          (case r of
             Returns c \<Rightarrow> Some (Returns (c\<lparr>cl_doReconnectting := False\<rparr>))
           | r \<Rightarrow> Some r) })"

definition onConnClose ::
    "'u client_lib \<Rightarrow> ('c, 'h, 'i, client_cb) ClientConn \<Rightarrow> ('c, 'g, 'e) dialer dialers \<Rightarrow> ('c, 's, 'g, 'k, 'l) client
     \<Rightarrow> error option \<Rightarrow> 'e attempt list \<Rightarrow> ('c, 's, 'g, 'k, 'l) client outcome go" where
  "onConnClose lib cc ds c err ats =
     (if client_closed c then Some (Returns c) else reconnecting lib cc ds c ats)"

subsection \<open>Handlers\<close>

text \<open>The reason of a close packet is only logged; reading it may panic on a packet without metadata.\<close>

definition closeByServer ::
    "'u client_lib \<Rightarrow> ('c, 'h, 'i, client_cb) ClientConn \<Rightarrow> ('c, 'g, 'e) dialer dialers \<Rightarrow> ('c, 's, 'g, 'k, 'l) client
     \<Rightarrow> Packet \<Rightarrow> 'e attempt list \<Rightarrow> ('c, 's, 'g, 'k, 'l) client outcome go" where
  "closeByServer lib cc ds c packet ats = do {
     _ \<leftarrow> pk_Metadata packet;
     r \<leftarrow> close_conn cc (c\<lparr>cl_rheld := cl_rheld c + 1\<rparr>) (ErrNew ''close by server'');
     (case r of
        Returns c \<Rightarrow> reconnecting lib cc ds (c\<lparr>cl_rheld := cl_rheld c - 1\<rparr>) ats
      | r \<Rightarrow> Some r) }"

definition handlePush :: "('c, 's, 'g, 'k, 'l) client \<Rightarrow> Packet \<Rightarrow> ('c, 's, 'g, 'k, 'l) client go" where
  "handlePush c packet = do {
     cmd \<leftarrow> Packet_CMD packet;
     (case cl_subs c cmd of
        None \<Rightarrow> Some c
      | Some subs \<Rightarrow> Some (c\<lparr>cl_log := cl_log c @ map (\<lambda>sub. PushTo sub packet) subs\<rparr>)) }"

definition handlePing ::
    "'u client_lib \<Rightarrow> ('c, 'h, 'i, client_cb) ClientConn \<Rightarrow> ('c, 's, 'g, 'k, 'l) client \<Rightarrow> Packet \<Rightarrow> error option
     \<Rightarrow> ('c, 's, 'g, 'k, 'l) client go" where
  "handlePing lib cc c packet res = do {
     let c = notify (\<lambda>f. PingTo f packet) (cl_onPing c) c;
     conn \<leftarrow> cl_conn c;
     (if \<not> cc_NeedHandleControl cc conn then Some c
      else do {
        md \<leftarrow> pk_Metadata packet;
        (p, _) \<leftarrow> NewResponse (lib_enc lib) (cc_Context cc conn) (CMD_HEARTBEAT (lib_ctl lib)) StatusSuccess
                     (BytesBody (pk_Body packet)) [WithRequestId (md_RequestId md)];
        (c, _, err) \<leftarrow> client_write cc c p res;
        Some c }) }"

definition handlePong :: "('c, 's, 'g, 'k, 'l) client \<Rightarrow> Packet \<Rightarrow> int \<Rightarrow> ('c, 's, 'g, 'k, 'l) client" where
  "handlePong c packet now = (notify (\<lambda>f. PongTo f packet) (cl_onPong c) c)\<lparr>cl_lastPongAt := now\<rparr>"

text \<open>The environment of a packet's handler: the clock, the result of a control frame, the attempts if it reconnects.\<close>

record 'e packet_env =
  pe_now :: int
  pe_res :: "error option"
  pe_attempts :: "'e attempt list"

definition returns :: "'a go \<Rightarrow> 'a outcome go" where
  "returns r = map_option Returns r"

definition handleControl ::
    "'u client_lib \<Rightarrow> ('c, 'h, 'i, client_cb) ClientConn \<Rightarrow> ('c, 'g, 'e) dialer dialers \<Rightarrow> ('c, 's, 'g, 'k, 'l) client
     \<Rightarrow> Packet \<Rightarrow> 'e packet_env \<Rightarrow> ('c, 's, 'g, 'k, 'l) client outcome go" where
  "handleControl lib cc ds c packet env = do {
     ping \<leftarrow> Packet_IsPing (lib_ctl lib) packet;
     pong \<leftarrow> Packet_IsPong (lib_ctl lib) packet;
     cls \<leftarrow> Packet_IsClose (lib_ctl lib) packet;
     ath \<leftarrow> Packet_IsAuth (lib_ctl lib) packet;
     rec \<leftarrow> Packet_IsReconnect (lib_ctl lib) packet;
     (if ping then returns (handlePing lib cc c packet (pe_res env))
      else if pong then Some (Returns (handlePong c packet (pe_now env)))
      else if cls then closeByServer lib cc ds c packet (pe_attempts env)
      else if ath \<or> rec then returns (handleResponse c packet)
      else Some (Returns c)) }"

definition onPacket ::
    "'u client_lib \<Rightarrow> ('c, 'h, 'i, client_cb) ClientConn \<Rightarrow> ('c, 'g, 'e) dialer dialers \<Rightarrow> ('c, 's, 'g, 'k, 'l) client
     \<Rightarrow> Packet option \<Rightarrow> error option \<Rightarrow> 'e packet_env \<Rightarrow> ('c, 's, 'g, 'k, 'l) client outcome go" where
  "onPacket lib cc ds c packet err env =
     (if err \<noteq> None then reconnecting lib cc ds c (pe_attempts env)
      else do {
        packet \<leftarrow> packet;
        md \<leftarrow> pk_Metadata packet;
        control \<leftarrow> Packet_IsControl (lib_ctl lib) packet;
        (if control then handleControl lib cc ds c packet env
         else if md_Type md = PushPacket then returns (handlePush c packet)
         else if md_Type md = ResponsePacket then returns (handleResponse c packet)
         else Some (Returns c)) })"

subsection \<open>Keepalive\<close>

definition keepalive_check :: "('c, 's, 'g, 'k, 'l) client \<Rightarrow> int \<Rightarrow> bool" where
  "keepalive_check c now =
     (if cl_lastKeepaliveId c = 0 then True
      else \<not> (now - cl_lastPongAt c > do_KeepaliveTimeout (cl_dialOptions c)))"

definition keepalive_ping ::
    "'u client_lib \<Rightarrow> ('c, 'h, 'i, client_cb) ClientConn \<Rightarrow> ('c, 's, 'g, 'k, 'l) client \<Rightarrow> int \<Rightarrow> error option
     \<Rightarrow> (('c, 's, 'g, 'k, 'l) client \<times> error option) go" where
  "keepalive_ping lib cc c now res =
     (if cl_doReconnectting c then Some (c, None)
      else (case cl_conn c of
        None \<Rightarrow> Some (c, None)
      | Some conn \<Rightarrow> do {
          let (ctx, id') = NextReqId (cc_Context cc conn);
          let conn = cc_setContext cc conn ctx;
          let c = c\<lparr>cl_conn := Some conn\<rparr>;
          (p, err) \<leftarrow> NewPacket (lib_enc lib) (cc_Context cc conn) RequestPacket (CMD_HEARTBEAT (lib_ctl lib))
                        (MsgBody (CtlMsg (Heartbeat (now sdiv 1000000) (Some id')))) [WithRequestId id'];
          (case err of
             Some e \<Rightarrow> Some (c, Some e)
           | None \<Rightarrow> do {
               (c, _, err) \<leftarrow> client_write cc c p res;
               (case err of
                  Some e \<Rightarrow> Some (c, Some e)
                | None \<Rightarrow> Some (c\<lparr>cl_lastKeepaliveId := id'\<rparr>, None)) }) }))"

text \<open>The goroutine starts by taking the time; one iteration of its loop for a tick of the timer.\<close>

definition keepalive_start :: "('c, 's, 'g, 'k, 'l) client \<Rightarrow> int \<Rightarrow> ('c, 's, 'g, 'k, 'l) client" where
  "keepalive_start c now = c\<lparr>cl_lastPongAt := now\<rparr>"

definition keepalive_tick ::
    "'u client_lib \<Rightarrow> ('c, 'h, 'i, client_cb) ClientConn \<Rightarrow> ('c, 'g, 'e) dialer dialers \<Rightarrow> ('c, 's, 'g, 'k, 'l) client
     \<Rightarrow> 'e packet_env \<Rightarrow> ('c, 's, 'g, 'k, 'l) client outcome go" where
  "keepalive_tick lib cc ds c env =
     (if \<not> keepalive_check c (pe_now env) then reconnecting lib cc ds c (pe_attempts env)
      else do {
        (c, err) \<leftarrow> keepalive_ping lib cc c (pe_now env) (pe_res env);
        (if err \<noteq> None then reconnecting lib cc ds c (pe_attempts env) else Some (Returns c)) })"

subsection \<open>Dial\<close>

text \<open>\<open>parsed_url\<close> is the result of \<open>url.Parse\<close>; dialling happens before any other goroutine of the client runs.\<close>

record 'e dial_env =
  dl_url :: "error + URL"
  dl_dial :: 'e
  dl_now :: int
  dl_auth :: auth_env

definition client_Dial ::
    "'u client_lib \<Rightarrow> ('c, 'h, 'i, client_cb) ClientConn \<Rightarrow> ('c, 'g, 'e) dialer dialers \<Rightarrow> ('c, 's, 'g, 'k, 'l) client
     \<Rightarrow> Handshake \<Rightarrow> 'g DialOption list \<Rightarrow> 'e dial_env \<Rightarrow> (('c, 's, 'g, 'k, 'l) client \<times> error option) outcome go" where
  "client_Dial lib cc ds c handshake opts env =
     (let c = c\<lparr>cl_handshake := handshake\<rparr> in
      case dl_url env of
        Inl err \<Rightarrow> Some (Returns (c, Some (ErrWrap err ''parse dial url'')))
      | Inr uri \<Rightarrow>
          let c = c\<lparr>cl_addr := uri\<rparr> in
          (case GetDialer ds (url_Scheme uri) of
             (Some dialer, True) \<Rightarrow> do {
               let c = c\<lparr>cl_dialOptions := newDialOptions opts\<rparr>;
               r \<leftarrow> client_dial cc dialer c (dl_dial env);
               (case r of
                  Returns (c, None) \<Rightarrow> do {
                    let c = (if do_Keepalive (cl_dialOptions c) \<noteq> 0 then keepalive_start c (dl_now env) else c);
                    (c, e) \<leftarrow> auth lib cc c (dl_auth env);
                    Some (Returns (c, e)) }
                | r \<Rightarrow> Some r) }
           | _ \<Rightarrow> Some (Returns (c, Some (ErrNew (''dialer for scheme '' @ url_Scheme uri @ '' not exists''))))))"

end
