(* ===== verification/Client_Run.thy ===== *)
theory Client_Run
  imports Client
begin

text \<open>
  The results of the client's operations.  First the pending requests: the invariant \<open>recvs_ok\<close> of the map from ids to response channels, and what beginning to wait,
  a response and the end of waiting do to it.  Then, in the locale \<open>client_of\<close> over any connection that satisfies \<open>client_conn\<close>: \<open>Do\<close>, \<open>Close\<close>, \<open>auth\<close>,
  dialling and one attempt to reconnect.
\<close>

subsection \<open>Pending requests\<close>

definition packet_id :: "Packet \<Rightarrow> 32 word option" where
  "packet_id p = map_option md_RequestId (pk_Metadata p)"

text \<open>Every registered channel is open, belongs to one request only and holds at most one packet, with the id of the request.\<close>

definition chan_for :: "32 word \<Rightarrow> Packet option chan \<Rightarrow> bool" where
  "chan_for rid ch \<longleftrightarrow> \<not> ch_closed ch \<and> ch_cap ch = 1 \<and> length (ch_buf ch) \<le> 1 \<and>
     (\<forall>p \<in> set (ch_buf ch). \<exists>q. p = Some q \<and> packet_id q = Some rid)"

definition recvs_ok :: "('c, 's, 'g, 'k, 'l) client \<Rightarrow> bool" where
  "recvs_ok c \<longleftrightarrow> distinct (map fst (cl_recvs c)) \<and> distinct (map snd (cl_recvs c)) \<and>
     (\<forall>(rid, h) \<in> set (cl_recvs c). h < length (cl_chans c) \<and> chan_for rid (cl_chans c ! h))"

lemma recvs_okD:
  assumes "recvs_ok c" "(rid, h) \<in> set (cl_recvs c)"
  shows "h < length (cl_chans c)" "chan_for rid (cl_chans c ! h)"
    "map_of (cl_recvs c) rid = Some h" "idx (cl_chans c) h = Some (cl_chans c ! h)"
  using assms by (auto simp: recvs_ok_def idx_def)

lemma recvs_unique:
  assumes ok: "recvs_ok c" and mem: "(rid, h) \<in> set (cl_recvs c)" "(rid', h') \<in> set (cl_recvs c)"
  shows "h' = h \<longleftrightarrow> rid' = rid"
proof -
  have "inj_on fst (set (cl_recvs c))" "inj_on snd (set (cl_recvs c))" using ok by (auto simp: recvs_ok_def distinct_map)
  from inj_onD [OF this(1) _ mem(2,1)] inj_onD [OF this(2) _ mem(2,1)] show ?thesis by auto
qed

lemma recvs_ok_update:
  assumes ok: "recvs_ok c" and mem: "(rid, h) \<in> set (cl_recvs c)" and ch: "chan_for rid ch"
  shows "recvs_ok (c\<lparr>cl_chans := (cl_chans c)[h := ch]\<rparr>)"
proof -
  have "chan_for rid' ((cl_chans c)[h := ch] ! h')" if mem': "(rid', h') \<in> set (cl_recvs c)" for rid' h'
    using recvs_unique [OF ok mem mem'] recvs_okD [OF ok mem'] ch by (cases "h' = h") auto
  then show ?thesis using ok by (auto simp: recvs_ok_def)
qed

lemma update_fresh: "map_of xs k = None \<Longrightarrow> AList.update k v xs = xs @ [(k, v)]"
  by (induction xs) auto

lemma recvs_ok_begin:
  assumes "recvs_ok c" "map_of (cl_recvs c) rid = None" "recv_begin c rid = (c', h)"
  shows "recvs_ok c'" "cl_recvs c' = cl_recvs c @ [(rid, h)]" "h = length (cl_chans c)"
    "cl_chans c' = cl_chans c @ [\<lparr>ch_buf = [], ch_cap = 1, ch_closed = False\<rparr>]" 
    "c' = c\<lparr>cl_chans := cl_chans c @ [\<lparr>ch_buf = [], ch_cap = 1, ch_closed = False\<rparr>], cl_recvs := cl_recvs c @ [(rid, h)]\<rparr>"
proof -
  show r: "cl_recvs c' = cl_recvs c @ [(rid, h)]" and h: "h = length (cl_chans c)"
    and ch: "cl_chans c' = cl_chans c @ [\<lparr>ch_buf = [], ch_cap = 1, ch_closed = False\<rparr>]"
    and "c' = c\<lparr>cl_chans := cl_chans c @ [\<lparr>ch_buf = [], ch_cap = 1, ch_closed = False\<rparr>], cl_recvs := cl_recvs c @ [(rid, h)]\<rparr>"
    using assms(2,3) by (auto simp: recv_begin_def Let_def update_fresh)
  have "rid \<notin> set (map fst (cl_recvs c))" using assms(2) by (simp add: map_of_eq_None_iff)
  moreover have "h \<notin> set (map snd (cl_recvs c))" using recvs_okD(1) [OF assms(1)] h by force
  ultimately show "recvs_ok c'"
    using assms(1) unfolding recvs_ok_def r ch by (auto simp: h nth_append chan_for_def)
qed

lemma handleResponse_result:
  assumes ok: "recvs_ok c" and id: "packet_id p = Some rid"
  shows "\<exists>chans. handleResponse c p = Some (c\<lparr>cl_chans := chans\<rparr>) \<and> recvs_ok (c\<lparr>cl_chans := chans\<rparr>) \<and>
    length chans = length (cl_chans c) \<and>
    (\<forall>h. map_of (cl_recvs c) rid \<noteq> Some h \<longrightarrow> chans ! h = cl_chans c ! h) \<and>
    (\<forall>h. map_of (cl_recvs c) rid = Some h \<longrightarrow> ch_buf (chans ! h) = (if ch_buf (cl_chans c ! h) = [] then [Some p] else ch_buf (cl_chans c ! h)))"
proof -
  obtain md where md: "pk_Metadata p = Some md" "md_RequestId md = rid" using id by (auto simp: packet_id_def)
  show ?thesis
  proof (cases "map_of (cl_recvs c) rid")
    case None
    then show ?thesis using md ok by (intro exI [of _ "cl_chans c"]) (simp add: handleResponse_def)
  next
    case (Some h)
    then have mem: "(rid, h) \<in> set (cl_recvs c)" by (rule map_of_SomeD)
    note r = recvs_okD [OF ok mem]
    define ch where "ch = (cl_chans c ! h)\<lparr>ch_buf := take 1 (ch_buf (cl_chans c ! h) @ [Some p])\<rparr>"
    have buf: "ch_buf (cl_chans c ! h) = [] \<or> (\<exists>x. ch_buf (cl_chans c ! h) = [x])"
      using r(2) by (cases "ch_buf (cl_chans c ! h)") (auto simp: chan_for_def)
    then have send: "\<exists>s. try_send (cl_chans c ! h) (Some p) = Some (ch, s)"
      using r(2) by (auto simp: try_send_def ch_def chan_for_def)
    have "chan_for rid ch" using r(2) buf id by (auto simp: ch_def chan_for_def)
    from recvs_ok_update [OF ok mem this] show ?thesis
      using send md Some r by (intro exI [of _ "(cl_chans c)[h := ch]"]) (use buf in \<open>auto simp: handleResponse_def ch_def\<close>)
  qed
qed

text \<open>A pending request's channel after some responses: the first one with its id, unless there was one already.\<close>

definition first_for :: "32 word \<Rightarrow> Packet option list \<Rightarrow> Packet list \<Rightarrow> Packet option list" where
  "first_for rid buf ps =
     (if buf \<noteq> [] then buf else case find (\<lambda>p. packet_id p = Some rid) ps of None \<Rightarrow> [] | Some p \<Rightarrow> [Some p])"

lemma handleResponses_result:
  assumes "recvs_ok c" "\<forall>p \<in> set ps. pk_Metadata p \<noteq> None"
  shows "\<exists>chans. handleResponses c ps = Some (c\<lparr>cl_chans := chans\<rparr>) \<and> recvs_ok (c\<lparr>cl_chans := chans\<rparr>) \<and>
    length chans = length (cl_chans c) \<and>
    (\<forall>(rid, h) \<in> set (cl_recvs c). ch_buf (chans ! h) = first_for rid (ch_buf (cl_chans c ! h)) ps)"
  using assms
proof (induction ps arbitrary: c)
  case Nil
  then show ?case by (intro exI [of _ "cl_chans c"]) (auto simp: first_for_def)
next
  case (Cons p ps)
  obtain i where i: "packet_id p = Some i" using Cons.prems(2) by (auto simp: packet_id_def)
  obtain chans where c1: "handleResponse c p = Some (c\<lparr>cl_chans := chans\<rparr>)" "recvs_ok (c\<lparr>cl_chans := chans\<rparr>)"
    "length chans = length (cl_chans c)" "\<forall>h. map_of (cl_recvs c) i \<noteq> Some h \<longrightarrow> chans ! h = cl_chans c ! h"
    "\<forall>h. map_of (cl_recvs c) i = Some h \<longrightarrow> ch_buf (chans ! h) = (if ch_buf (cl_chans c ! h) = [] then [Some p] else ch_buf (cl_chans c ! h))"
    using handleResponse_result [OF Cons.prems(1) i] by blast
  obtain chans' where c2: "handleResponses (c\<lparr>cl_chans := chans\<rparr>) ps = Some (c\<lparr>cl_chans := chans'\<rparr>)" "recvs_ok (c\<lparr>cl_chans := chans'\<rparr>)"
    "length chans' = length chans" "\<forall>(rid, h) \<in> set (cl_recvs c). ch_buf (chans' ! h) = first_for rid (ch_buf (chans ! h)) ps"
    using Cons.IH [OF c1(2)] Cons.prems(2) by auto
  have "ch_buf (chans' ! h) = first_for rid (ch_buf (cl_chans c ! h)) (p # ps)" if mem: "(rid, h) \<in> set (cl_recvs c)" for rid h
  proof (cases "rid = i")
    case True
    then have "map_of (cl_recvs c) i = Some h" using recvs_okD(3) [OF Cons.prems(1) mem] by simp
    then show ?thesis using c1(5) c2(4) mem True i by (auto simp: first_for_def)
  next
    case False
    have "map_of (cl_recvs c) i \<noteq> Some h" using recvs_unique [OF Cons.prems(1) mem] False map_of_SomeD by metis
    then have "chans ! h = cl_chans c ! h" using c1(4) by blast
    moreover have "packet_id p \<noteq> Some rid" using i False by simp
    ultimately show ?thesis using c2(4) mem by (auto simp: first_for_def)
  qed
  then show ?case using c1 c2 by (intro exI [of _ chans']) auto
qed

lemma recv_end_result:
  assumes ok: "recvs_ok c" and mem: "(rid, h) \<in> set (cl_recvs c)"
  shows "\<exists>chans. recv_end c rid h late = Some (c\<lparr>cl_recvs := AList.delete rid (cl_recvs c), cl_chans := chans\<rparr>,
      (if late \<or> ch_buf (cl_chans c ! h) = [] then (None, Some (timeout_error rid)) else (hd (ch_buf (cl_chans c ! h)), None))) \<and>
    recvs_ok (c\<lparr>cl_recvs := AList.delete rid (cl_recvs c), cl_chans := chans\<rparr>) \<and> length chans = length (cl_chans c) \<and>
    (\<forall>h'. h' \<noteq> h \<longrightarrow> chans ! h' = cl_chans c ! h')"
proof -
  note r = recvs_okD [OF ok mem]
  define ch where "ch = (cl_chans c ! h)\<lparr>ch_buf := (if late then ch_buf (cl_chans c ! h) else tl (ch_buf (cl_chans c ! h))), ch_closed := True\<rparr>"
  have st: "recv_end c rid h late = Some (c\<lparr>cl_recvs := AList.delete rid (cl_recvs c), cl_chans := (cl_chans c)[h := ch]\<rparr>,
      (if late \<or> ch_buf (cl_chans c ! h) = [] then (None, Some (timeout_error rid)) else (hd (ch_buf (cl_chans c ! h)), None)))"
    unfolding recv_end_def r(4)
    using r(2) by (cases "cl_chans c ! h"; cases "ch_buf (cl_chans c ! h)") (auto simp: try_recv_def close_chan_def ch_def chan_for_def)
  have "distinct (map fst (AList.delete rid (cl_recvs c)))" "distinct (map snd (AList.delete rid (cl_recvs c)))"
    using ok by (auto simp: recvs_ok_def AList.delete_eq distinct_map_filter intro: distinct_map_filter)
  moreover have "h' < length (cl_chans c) \<and> chan_for rid' ((cl_chans c)[h := ch] ! h')"
    if "(rid', h') \<in> set (AList.delete rid (cl_recvs c))" for rid' h'
    using that recvs_unique [OF ok mem, of rid' h'] recvs_okD [OF ok, of rid' h'] by (auto simp: AList.delete_eq)
  ultimately have "recvs_ok (c\<lparr>cl_recvs := AList.delete rid (cl_recvs c), cl_chans := (cl_chans c)[h := ch]\<rparr>)"
    unfolding recvs_ok_def by auto
  with st show ?thesis by (intro exI [of _ "(cl_chans c)[h := ch]"]) simp
qed

subsection \<open>A request\<close>

lemma set_all_result:
  assumes "pk_Metadata p = Some md" "md_Values md = Some m"
  shows "\<exists>p' md' m'. set_all uni p kvs = Some p' \<and> pk_Metadata p' = Some md' \<and> md_Values md' = Some m' \<and> md_RequestId md' = md_RequestId md"
  using assms
proof (induction kvs arbitrary: p md m)
  case (Cons kv kvs)
  obtain k v where kv: "kv = (k, v)" by fastforce
  have "\<exists>md1 e m1. Metadata_Set uni md k v = Some (md1, e) \<and> md_Values md1 = Some m1 \<and> md_RequestId md1 = md_RequestId md"
    using Cons.prems by (simp add: Metadata_Set_def)
  then obtain p1 md1 m1 where "SetMetadata uni p k v = Some p1" "pk_Metadata p1 = Some md1" "md_Values md1 = Some m1"
    "md_RequestId md1 = md_RequestId md"
    using Cons.prems by (auto simp: SetMetadata_def)
  with Cons.IH [of p1 md1 m1] kv show ?case by auto
qed simp

text \<open>A connection whose close callbacks are the client's.\<close>

locale client_of = client_conn cc ok closed cbs
  for cc :: "('c, 'h, 'i, client_cb) ClientConn" and ok :: "'c \<Rightarrow> bool" and closed :: "'c \<Rightarrow> bool" and cbs :: "'c \<Rightarrow> client_cb list"
begin

lemma client_write_result:
  assumes "cl_conn c = Some conn" "ok conn" "pk_Metadata p = Some md"
  shows "\<exists>conn' p' err md'. client_write cc c p res = Some (c\<lparr>cl_conn := Some conn'\<rparr>, p', err) \<and> ok conn' \<and> closed conn' = closed conn \<and>
    cbs conn' = cbs conn \<and> cc_Context cc conn' = cc_Context cc conn \<and> pk_Metadata p' = Some md' \<and> md_RequestId md' = md_RequestId md \<and>
    (closed conn \<longrightarrow> err = Some ErrConnClosed)"
proof -
  let ?o = "[GzipSize (do_MinGzipSize (cl_dialOptions c))]"
  obtain conn' p' err md' where "cc_Write cc conn p ?o res = Some (conn', p', err)" "ok conn'" "closed conn' = closed conn"
    "cbs conn' = cbs conn" "cc_Context cc conn' = cc_Context cc conn" "pk_Metadata p' = Some md'" "md_RequestId md' = md_RequestId md"
    "closed conn \<longrightarrow> err = Some ErrConnClosed"
    using Write [OF assms(2,3), of ?o res] by blast
  then show ?thesis using assms(1) by (intro exI [of _ conn'] exI [of _ p'] exI [of _ err] exI [of _ md']) (simp add: client_write_def)
qed

lemma do_request_result:
  assumes c: "cl_conn c = Some conn" "ok conn"
  shows "\<exists>conn' r. do_request lib cc c req res = Some (c\<lparr>cl_conn := Some conn'\<rparr>, r) \<and> ok conn' \<and> closed conn' = closed conn \<and>
    cbs conn' = cbs conn \<and> cc_Context cc conn' = fst (NextReqId (cc_Context cc conn)) \<and>
    (case r of Inl e \<Rightarrow> True | Inr rid \<Rightarrow> rid = snd (NextReqId (cc_Context cc conn)) \<and> \<not> closed conn)"
proof -
  let ?ctx = "fst (NextReqId (cc_Context cc conn))" and ?id = "snd (NextReqId (cc_Context cc conn))"
  let ?body = "case rq_Body req of None \<Rightarrow> NilBody | Some m \<Rightarrow> MsgBody m"
  obtain p e where np: "NewPacket (lib_enc lib) ?ctx RequestPacket (rq_Cmd req) ?body [WithRequestId ?id] = Some (p, e)"
    and pk: "case e of Some _ \<Rightarrow> True | None \<Rightarrow> pk_Metadata p = Some (foldl (\<lambda>md opt. opt md)
            (Metadata_zero\<lparr>md_Type := RequestPacket, md_Codec := ctx_Codec ?ctx, md_CmdCode := rq_Cmd req,
               md_Values := Some Map.empty\<rparr>) [WithRequestId ?id])"
    using NewPacket_total [of "lib_enc lib" ?ctx RequestPacket "rq_Cmd req" ?body "[WithRequestId ?id]"] by (auto split: option.splits)
  have nr: "NewRequest (lib_enc lib) (cc_Context cc conn) (rq_Cmd req) ?body [] = Some (?ctx, p, e)"
    using np by (simp add: NewRequest_def case_prod_unfold)
  define conn1 where "conn1 = cc_setContext cc conn ?ctx"
  define c1 where "c1 = c\<lparr>cl_conn := Some conn1\<rparr>"
  have conn1: "ok conn1" "closed conn1 = closed conn" "cbs conn1 = cbs conn" "cc_Context cc conn1 = ?ctx" "cl_conn c1 = Some conn1"
    using setContext [OF c(2), of ?ctx] by (simp_all add: conn1_def c1_def)
  show ?thesis
  proof (cases e)
    case (Some x)
    then show ?thesis using nr c conn1 by (auto simp: do_request_def conn1_def)
  next
    case None
    then obtain md m where md: "pk_Metadata p = Some md" "md_Values md = Some m" "md_RequestId md = ?id"
      using pk by (simp add: WithRequestId_def)
    obtain p1 md1 where p1: "set_all (lib_uni lib) p (rq_Metadata req) = Some p1" "pk_Metadata p1 = Some md1" "md_RequestId md1 = ?id"
      using set_all_result [OF md(1,2), of "lib_uni lib" "rq_Metadata req"] md(3) by auto
    obtain conn2 p2 err md2 where w: "client_write cc c1 p1 res = Some (c1\<lparr>cl_conn := Some conn2\<rparr>, p2, err)" "ok conn2"
      "closed conn2 = closed conn1" "cbs conn2 = cbs conn1" "cc_Context cc conn2 = cc_Context cc conn1" "pk_Metadata p2 = Some md2"
      "md_RequestId md2 = ?id" "closed conn1 \<longrightarrow> err = Some ErrConnClosed"
      using client_write_result [OF conn1(5,1) p1(2)] p1(3) by metis
    have "do_request lib cc c req res = Some (c\<lparr>cl_conn := Some conn2\<rparr>, case err of Some x \<Rightarrow> Inl x | None \<Rightarrow> Inr ?id)"
      using c nr None p1(1) w(1,6,7) unfolding c1_def by (simp add: do_request_def conn1_def [symmetric] split: option.splits)
    then show ?thesis using w conn1 by (auto split: option.splits)
  qed
qed

text \<open>
  A whole call of \<open>Do\<close>: the error of the request, or the first response with its id, or the timeout; other pending requests get the first
  response with their id.
\<close>

lemma client_Do_result:
  assumes c: "cl_conn c = Some conn" "ok conn" "recvs_ok c" "map_of (cl_recvs c) (snd (NextReqId (cc_Context cc conn))) = None"
    and md: "\<forall>p \<in> set (de_early env @ de_in env). pk_Metadata p \<noteq> None"
  shows "\<exists>conn' chans res err. client_Do lib cc c req env = Some (c\<lparr>cl_conn := Some conn', cl_chans := chans\<rparr>, res, err) \<and>
    ok conn' \<and> closed conn' = closed conn \<and> cbs conn' = cbs conn \<and> cc_Context cc conn' = fst (NextReqId (cc_Context cc conn)) \<and>
    recvs_ok (c\<lparr>cl_conn := Some conn', cl_chans := chans\<rparr>) \<and>
    (let rid = snd (NextReqId (cc_Context cc conn)); reply = find (\<lambda>p. packet_id p = Some rid) (de_in env) in
     case do_request lib cc (c\<lparr>cl_rheld := cl_rheld c + 1\<rparr>) req (de_res env) of
       None \<Rightarrow> False
     | Some (_, Inl e) \<Rightarrow> res = None \<and> err = Some e
     | Some (_, Inr _) \<Rightarrow> \<not> closed conn \<and>
         (if de_late env \<or> reply = None then res = None \<and> err = Some (timeout_error rid)
          else res = reply \<and> Packet_Err (lib_err lib) (the reply) = Some err))"
proof -
  define rid where "rid = snd (NextReqId (cc_Context cc conn))"
  define c0 where "c0 = c\<lparr>cl_rheld := cl_rheld c + 1\<rparr>"
  have "cl_conn c0 = Some conn" using c(1) by (simp add: c0_def)
  from do_request_result [OF this c(2), of lib req "de_res env"] obtain conn' r where
    rq: "do_request lib cc c0 req (de_res env) = Some (c0\<lparr>cl_conn := Some conn'\<rparr>, r)" and conn': "ok conn'" "closed conn' = closed conn"
      "cbs conn' = cbs conn" "cc_Context cc conn' = fst (NextReqId (cc_Context cc conn))"
    and r: "case r of Inl e \<Rightarrow> True | Inr i \<Rightarrow> i = rid \<and> \<not> closed conn"
    unfolding rid_def by blast
  show ?thesis
  proof (cases r)
    case (Inl e)
    have "client_Do lib cc c req env = Some (c\<lparr>cl_conn := Some conn', cl_chans := cl_chans c\<rparr>, None, Some e)"
      using rq Inl unfolding client_Do_def c0_def [symmetric] Let_def by (cases c) (simp add: c0_def)
    moreover have "recvs_ok (c\<lparr>cl_conn := Some conn', cl_chans := cl_chans c\<rparr>)" using c(3) by (simp add: recvs_ok_def)
    ultimately show ?thesis using conn' rq Inl unfolding Let_def c0_def [symmetric]
      by (intro exI [of _ conn'] exI [of _ "cl_chans c"] exI [of _ None] exI [of _ "Some e"] conjI) simp_all
  next
    case (Inr i)
    with r have i: "i = rid" "\<not> closed conn" by simp_all
    have "recvs_ok (c0\<lparr>cl_conn := Some conn'\<rparr>)" using c(3) by (simp add: c0_def recvs_ok_def)
    then obtain early where ea: "handleResponses (c0\<lparr>cl_conn := Some conn'\<rparr>) (de_early env) = Some (c0\<lparr>cl_conn := Some conn', cl_chans := early\<rparr>)"
      "recvs_ok (c0\<lparr>cl_conn := Some conn', cl_chans := early\<rparr>)"
      using handleResponses_result [of "c0\<lparr>cl_conn := Some conn'\<rparr>" "de_early env"] md by auto
    define c1 where "c1 = c0\<lparr>cl_conn := Some conn', cl_chans := early\<rparr>"
    have c1: "recvs_ok c1" "map_of (cl_recvs c1) rid = None" "cl_recvs c1 = cl_recvs c"
      using c(3,4) ea(2) by (simp_all add: c1_def c0_def rid_def)
    obtain c2 h where b: "recv_begin c1 rid = (c2, h)" by fastforce
    note bg = recvs_ok_begin [OF c1(1,2) b]
    obtain chans where hr: "handleResponses c2 (de_in env) = Some (c2\<lparr>cl_chans := chans\<rparr>)" "recvs_ok (c2\<lparr>cl_chans := chans\<rparr>)"
      "\<forall>(rid, h) \<in> set (cl_recvs c2). ch_buf (chans ! h) = first_for rid (ch_buf (cl_chans c2 ! h)) (de_in env)"
      using handleResponses_result [OF bg(1), of "de_in env"] md by auto
    have mem: "(rid, h) \<in> set (cl_recvs (c2\<lparr>cl_chans := chans\<rparr>))" using bg(2) by simp
    let ?reply = "find (\<lambda>p. packet_id p = Some rid) (de_in env)"
    have buf: "ch_buf (chans ! h) = (case ?reply of None \<Rightarrow> [] | Some p \<Rightarrow> [Some p])"
      using hr(3) mem bg(3,4) by (auto simp: first_for_def)
    have del: "AList.delete rid (cl_recvs c2) = cl_recvs c"
      using c1(2,3) bg(2) by (force simp: AList.delete_eq map_of_eq_None_iff filter_id_conv)
    obtain chans' where re: "recv_end (c2\<lparr>cl_chans := chans\<rparr>) rid h (de_late env) = Some (c2\<lparr>cl_recvs := cl_recvs c, cl_chans := chans'\<rparr>,
        (if de_late env \<or> ?reply = None then (None, Some (timeout_error rid)) else (?reply, None)))"
      "recvs_ok (c2\<lparr>cl_recvs := cl_recvs c, cl_chans := chans'\<rparr>)"
      using recv_end_result [OF hr(2) mem, of "de_late env"] buf del by (auto split: option.splits)
    have fin: "(c2\<lparr>cl_recvs := cl_recvs c, cl_chans := chans'\<rparr>)\<lparr>cl_rheld := cl_rheld c2 - 1\<rparr> = c\<lparr>cl_conn := Some conn', cl_chans := chans'\<rparr>"
      unfolding bg(5) by (cases c) (simp add: c1_def c0_def)
    have "recvs_ok (c\<lparr>cl_conn := Some conn', cl_chans := chans'\<rparr>)" using re(2) by (simp add: recvs_ok_def)
    moreover have err: "\<exists>e. Packet_Err (lib_err lib) p = Some e" if "?reply = Some p" for p
    proof -
      have "p \<in> set (de_in env)" using that by (auto simp: find_Some_iff)
      with md obtain m where "pk_Metadata p = Some m" by auto
      then show ?thesis by (simp add: Packet_Err_def Packet_Unmarshal_def Let_def)
    qed
    moreover have "client_Do lib cc c req env = Some (c\<lparr>cl_conn := Some conn', cl_chans := chans'\<rparr>,
        if de_late env \<or> ?reply = None then (None, Some (timeout_error rid)) else (?reply, the (Packet_Err (lib_err lib) (the ?reply))))"
      unfolding client_Do_def c0_def [symmetric] Let_def
      using rq Inr i ea(1) b hr(1) re(1) fin err unfolding c1_def by (cases ?reply) (auto simp: fin)
    ultimately show ?thesis
      using conn' rq Inr i unfolding Let_def c0_def [symmetric] rid_def [symmetric]
      by (cases ?reply) (auto simp: err)
  qed
qed

end

subsection \<open>Closing and reconnecting\<close>

text \<open>Packets that arrive have metadata: the readers of both versions return no other.\<close>

definition do_env_ok :: "do_env \<Rightarrow> bool" where
  "do_env_ok env \<longleftrightarrow> (\<forall>p \<in> set (de_early env @ de_in env). pk_Metadata p \<noteq> None)"

definition attempt_ok :: "'e attempt \<Rightarrow> bool" where
  "attempt_ok at \<longleftrightarrow> do_env_ok (ae_do (at_auth at)) \<and> do_env_ok (re_do (at_reconnect at)) \<and>
     do_env_ok (ae_do (re_auth (at_reconnect at)))"

text \<open>What requests, dialling and closing leave alone.\<close>

definition cl_frame :: "('c, 's, 'g, 'k, 'l) client
    \<Rightarrow> unit chan \<times> 'g DialOptions \<times> bool \<times> nat \<times> string \<times> Handshake \<times> 's option \<times> 's option \<times> 's event list" where
  "cl_frame c = (cl_closeCh c, cl_dialOptions c, cl_doReconnectting c, cl_rheld c, url_Scheme (cl_addr c), cl_handshake c,
     cl_onClose c, cl_afterReconnected c, cl_log c)"

lemma cl_frame_upd [simp]:
  "cl_frame (c\<lparr>cl_conn := co\<rparr>) = cl_frame c" "cl_frame (c\<lparr>cl_chans := ch\<rparr>) = cl_frame c" "cl_frame (c\<lparr>cl_recvs := r\<rparr>) = cl_frame c"
  "cl_frame (c\<lparr>cl_authInfo := a\<rparr>) = cl_frame c" "cl_frame (c\<lparr>cl_reconnectCount := n\<rparr>) = cl_frame c"
  "cl_frame (c\<lparr>cl_lastKeepaliveId := i\<rparr>) = cl_frame c"
  by (simp_all add: cl_frame_def)

lemma client_closed_iff: "ch_buf (cl_closeCh c) = [] \<Longrightarrow> client_closed c = ch_closed (cl_closeCh c)"
  by (simp add: client_closed_def try_recv_def)

lemma run_nested_returns:
  "client_closed c \<or> cl_rheld c = 0 \<and> cl_doReconnectting c \<Longrightarrow> run_nested c calls = Returns c"
proof (induction calls)
  case (Cons x calls)
  obtain e where "x = (OnConnClose, e)" by (cases x; cases "fst x") auto
  moreover have "nested c = Returns c" using Cons.prems by (auto simp: nested_def reconnecting_enter_def)
  ultimately show ?case using Cons by simp
qed simp

lemma run_nested_blocked:
  "\<not> client_closed c \<Longrightarrow> cl_rheld c > 0 \<Longrightarrow> calls \<noteq> [] \<Longrightarrow> run_nested c calls = Blocked c"
proof (induction calls)
  case (Cons x calls)
  obtain e where "x = (OnConnClose, e)" by (cases x; cases "fst x") auto
  then show ?case using Cons.prems by (simp add: nested_def reconnecting_enter_def)
qed simp

lemma close_all_result:
  assumes "distinct (map snd recvs)" "\<forall>(rid, h) \<in> set recvs. h < length chans \<and> \<not> ch_closed (chans ! h)"
  shows "\<exists>chans'. close_all chans recvs = Some chans' \<and> length chans' = length chans \<and>
    (\<forall>h. chans' ! h = (if h \<in> snd ` set recvs then (chans ! h)\<lparr>ch_closed := True\<rparr> else chans ! h))"
  using assms
proof (induction recvs arbitrary: chans)
  case (Cons x recvs)
  obtain rid h where x: "x = (rid, h)" by fastforce
  define chans1 where "chans1 = chans[h := (chans ! h)\<lparr>ch_closed := True\<rparr>]"
  have h: "h < length chans" "\<not> ch_closed (chans ! h)" "h \<notin> snd ` set recvs" using Cons.prems x by auto
  have "h' < length chans1 \<and> \<not> ch_closed (chans1 ! h')" if m: "(rid', h') \<in> set recvs" for rid' h'
  proof -
    have "h' \<noteq> h" using m h(3) by (metis imageI snd_conv)
    then show ?thesis using bspec [OF Cons.prems(2), of "(rid', h')"] m by (simp add: chans1_def)
  qed
  then obtain chans' where c': "close_all chans1 recvs = Some chans'" "length chans' = length chans1"
    "\<forall>h. chans' ! h = (if h \<in> snd ` set recvs then (chans1 ! h)\<lparr>ch_closed := True\<rparr> else chans1 ! h)"
    using Cons.IH [of chans1] Cons.prems(1) by auto
  have "close_all chans (x # recvs) = Some chans'"
    using c'(1) h by (simp add: x idx_def close_chan_def chans1_def)
  moreover have "chans' ! h' = (if h' \<in> snd ` set (x # recvs) then (chans ! h')\<lparr>ch_closed := True\<rparr> else chans ! h')" for h'
    using c'(3) h by (cases "h' = h") (auto simp: x chans1_def)
  ultimately show ?case using c'(2) by (intro exI [of _ chans']) (simp add: chans1_def)
qed simp

context client_of
begin

definition conn_ok :: "('c, 's, 'g, 'k, 'l) client \<Rightarrow> bool" where
  "conn_ok c \<longleftrightarrow> (\<forall>conn. cl_conn c = Some conn \<longrightarrow> ok conn)"

lemma close_conn_result:
  assumes "conn_ok c" "client_closed c \<or> cl_rheld c = 0 \<and> cl_doReconnectting c"
  shows "\<exists>co. close_conn cc c err = Some (Returns (c\<lparr>cl_conn := co\<rparr>)) \<and> (\<forall>conn. co = Some conn \<longrightarrow> ok conn \<and> closed conn)"
proof (cases "cl_conn c")
  case None
  then show ?thesis by (intro exI [of _ None]) (cases c, simp add: close_conn_def)
next
  case (Some conn)
  obtain conn' where "cc_Close cc conn (Some err) = Some (conn', if closed conn then [] else map (\<lambda>cb. (cb, Some err)) (cbs conn))"
    "ok conn'" "closed conn'"
    using Close [of conn "Some err"] assms(1) Some by (auto simp: conn_ok_def)
  moreover have "run_nested (c\<lparr>cl_conn := Some conn'\<rparr>) calls = Returns (c\<lparr>cl_conn := Some conn'\<rparr>)" for calls
    using assms(2) by (intro run_nested_returns) (simp add: client_closed_def)
  ultimately show ?thesis using Some by (intro exI [of _ "Some conn'"]) (simp add: close_conn_def)
qed

lemma client_Close_result:
  assumes "conn_ok c" "\<not> ch_closed (cl_closeCh c)" "ch_buf (cl_closeCh c) = []"
  shows "\<exists>co. client_Close cc c err = Some (Returns (notify (\<lambda>f. ClosedTo f err) (cl_onClose c)
      (c\<lparr>cl_closeCh := (cl_closeCh c)\<lparr>ch_closed := True\<rparr>, cl_conn := co\<rparr>))) \<and> (\<forall>conn. co = Some conn \<longrightarrow> ok conn \<and> closed conn)"
proof -
  define c1 where "c1 = c\<lparr>cl_closeCh := (cl_closeCh c)\<lparr>ch_closed := True\<rparr>, cl_rheld := cl_rheld c + 1\<rparr>"
  have "conn_ok c1" "client_closed c1" using assms by (simp_all add: c1_def conn_ok_def client_closed_def try_recv_def)
  then obtain co where co: "close_conn cc c1 (ErrNew ''close by client'') = Some (Returns (c1\<lparr>cl_conn := co\<rparr>))"
    "\<forall>conn. co = Some conn \<longrightarrow> ok conn \<and> closed conn"
    using close_conn_result [of c1] by blast
  have "(c1\<lparr>cl_conn := co\<rparr>)\<lparr>cl_rheld := cl_rheld c1 - 1\<rparr> = c\<lparr>cl_closeCh := (cl_closeCh c)\<lparr>ch_closed := True\<rparr>, cl_conn := co\<rparr>"
    by (cases c) (simp add: c1_def)
  then show ?thesis
    using co assms(2) by (intro exI [of _ co]) (simp add: client_Close_def close_chan_def c1_def)
qed

text \<open>The state between the steps of an attempt: no request pending, a connection that is there.\<close>

definition ready :: "('c, 's, 'g, 'k, 'l) client \<Rightarrow> bool" where
  "ready c \<longleftrightarrow> cl_recvs c = [] \<and> (\<exists>conn. cl_conn c = Some conn \<and> ok conn)"

lemma client_Do_ready:
  assumes "ready c" "do_env_ok env"
  shows "\<exists>c' res err. client_Do lib cc c req env = Some (c', res, err) \<and> ready c' \<and> cl_frame c' = cl_frame c \<and>
    cl_reconnectCount c' = cl_reconnectCount c \<and> cl_authInfo c' = cl_authInfo c \<and> cl_dialOptions c' = cl_dialOptions c \<and>
    (err = None \<longrightarrow> (\<exists>p md. res = Some p \<and> pk_Metadata p = Some md))"
proof -
  obtain conn where conn: "cl_conn c = Some conn" "ok conn" and r: "cl_recvs c = []" using assms(1) by (auto simp: ready_def)
  have rk: "recvs_ok c" "map_of (cl_recvs c) (snd (NextReqId (cc_Context cc conn))) = None" using r by (simp_all add: recvs_ok_def)
  let ?reply = "find (\<lambda>p. packet_id p = Some (snd (NextReqId (cc_Context cc conn)))) (de_in env)"
  obtain conn' chans res err where d: "client_Do lib cc c req env = Some (c\<lparr>cl_conn := Some conn', cl_chans := chans\<rparr>, res, err)" "ok conn'"
    and p: "res = None \<and> err \<noteq> None \<or> res = ?reply \<and> ?reply \<noteq> None"
    using client_Do_result [OF conn rk assms(2) [unfolded do_env_ok_def], of lib req] unfolding Let_def
    by (fastforce split: option.splits sum.splits if_splits)
  have "\<exists>md. pk_Metadata p = Some md" if "?reply = Some p" for p
  proof -
    have "p \<in> set (de_in env)" using that by (auto simp: find_Some_iff)
    with assms(2) show ?thesis by (auto simp: do_env_ok_def)
  qed
  with d p r show ?thesis by (intro exI [of _ "c\<lparr>cl_conn := Some conn', cl_chans := chans\<rparr>"] exI [of _ res] exI [of _ err]) (auto simp: ready_def)
qed

lemma Packet_Unmarshal_total: "pk_Metadata p = Some md \<Longrightarrow> \<exists>r. Packet_Unmarshal dec p = Some r"
  by (simp add: Packet_Unmarshal_def)

lemma auth_result:
  assumes "ready c" "do_env_ok (ae_do env)"
  shows "\<exists>c' e. auth lib cc c env = Some (c', e) \<and> ready c' \<and> cl_frame c' = cl_frame c \<and> cl_reconnectCount c' = cl_reconnectCount c"
proof (cases "do_AuthTokenGetter (cl_dialOptions c) = None")
  case True
  then show ?thesis using assms(1) by (simp add: auth_def)
next
  case False
  show ?thesis
  proof (cases "ae_token env")
    case (Inl e)
    then show ?thesis using False assms(1) by (simp add: auth_def)
  next
    case (Inr token)
    obtain c' res err where d: "client_Do lib cc c
        \<lparr>rq_Cmd = CMD_AUTH (lib_ctl lib), rq_Body = Some (CtlMsg (AuthRequest token (cl_connectMetadata c))), rq_Metadata = []\<rparr>
        (ae_do env) = Some (c', res, err)" "ready c'" "cl_frame c' = cl_frame c" "cl_reconnectCount c' = cl_reconnectCount c"
      "err = None \<longrightarrow> (\<exists>p md. res = Some p \<and> pk_Metadata p = Some md)"
      using client_Do_ready [OF assms] by blast
    show ?thesis
    proof (cases err)
      case (Some e)
      then show ?thesis using False Inr d by (auto simp: auth_def)
    next
      case None
      then obtain p md r where "res = Some p" "Packet_Unmarshal (lib_auth lib) p = Some r" using d(5) Packet_Unmarshal_total by blast
      then show ?thesis using False Inr d None by (cases r) (auto simp: auth_def ready_def)
    qed
  qed
qed

lemma reconnectDial_result:
  assumes "ready c" "cl_authInfo c = Some info" "do_env_ok (re_do env)" "do_env_ok (ae_do (re_auth env))"
  shows "\<exists>c' e. reconnectDial lib cc c env = Some (c', e) \<and> ready c' \<and> cl_frame c' = cl_frame c \<and>
    (e \<noteq> None \<longrightarrow> cl_reconnectCount c' = cl_reconnectCount c)"
proof -
  obtain c' res err where d: "client_Do lib cc c
      \<lparr>rq_Cmd = CMD_RECONNECT (lib_ctl lib), rq_Body = Some (CtlMsg (ReconnectRequest (ar_SessionId info) (cl_connectMetadata c))),
         rq_Metadata = []\<rparr> (re_do env) = Some (c', res, err)" "ready c'" "cl_frame c' = cl_frame c" "cl_reconnectCount c' = cl_reconnectCount c"
    "err = None \<longrightarrow> (\<exists>p md. res = Some p \<and> pk_Metadata p = Some md)"
    using client_Do_ready [OF assms(1,3)] by blast
  show ?thesis
  proof (cases err)
    case (Some e)
    then show ?thesis using assms(2) d by (simp add: reconnectDial_def)
  next
    case None
    then obtain p md r where p: "res = Some p" "pk_Metadata p = Some md" "Packet_Unmarshal (lib_auth lib) p = Some r"
      using d(5) Packet_Unmarshal_total by blast
    obtain c2 e2 where a: "auth lib cc c' (re_auth env) = Some (c2, e2)" "ready c2" "cl_frame c2 = cl_frame c'"
      "cl_reconnectCount c2 = cl_reconnectCount c'"
      using auth_result [OF d(2) assms(4)] by blast
    show ?thesis
    proof (cases "md_StatusCode md = StatusUnauthenticated")
      case True
      then show ?thesis using assms(2) d None p a by (simp add: reconnectDial_def Packet_StatusCode_def)
    next
      case False
      then show ?thesis using assms(2) d None p by (cases r) (simp_all add: reconnectDial_def Packet_StatusCode_def ready_def)
    qed
  qed
qed

text \<open>A dialer that returns, for addresses of a scheme.\<close>

definition dialer_ok :: "('c, 'g, 'e) dialer \<Rightarrow> string \<Rightarrow> Handshake \<Rightarrow> 'g DialOptions \<Rightarrow> bool" where
  "dialer_ok d sc hs o' \<longleftrightarrow> (\<forall>uri e. url_Scheme uri = sc \<longrightarrow>
     (\<exists>uri' r. d uri hs o' e = Some (uri', r) \<and> url_Scheme uri' = sc \<and> (\<forall>conn. r = Inr conn \<longrightarrow> ok conn)))"

lemma client_dial_result:
  assumes "cl_rheld c = 0" "dialer_ok d (url_Scheme (cl_addr c)) (cl_handshake c) (cl_dialOptions c)" "cl_recvs c = []"
  shows "\<exists>c' e. client_dial cc d c env = Some (Returns (c', e)) \<and> cl_frame c' = cl_frame c \<and> conn_ok c' \<and> cl_recvs c' = [] \<and>
    cl_reconnectCount c' = cl_reconnectCount c \<and> cl_authInfo c' = cl_authInfo c \<and> (e = None \<longrightarrow> ready c')"
proof -
  obtain uri r where d: "d (cl_addr c) (cl_handshake c) (cl_dialOptions c) env = Some (uri, r)" "url_Scheme uri = url_Scheme (cl_addr c)"
    "\<forall>conn. r = Inr conn \<longrightarrow> ok conn"
    using assms(2) unfolding dialer_ok_def by blast
  show ?thesis
  proof (cases r)
    case (Inl e)
    then show ?thesis using assms d by (simp add: client_dial_def cl_frame_def conn_ok_def)
  next
    case (Inr conn)
    obtain conn' where p: "cc_OnPacket cc conn = Some conn'" "ok conn'" using OnPacket [of conn] d(3) Inr by blast
    then have "ok (cc_OnClose cc conn' OnConnClose)" using OnClose by blast
    then show ?thesis using assms d(1,2) Inr p(1) by (simp add: client_dial_def cl_frame_def conn_ok_def ready_def)
  qed
qed

definition reconnectable :: "('c, 'g, 'e) dialer dialers \<Rightarrow> ('c, 's, 'g, 'k, 'l) client \<Rightarrow> bool" where
  "reconnectable ds c \<longleftrightarrow> conn_ok c \<and> recvs_ok c \<and> cl_rheld c = 0 \<and> cl_doReconnectting c \<and>
     (\<exists>d. ds (url_Scheme (cl_addr c)) = Some d \<and> dialer_ok d (url_Scheme (cl_addr c)) (cl_handshake c) (cl_dialOptions c))"

lemma reconnectable_frame:
  "reconnectable ds c \<Longrightarrow> cl_frame c' = cl_frame c \<Longrightarrow> conn_ok c' \<Longrightarrow> cl_recvs c' = [] \<Longrightarrow> reconnectable ds c'"
  by (auto simp: reconnectable_def cl_frame_def recvs_ok_def)

text \<open>An attempt returns; unless the limit was reached it has been counted, and an attempt that fails stays counted.\<close>

lemma reconnect_result:
  assumes c: "reconnectable ds c" and at: "attempt_ok at"
  shows "\<exists>c' e. reconnect lib cc ds c at = Some (Returns (c', e)) \<and> reconnectable ds c' \<and> cl_frame c' = cl_frame c \<and>
    (if do_MaxReconnect (cl_dialOptions c) > 0 \<and> cl_reconnectCount c \<ge> do_MaxReconnect (cl_dialOptions c)
     then e = Some ErrHitMaxReconnect \<and> c' = c
     else if e = None then ready c' else cl_reconnectCount c' = cl_reconnectCount c + 1)"
proof (cases "do_MaxReconnect (cl_dialOptions c) > 0 \<and> cl_reconnectCount c \<ge> do_MaxReconnect (cl_dialOptions c)")
  case True
  then show ?thesis using c by (simp add: reconnect_def)
next
  case False
  define c1 where "c1 = c\<lparr>cl_reconnectCount := cl_reconnectCount c + 1\<rparr>"
  have k: "conn_ok c" "recvs_ok c" "cl_rheld c = 0" "cl_doReconnectting c" using c by (auto simp: reconnectable_def)
  obtain d where d: "ds (url_Scheme (cl_addr c)) = Some d" "dialer_ok d (url_Scheme (cl_addr c)) (cl_handshake c) (cl_dialOptions c)"
    using c by (auto simp: reconnectable_def)
  have "conn_ok c1" "cl_rheld c1 = 0 \<and> cl_doReconnectting c1" using k by (simp_all add: c1_def conn_ok_def)
  then obtain co where co: "close_conn cc c1 (ErrNew ''close old conn for reconnect'') = Some (Returns (c1\<lparr>cl_conn := co\<rparr>))"
    using close_conn_result [of c1] by blast
  have "distinct (map snd (cl_recvs c))" "\<forall>(rid, h) \<in> set (cl_recvs c). h < length (cl_chans c) \<and> \<not> ch_closed (cl_chans c ! h)"
    using k(2) by (auto simp: recvs_ok_def chan_for_def)
  then obtain chans where ca: "close_all (cl_chans c) (cl_recvs c) = Some chans" using close_all_result by blast
  define c2 where "c2 = c1\<lparr>cl_conn := co, cl_chans := chans, cl_recvs := []\<rparr>"
  have c2: "cl_frame c2 = cl_frame c" "cl_rheld c2 = 0" "cl_recvs c2 = []" "cl_reconnectCount c2 = cl_reconnectCount c + 1"
    "cl_addr c2 = cl_addr c" "cl_handshake c2 = cl_handshake c" "cl_dialOptions c2 = cl_dialOptions c"
    using k by (simp_all add: c2_def c1_def)
  obtain c3 e3 where d3: "client_dial cc d c2 (at_dial at) = Some (Returns (c3, e3))" "cl_frame c3 = cl_frame c2" "conn_ok c3"
    "cl_recvs c3 = []" "cl_reconnectCount c3 = cl_reconnectCount c2" "e3 = None \<longrightarrow> ready c3"
    using client_dial_result [of c2 d "at_dial at"] c2 d(2) by metis
  have gd: "fst (GetDialer ds (url_Scheme (cl_addr c))) = Some d" using d(1) by (simp add: GetDialer_def)
  note unf = reconnect_def if_not_P [OF False] Let_def c1_def [symmetric] co bind.bind_lunit outcome.case
  have st: "reconnect lib cc ds c at = (case (c3, e3) of
      (c, None) \<Rightarrow> if cl_authInfo c = None then Some (Returns (c, None))
                  else if isAuthExpired c (at_now at) then do { (c, e) \<leftarrow> auth lib cc c (at_auth at); Some (Returns (c, e)) }
                  else do { (c, e) \<leftarrow> reconnectDial lib cc c (at_reconnect at); Some (Returns (c, e)) }
    | r \<Rightarrow> Some (Returns r))"
    unfolding unf using ca gd d3(1) by (simp add: c1_def c2_def split: option.split)
  have fin: "reconnectable ds c'" if "cl_frame c' = cl_frame c3" "ready c'" for c'
    using that d3(2) c2(1) by (intro reconnectable_frame [OF c]) (auto simp: ready_def conn_ok_def)
  have fin3: "reconnectable ds c3" using d3 c2(1) by (intro reconnectable_frame [OF c]) auto
  have count: "cl_reconnectCount c3 = cl_reconnectCount c + 1" using d3(5) c2(4) by simp
  have fr: "cl_frame c3 = cl_frame c" using d3(2) c2(1) by simp
  show ?thesis
  proof (cases e3)
    case (Some x)
    then show ?thesis using st fin3 count fr False by auto
  next
    case None
    then have r3: "ready c3" using d3(6) by simp
    obtain ca ea where a: "auth lib cc c3 (at_auth at) = Some (ca, ea)" "ready ca" "cl_frame ca = cl_frame c3"
      "cl_reconnectCount ca = cl_reconnectCount c3"
      using auth_result [OF r3] at by (metis attempt_ok_def)
    show ?thesis
    proof (cases "cl_authInfo c3")
      case None': None
      then show ?thesis using st None r3 fin3 count fr False by auto
    next
      case (Some info)
      obtain cr er where r: "reconnectDial lib cc c3 (at_reconnect at) = Some (cr, er)" "ready cr" "cl_frame cr = cl_frame c3"
        "er \<noteq> None \<longrightarrow> cl_reconnectCount cr = cl_reconnectCount c3"
        using reconnectDial_result [OF r3 Some] at by (metis attempt_ok_def)
      show ?thesis
        using st None Some a r fin count fr False by (cases "isAuthExpired c3 (at_now at)") auto
    qed
  qed
qed

end

end
