(* ===== verification/Client_Session.thy ===== *)
theory Client_Session
  imports Client_Run
begin

text \<open>
  The life of a client (\<open>client/client.go\<close>) over both kinds of connection: reconnecting with a limit ends, closing on behalf of the server blocks, the interpretations
  of the client's locale on TCP and WebSocket connections of both protocol versions, the requests in flight as a step relation, and
  the properties of the client.
\<close>

context client_of
begin

text \<open>With a limit on the number of attempts the loop ends, with a connection or with the client closed.\<close>

lemma client_Close_closed:
  assumes "conn_ok c" "\<not> ch_closed (cl_closeCh c)" "ch_buf (cl_closeCh c) = []"
  shows "\<exists>c'. client_Close cc c err = Some (Returns c') \<and> client_closed c'"
proof -
  obtain co where "client_Close cc c err = Some (Returns (notify (\<lambda>f. ClosedTo f err) (cl_onClose c)
      (c\<lparr>cl_closeCh := (cl_closeCh c)\<lparr>ch_closed := True\<rparr>, cl_conn := co\<rparr>)))"
    using client_Close_result [OF assms, of err] by blast
  then show ?thesis using assms(3) by (cases "cl_onClose c") (simp_all add: notify_def client_closed_def try_recv_def)
qed

lemma reconnect_loop_ends:
  assumes "reconnectable ds c" "list_all attempt_ok ats" "0 < do_MaxReconnect (cl_dialOptions c)"
    and "nat (do_MaxReconnect (cl_dialOptions c) - cl_reconnectCount c) < length ats"
    and "\<not> ch_closed (cl_closeCh c)" "ch_buf (cl_closeCh c) = []"
  shows "\<exists>c'. reconnect_loop lib cc ds c ats = Some (Returns c') \<and> (client_closed c' \<or> cl_conn c' \<noteq> None)"
  using assms
proof (induction ats arbitrary: c)
  case (Cons at ats)
  let ?m = "do_MaxReconnect (cl_dialOptions c)"
  obtain c1 e where r: "reconnect lib cc ds c at = Some (Returns (c1, e))" "reconnectable ds c1" "cl_frame c1 = cl_frame c"
    "if ?m > 0 \<and> cl_reconnectCount c \<ge> ?m then e = Some ErrHitMaxReconnect \<and> c1 = c
     else if e = None then ready c1 else cl_reconnectCount c1 = cl_reconnectCount c + 1"
    using reconnect_result [OF Cons.prems(1)] Cons.prems(2) by force
  have f: "cl_closeCh c1 = cl_closeCh c" "cl_dialOptions c1 = cl_dialOptions c" using r(3) by (simp_all add: cl_frame_def)
  have k: "conn_ok c1" using r(2) by (simp add: reconnectable_def)
  show ?case
  proof (cases e)
    case None
    then have "ready c1" using r(4) by (auto split: if_splits)
    then show ?thesis using r(1) None by (auto simp: ready_def notify_def split: option.splits)
  next
    case (Some x)
    show ?thesis
    proof (cases "x = ErrHitMaxReconnect")
      case True
      obtain c' where "client_Close cc c1 (Some x) = Some (Returns c')" "client_closed c'"
        using client_Close_closed [OF k, of "Some x"] f Cons.prems(5,6) by auto
      then show ?thesis using r(1) Some True by simp
    next
      case False
      then have n: "cl_reconnectCount c < ?m" "cl_reconnectCount c1 = cl_reconnectCount c + 1"
        using r(4) Some Cons.prems(3) by (auto split: if_splits)
      have "\<exists>c'. reconnect_loop lib cc ds c1 ats = Some (Returns c') \<and> (client_closed c' \<or> cl_conn c' \<noteq> None)"
        using Cons.IH [OF r(2)] Cons.prems f n by simp
      then show ?thesis using r(1) Some False by simp
    qed
  qed
qed simp

lemma reconnecting_ends:
  assumes c: "conn_ok c" "recvs_ok c" "cl_rheld c = 0" "\<not> cl_doReconnectting c" "\<not> ch_closed (cl_closeCh c)" "ch_buf (cl_closeCh c) = []"
    and d: "ds (url_Scheme (cl_addr c)) = Some d" "dialer_ok d (url_Scheme (cl_addr c)) (cl_handshake c) (cl_dialOptions c)"
    and a: "list_all attempt_ok ats" "0 < do_MaxReconnect (cl_dialOptions c)"
      "nat (do_MaxReconnect (cl_dialOptions c) - cl_reconnectCount c) < length ats"
  shows "\<exists>c'. reconnecting lib cc ds c ats = Some (Returns c') \<and> (client_closed c' \<or> cl_conn c' \<noteq> None) \<and> \<not> cl_doReconnectting c'"
proof -
  have "reconnectable ds (c\<lparr>cl_doReconnectting := True\<rparr>)" using c d by (auto simp: reconnectable_def conn_ok_def recvs_ok_def)
  then obtain c' where "reconnect_loop lib cc ds (c\<lparr>cl_doReconnectting := True\<rparr>) ats = Some (Returns c')" "client_closed c' \<or> cl_conn c' \<noteq> None"
    using reconnect_loop_ends [of ds "c\<lparr>cl_doReconnectting := True\<rparr>" ats, where lib = lib] a c by auto
  then show ?thesis using c(3,4) by (simp add: reconnecting_def reconnecting_enter_def client_closed_def)
qed

text \<open>Closing on behalf of the server while the connection is open never gets past the callback.\<close>

lemma closeByServer_waits:
  assumes "cl_conn c = Some conn" "ok conn" "\<not> closed conn" "cbs conn \<noteq> []" "\<not> client_closed c" "pk_Metadata packet \<noteq> None"
  shows "\<exists>c'. closeByServer lib cc ds c packet ats = Some (Blocked c')"
proof -
  obtain conn' where "cc_Close cc conn (Some (ErrNew ''close by server'')) =
      Some (conn', map (\<lambda>cb. (cb, Some (ErrNew ''close by server''))) (cbs conn))"
    using Close [OF assms(2), of "Some (ErrNew ''close by server'')"] assms(3) by auto
  moreover have "run_nested (c\<lparr>cl_rheld := Suc (cl_rheld c), cl_conn := Some conn'\<rparr>) calls =
      Blocked (c\<lparr>cl_rheld := Suc (cl_rheld c), cl_conn := Some conn'\<rparr>)" if "calls \<noteq> []" for calls
    using assms(5) that by (intro run_nested_blocked) (simp_all add: client_closed_def)
  ultimately show ?thesis using assms(1,4,6) by (auto simp: closeByServer_def close_conn_def)
qed

end

text \<open>The client over both kinds of connection.\<close>

interpretation client_tcp_v1: client_of tcp_ClientConn "tcp_ok valid (v1_protocol rb gz level zr pooled)" tcp_closed "\<lambda>c. callbacks (tc_callbacks c)"
  for valid rb gz level zr pooled
  by intro_locales

interpretation client_tcp_v2: client_of tcp_ClientConn "tcp_ok valid (v2_protocol rb uni rangeord gz level zr pooled)" tcp_closed
    "\<lambda>c. callbacks (tc_callbacks c)"
  for valid rb uni rangeord gz level zr pooled
  by intro_locales

interpretation client_ws_v1: client_of "ws_ClientConn ctl" "ws_ok (v1_protocol rb gz level zr pooled)" ws_closed "\<lambda>c. callbacks (ws_callbacks c)"
  for ctl rb gz level zr pooled
  by intro_locales

interpretation client_ws_v2: client_of "ws_ClientConn ctl" "ws_ok (v2_protocol rb uni rangeord gz level zr pooled)" ws_closed
    "\<lambda>c. callbacks (ws_callbacks c)"
  for ctl rb uni rangeord gz level zr pooled
  by intro_locales

text \<open>The registered dialers; \<open>e\<close> is the error of the network dial.\<close>

definition tcp_dialer :: "'b rb_ops \<Rightarrow> ('h, 'i, 'b) Protocol manager \<Rightarrow> (('h, 'i, 'b, client_cb, 'g) tcpConn, 'g, error option) dialer" where
  "tcp_dialer rb mgr uri hs o' e = map_option (\<lambda>r. (uri, r)) (dialTCPConn rb mgr e hs o')"

definition ws_dialer :: "('h, 'i, 'b) Protocol manager \<Rightarrow> (('h, 'i, 'b, client_cb, 'g) wsConn, 'g, error option) dialer" where
  "ws_dialer mgr uri hs o' e = dialWSConn mgr e uri hs o'"

lemma tcp_dialer_ok:
  fixes rb :: "'b rb_ops" and mgr :: "(Header, 'i, 'b) Protocol manager" and o' :: "'g DialOptions"
  assumes "ring_buffer rb content valid" "wf_dial o'" "mgr (hs_Version hs) = Some (v1_protocol rb gz level zr pooled)"
  shows "client_of.dialer_ok (tcp_ok valid (v1_protocol rb gz level zr pooled)) (tcp_dialer rb mgr) sc hs o'"
  unfolding client_tcp_v1.dialer_ok_def
proof (intro allI impI)
  fix uri :: URL and e
  assume sc: "url_Scheme uri = sc"
  show "\<exists>uri' r. tcp_dialer rb mgr uri hs o' e = Some (uri', r) \<and> url_Scheme uri' = sc \<and>
      (\<forall>conn. r = Inr conn \<longrightarrow> tcp_ok valid (v1_protocol rb gz level zr pooled) conn)"
  proof (cases e)
    case None
    obtain c :: "(Header, 'i, 'b, client_cb, 'g) tcpConn" where "dialTCPConn rb mgr None hs o' = Some (Inr c)" "tcp_ok valid (v1_protocol rb gz level zr pooled) c"
      using ring_buffer.dialled [OF assms(1), of o' mgr hs, OF assms(2,3)] by metis
    then show ?thesis using None sc by (simp add: tcp_dialer_def)
  next
    case (Some err)
    then show ?thesis using sc assms(3) by (simp add: tcp_dialer_def dialTCPConn_def GetProtocol_def)
  qed
qed

subsection \<open>Requests in flight\<close>

text \<open>Any interleaving of requests that start to wait, responses that arrive and requests that stop waiting.\<close>

inductive req_step :: "('c, 's, 'g, 'k, 'l) client \<Rightarrow> ('c, 's, 'g, 'k, 'l) client \<Rightarrow> bool" where
  BeginR: "map_of (cl_recvs c) rid = None \<Longrightarrow> recv_begin c rid = (c', h) \<Longrightarrow> req_step c c'"
| ResponseR: "pk_Metadata p \<noteq> None \<Longrightarrow> handleResponse c p = Some c' \<Longrightarrow> req_step c c'"
| FinishR: "(rid, h) \<in> set (cl_recvs c) \<Longrightarrow> recv_end c rid h late = Some (c', res, err) \<Longrightarrow> req_step c c'"

inductive req_run :: "('c, 's, 'g, 'k, 'l) client \<Rightarrow> ('c, 's, 'g, 'k, 'l) client \<Rightarrow> bool" for c where
  req_Start: "req_run c c"
| req_Step: "req_run c c1 \<Longrightarrow> req_step c1 c2 \<Longrightarrow> req_run c c2"

lemma req_step_ok:
  assumes "req_step c c'" "recvs_ok c"
  shows "recvs_ok c'"
  using assms
proof (cases rule: req_step.cases)
  case (BeginR rid h)
  then show ?thesis using recvs_ok_begin(1) [OF assms(2)] by blast
next
  case (ResponseR p)
  then obtain rid where "packet_id p = Some rid" by (auto simp: packet_id_def)
  then show ?thesis using handleResponse_result [OF assms(2)] ResponseR(2) by fastforce
next
  case (FinishR rid h late res err)
  then show ?thesis using recv_end_result [OF assms(2) FinishR(1), of late] by auto
qed

lemma req_run_ok:
  assumes "req_run c c'" "recvs_ok c"
  shows "recvs_ok c'"
  using assms by (induction rule: req_run.induct) (auto intro: req_step_ok)

subsection \<open>Properties\<close>

text \<open>
  C6. A request gets its own response.  On a TCP connection of version 1 \<open>Do\<close> returns whatever arrives while it waits: the error if the request could not be
  sent, which is the case on a closed connection; otherwise the first of the responses handled while it waits that carries the id drawn for this request,
  with the error that its status stands for, or the timeout if there is none or the deadline came first; a response that is handled before \<open>recv\<close> has registered
  the id is dropped and does not count.  The pending requests are as before, and still sound.
\<close>

theorem client_Do_reply:
  assumes "cl_conn c = Some conn" "tcp_ok valid (v1_protocol rb gz level zr pooled) conn" "recvs_ok c"
    and "rid = snd (NextReqId (tc_qctx conn))" "map_of (cl_recvs c) rid = None"
    and "\<forall>p \<in> set (de_early env @ de_in env). pk_Metadata p \<noteq> None"
    and "reply = find (\<lambda>p. packet_id p = Some rid) (de_in env)"
  shows "\<exists>c' res err. client_Do lib tcp_ClientConn c req env = Some (c', res, err) \<and> cl_recvs c' = cl_recvs c \<and> recvs_ok c' \<and>
    (case do_request lib tcp_ClientConn (c\<lparr>cl_rheld := cl_rheld c + 1\<rparr>) req (de_res env) of
       None \<Rightarrow> False
     | Some (_, Inl e) \<Rightarrow> res = None \<and> err = Some e
     | Some (_, Inr _) \<Rightarrow> \<not> tcp_closed conn \<and>
         (if de_late env \<or> reply = None then res = None \<and> err = Some (timeout_error rid)
          else res = reply \<and> Packet_Err (lib_err lib) (the reply) = Some err))"
proof -
  have ctx: "cc_Context tcp_ClientConn conn = tc_qctx conn" by (simp add: tcp_ClientConn_def tcp_Context_def)
  note d = client_tcp_v1.client_Do_result [OF assms(1,2,3) _ assms(6), of lib req, unfolded ctx Let_def, folded assms(4), folded assms(7), OF assms(5)]
  then show ?thesis by (elim exE conjE) (intro exI conjI, assumption, simp_all)
qed

text \<open>
  C7. Requests in flight do not disturb each other.  After any interleaving of requests that begin to wait under different ids, arriving responses and requests that
  finish, starting without pending requests, a response with any id is accepted without a panic, and each pending request can finish, without a
  panic, with a response that carries its own id or with the timeout.
\<close>

theorem requests_independent:
  assumes "cl_recvs c0 = []" "req_run c0 c"
  shows "recvs_ok c \<and> (pk_Metadata p \<noteq> None \<longrightarrow> handleResponse c p \<noteq> None) \<and>
    (\<forall>(rid, h) \<in> set (cl_recvs c). \<exists>c' res err. recv_end c rid h late = Some (c', res, err) \<and>
       (case res of None \<Rightarrow> err = Some (timeout_error rid) | Some q \<Rightarrow> packet_id q = Some rid \<and> err = None))"
proof -
  have ok: "recvs_ok c" using req_run_ok [OF assms(2)] assms(1) by (simp add: recvs_ok_def)
  have "handleResponse c p \<noteq> None" if "pk_Metadata p \<noteq> None"
  proof -
    obtain rid where "packet_id p = Some rid" using \<open>pk_Metadata p \<noteq> None\<close> by (auto simp: packet_id_def)
    then show ?thesis using handleResponse_result [OF ok] by fastforce
  qed
  moreover have "\<exists>c' res err. recv_end c rid h late = Some (c', res, err) \<and>
       (case res of None \<Rightarrow> err = Some (timeout_error rid) | Some q \<Rightarrow> packet_id q = Some rid \<and> err = None)"
    if mem: "(rid, h) \<in> set (cl_recvs c)" for rid h
  proof -
    have "\<exists>q. hd (ch_buf (cl_chans c ! h)) = Some q \<and> packet_id q = Some rid" if "ch_buf (cl_chans c ! h) \<noteq> []"
      using recvs_okD(2) [OF ok mem] hd_in_set [OF that] by (auto simp: chan_for_def)
    then show ?thesis
      using recv_end_result [OF ok mem, of late] by (cases "late \<or> ch_buf (cl_chans c ! h) = []") auto
  qed
  ultimately show ?thesis using ok by blast
qed

text \<open>
  C8. Reconnecting ends when attempts are limited.  If \<open>MaxReconnect\<close> is positive, \<open>reconnecting\<close> on a client over TCP returns after at most as many
  attempts as are left, and one more that notices the limit, whatever happens to them (dial errors, failing tokens, timeouts, error responses): the client
  then has a new connection or is closed.
\<close>

theorem reconnecting_terminates:
  assumes "ring_buffer_flat rb content valid flat" "wf_dial (cl_dialOptions c)" "0 < do_MaxReconnect (cl_dialOptions c)"
    and "mgr (hs_Version (cl_handshake c)) = Some (v1_protocol rb gz level zr pooled)"
    and "ds (url_Scheme (cl_addr c)) = Some (tcp_dialer rb mgr)"
    and "\<forall>conn. cl_conn c = Some conn \<longrightarrow> tcp_ok valid (v1_protocol rb gz level zr pooled) conn"
    and "recvs_ok c" "cl_rheld c = 0" "\<not> cl_doReconnectting c" "\<not> ch_closed (cl_closeCh c)" "ch_buf (cl_closeCh c) = []"
    and "list_all attempt_ok ats" "nat (do_MaxReconnect (cl_dialOptions c) - cl_reconnectCount c) < length ats"
  shows "\<exists>c'. reconnecting lib tcp_ClientConn ds c ats = Some (Returns c') \<and> (client_closed c' \<or> cl_conn c' \<noteq> None) \<and> \<not> cl_doReconnectting c'"
proof -
  have "client_of.conn_ok (tcp_ok valid (v1_protocol rb gz level zr pooled)) c"
    using assms(6) by (simp add: client_tcp_v1.conn_ok_def)
  moreover have "client_of.dialer_ok (tcp_ok valid (v1_protocol rb gz level zr pooled)) (tcp_dialer rb mgr) (url_Scheme (cl_addr c))
      (cl_handshake c) (cl_dialOptions c)"
    using tcp_dialer_ok [of rb content valid _ mgr, OF ring_buffer_flat.axioms(1) [OF assms(1)] assms(2,4)] .
  ultimately show ?thesis
    using client_tcp_v1.reconnecting_ends [of valid rb gz level zr pooled c ds "tcp_dialer rb mgr" ats lib] assms(3,5,7-13) by blast
qed

text \<open>
  C28. A close packet of the server blocks the client for good.  When the client over TCP gets one while its connection is open, \<open>closeByServer\<close> closes the
  connection with the read lock held; the close callback runs in the same goroutine and waits for the write lock, so the handler of packets never returns.
\<close>

theorem closeByServer_deadlock:
  assumes "cl_conn c = Some conn" "tcp_ok valid (v1_protocol rb gz level zr pooled) conn" "\<not> tcp_closed conn"
    and "callbacks (tc_callbacks conn) \<noteq> []" "\<not> client_closed c"
    and "control_ok (lib_ctl lib)" "pk_Metadata packet = Some md" "md_CmdCode md = CMD_CLOSE (lib_ctl lib)"
  shows "\<exists>c'. onPacket lib tcp_ClientConn ds c (Some packet) None env = Some (Blocked c')"
proof -
  have "\<exists>c'. closeByServer lib tcp_ClientConn ds c packet (pe_attempts env) = Some (Blocked c')"
    using client_tcp_v1.closeByServer_waits [OF assms(1-5), of packet lib ds "pe_attempts env"] assms(7) by simp
  then show ?thesis
    using assms(6-8) by (auto simp: onPacket_def handleControl_def packet_kind_defs control_ok_def)
qed

text \<open>A client over the connection of the examples.\<close>

definition example_lib :: "unit client_lib" where
  "example_lib = \<lparr>lib_ctl = example_control,
     lib_enc = \<lparr>is_proto_msg = (\<lambda>_. True), json_Marshal = (\<lambda>_. Inr []), proto_Marshal = (\<lambda>_. Inr [])\<rparr>, lib_uni = id,
     lib_err = \<lparr>is_proto_target = True, json_Unmarshal = (\<lambda>_. Inl ErrInvalidMessage), proto_Unmarshal = (\<lambda>_. Inl ErrInvalidMessage)\<rparr>,
     lib_auth = \<lparr>is_proto_target = True, json_Unmarshal = (\<lambda>_. Inl ErrInvalidMessage), proto_Unmarshal = (\<lambda>_. Inl ErrInvalidMessage)\<rparr>\<rparr>"

definition example_env :: do_env where
  "example_env = \<lparr>de_res = None, de_early = [v1_example], de_in = [v1_example], de_late = False\<rparr>"

abbreviation example_prot :: "(Header, unit, circ) Protocol" where
  "example_prot \<equiv> v1_protocol circ_ops stored_gz 6 None Header_zero"

type_synonym example_client = "((Header, unit, circ, client_cb, unit) tcpConn, nat, unit, unit, unit) client"

lemma example_conn:
  obtains conn :: "(Header, unit, circ, client_cb, unit) tcpConn"
  where "dialTCPConn circ_ops example_manager None example_handshake example_options = Some (Inr conn)"
    "tcp_ok circ_inv example_prot conn" "\<not> tcp_closed conn"
proof -
  obtain conn :: "(Header, unit, circ, client_cb, unit) tcpConn" where
    "dialTCPConn circ_ops example_manager None example_handshake example_options = Some (Inr conn)"
    "tcp_ok circ_inv example_prot conn" "\<not> tc_closeOnce conn"
    using circ.dialled [of example_options example_manager example_handshake, OF example_facts(1,2)] by metis
  then show thesis using that tcp_okD(4) by blast
qed

theorem client_Do_reply_witness:
  "\<exists>conn c' res err. dialTCPConn circ_ops example_manager None example_handshake example_options = Some (Inr conn) \<and>
     client_Do example_lib tcp_ClientConn ((New () () [])\<lparr>cl_conn := Some conn\<rparr> :: example_client)
       \<lparr>rq_Cmd = 10, rq_Body = None, rq_Metadata = []\<rparr> example_env = Some (c', res, err) \<and> recvs_ok c'"
proof -
  obtain conn :: "(Header, unit, circ, client_cb, unit) tcpConn" where
    conn: "dialTCPConn circ_ops example_manager None example_handshake example_options = Some (Inr conn)" "tcp_ok circ_inv example_prot conn"
    by (rule example_conn)
  let ?c = "(New () () [])\<lparr>cl_conn := Some conn\<rparr> :: example_client"
  have c: "cl_conn ?c = Some conn" "recvs_ok ?c" "map_of (cl_recvs ?c) i = None" for i by (simp_all add: recvs_ok_def New_def)
  have p: "\<forall>p \<in> set (de_early example_env @ de_in example_env). pk_Metadata p \<noteq> None" by (simp add: example_env_def v1_example_def)
  show ?thesis
    using client_Do_reply [OF c(1) conn(2) c(2) refl c(3) p refl, of example_lib "\<lparr>rq_Cmd = 10, rq_Body = None, rq_Metadata = []\<rparr>"] conn(1) by blast
qed

theorem requests_independent_witness:
  "\<exists>c h. recv_begin (New () () [] :: example_client) 7 = (c, h) \<and> recvs_ok c \<and> handleResponse c v1_example \<noteq> None"
proof -
  obtain c h where b: "recv_begin (New () () [] :: example_client) 7 = (c, h)" by fastforce
  have s: "cl_recvs (New () () [] :: example_client) = []" by (simp add: New_def)
  have "req_run (New () () [] :: example_client) c"
    by (rule req_run.req_Step [OF req_run.req_Start], rule req_step.BeginR [OF _ b]) (simp add: s)
  from requests_independent [OF s this, of v1_example False] b show ?thesis by (simp add: v1_example_def)
qed

definition example_attempt :: "error option attempt" where
  "example_attempt = \<lparr>at_dial = Some ErrConnClosed, at_now = 0, at_auth = \<lparr>ae_token = Inr [], ae_do = example_env\<rparr>,
     at_reconnect = \<lparr>re_do = example_env, re_auth = \<lparr>ae_token = Inr [], ae_do = example_env\<rparr>\<rparr>\<rparr>"

theorem reconnecting_terminates_witness:
  "\<exists>c'. reconnecting example_lib tcp_ClientConn [''tcp'' \<mapsto> tcp_dialer circ_ops example_manager]
     ((New () () [])\<lparr>cl_dialOptions := newDialOptions [MaxReconnect 1], cl_handshake := example_handshake,
        cl_addr := URL_zero\<lparr>url_Scheme := ''tcp''\<rparr>\<rparr> :: example_client) [example_attempt, example_attempt] = Some (Returns c') \<and>
     (client_closed c' \<or> cl_conn c' \<noteq> None)"
proof -
  let ?c = "(New () () [])\<lparr>cl_dialOptions := newDialOptions [MaxReconnect 1], cl_handshake := example_handshake,
        cl_addr := URL_zero\<lparr>url_Scheme := ''tcp''\<rparr>\<rparr> :: example_client"
  have "wf_dial (cl_dialOptions ?c)" "do_MaxReconnect (cl_dialOptions ?c) = 1"
    by (simp_all add: newDialOptions_def wf_dial_def default_defs MaxReconnect_def)
  moreover have "recvs_ok ?c" "cl_rheld ?c = 0" "\<not> cl_doReconnectting ?c" "\<not> ch_closed (cl_closeCh ?c)" "ch_buf (cl_closeCh ?c) = []"
    "cl_conn ?c = None" "cl_reconnectCount ?c = 0"
    by (simp_all add: New_def recvs_ok_def)
  moreover have "list_all attempt_ok [example_attempt, example_attempt]"
    by (simp add: example_attempt_def attempt_ok_def do_env_ok_def example_env_def v1_example_def)
  ultimately show ?thesis
    using reconnecting_terminates [OF circ.ring_buffer_flat_axioms, of ?c example_manager stored_gz 6 None Header_zero
        "[''tcp'' \<mapsto> tcp_dialer circ_ops example_manager]" "[example_attempt, example_attempt]" example_lib] example_facts(2)
    by auto
qed

theorem closeByServer_deadlock_witness:
  "\<exists>conn c'. dialTCPConn circ_ops example_manager None example_handshake example_options = Some (Inr conn) \<and>
     onPacket example_lib tcp_ClientConn (Map.empty :: ((Header, unit, circ, client_cb, unit) tcpConn, unit, error option) dialer dialers)
       ((New () () [])\<lparr>cl_conn := Some (tcp_OnClose conn OnConnClose)\<rparr> :: example_client)
       (Some \<lparr>pk_Metadata = Some (Metadata_zero\<lparr>md_CmdCode := 0\<rparr>), pk_Body = []\<rparr>) None
       \<lparr>pe_now = 0, pe_res = None, pe_attempts = []\<rparr> = Some (Blocked c')"
proof -
  obtain conn :: "(Header, unit, circ, client_cb, unit) tcpConn" where
    conn: "dialTCPConn circ_ops example_manager None example_handshake example_options = Some (Inr conn)"
      "tcp_ok circ_inv example_prot conn" "\<not> tcp_closed conn"
    by (rule example_conn)
  let ?conn = "tcp_OnClose conn OnConnClose"
  let ?c = "(New () () [])\<lparr>cl_conn := Some ?conn\<rparr> :: example_client"
  have "tcp_ok circ_inv example_prot ?conn" "\<not> tcp_closed ?conn" "callbacks (tc_callbacks ?conn) \<noteq> []"
    using tcp_v1.OnClose [OF conn(2), of OnConnClose] conn(3) by (auto simp: tcp_ClientConn_def)
  moreover have "\<not> client_closed ?c" by (simp add: client_closed_def New_def try_recv_def)
  moreover have "control_ok (lib_ctl example_lib)" "CMD_CLOSE (lib_ctl example_lib) = 0"
    by (simp_all add: control_ok_def example_lib_def example_control_def)
  ultimately show ?thesis
    using closeByServer_deadlock [of ?c ?conn circ_inv circ_ops stored_gz 6 None Header_zero example_lib
        "\<lparr>pk_Metadata = Some (Metadata_zero\<lparr>md_CmdCode := 0\<rparr>), pk_Body = []\<rparr>" "Metadata_zero\<lparr>md_CmdCode := 0\<rparr>" Map.empty
        "\<lparr>pe_now = 0, pe_res = None, pe_attempts = []\<rparr>"] conn(1) by auto
qed

text \<open>
  C29. Pushes go to the subscribers of their command.  However subscriptions were made, a push packet that is not a control packet is handed to exactly the
  functions subscribed to its command, once per subscription and in the order of subscription, and changes nothing else; without subscribers it is dropped.
\<close>

theorem push_dispatch:
  assumes "cl_subs c = Map.empty" "pk_Metadata p = Some md" "md_Type md = PushPacket" "\<not> IsControl (lib_ctl lib) (md_CmdCode md)"
    and "c' = foldl (\<lambda>c (cmd, sub). Subscribe c cmd sub) c subs"
  shows "onPacket lib cc ds c' (Some p) None env =
    Some (Returns (c'\<lparr>cl_log := cl_log c @ map (\<lambda>s. PushTo (snd s) p) (filter (\<lambda>s. fst s = md_CmdCode md) subs)\<rparr>))"
proof -
  have "(case cl_subs c' cmd of None \<Rightarrow> [] | Some ss \<Rightarrow> ss) = map snd (filter (\<lambda>s. fst s = cmd) subs) \<and> cl_log c' = cl_log c" for cmd
    unfolding assms(5)
  proof (induction subs rule: rev_induct)
    case Nil
    then show ?case by (simp add: assms(1))
  next
    case (snoc s subs)
    then show ?case by (cases s) (auto simp: Subscribe_def split: option.splits)
  qed
  from this [of "md_CmdCode md"] show ?thesis
    using assms(2-4)
    by (cases c') (auto simp: onPacket_def Packet_IsControl_def handlePush_def Packet_CMD_def returns_def comp_def split: option.splits)
qed

theorem push_dispatch_witness:
  "\<exists>c. onPacket example_lib tcp_ClientConn (Map.empty :: ((Header, unit, circ, client_cb, unit) tcpConn, unit, error option) dialer dialers)
     (Subscribe (Subscribe (New () () [] :: example_client) 101 1) 102 2)
     (Some \<lparr>pk_Metadata = Some (Metadata_zero\<lparr>md_Type := PushPacket, md_CmdCode := 101\<rparr>), pk_Body = []\<rparr>) None
     \<lparr>pe_now = 0, pe_res = None, pe_attempts = []\<rparr> = Some (Returns c) \<and>
     cl_log c = [PushTo 1 \<lparr>pk_Metadata = Some (Metadata_zero\<lparr>md_Type := PushPacket, md_CmdCode := 101\<rparr>), pk_Body = []\<rparr>]"
proof -
  have "cl_subs (New () () [] :: example_client) = Map.empty" "cl_log (New () () [] :: example_client) = []" by (simp_all add: New_def)
  moreover have "\<not> IsControl (lib_ctl example_lib) 101" by (simp add: IsControl_def example_lib_def example_control_def)
  ultimately show ?thesis
    using push_dispatch [of "New () () [] :: example_client" "\<lparr>pk_Metadata = Some (Metadata_zero\<lparr>md_Type := PushPacket, md_CmdCode := 101\<rparr>), pk_Body = []\<rparr>"
        "Metadata_zero\<lparr>md_Type := PushPacket, md_CmdCode := 101\<rparr>" example_lib "Subscribe (Subscribe (New () () []) 101 1) 102 2" "[(101, 1), (102, 2)]"
        tcp_ClientConn "Map.empty :: ((Header, unit, circ, client_cb, unit) tcpConn, unit, error option) dialer dialers"
        "\<lparr>pe_now = 0, pe_res = None, pe_attempts = []\<rparr>"]
    by simp
qed

text \<open>
  C30. Where the client panics.  A failed dial leaves the client without a connection, and \<open>Do\<close> without one panics.  A request that is waiting when \<open>reconnect\<close>
  closes the response channels panics when it finishes, because it closes its channel again.  Closing a client that is closed already panics, also
  when it was closed because the limit of reconnects was hit.
\<close>

theorem client_panics:
  assumes "dialer (cl_addr c) (cl_handshake c) (cl_dialOptions c) e = Some (uri, Inl err)" "cl_rheld c = 0"
    and "recvs_ok c2" "(rid, h) \<in> set (cl_recvs c2)" "close_all (cl_chans c2) (cl_recvs c2) = Some chans"
    and "ch_closed (cl_closeCh c3)"
  shows "(\<exists>c'. client_dial cc dialer c e = Some (Returns (c', Some err)) \<and> client_Do lib cc c' req env = None) \<and>
    recv_end (c2\<lparr>cl_chans := chans, cl_recvs := []\<rparr>) rid h late = None \<and>
    client_Close cc c3 err' = None"
proof -
  have "distinct (map snd (cl_recvs c2))" "\<forall>(rid, h) \<in> set (cl_recvs c2). h < length (cl_chans c2) \<and> \<not> ch_closed (cl_chans c2 ! h)"
    using assms(3) by (auto simp: recvs_ok_def chan_for_def)
  from close_all_result [OF this] assms(5) have
    ch: "length chans = length (cl_chans c2)" "\<And>h. chans ! h = (if h \<in> snd ` set (cl_recvs c2) then (cl_chans c2 ! h)\<lparr>ch_closed := True\<rparr> else cl_chans c2 ! h)"
    by auto
  have "h \<in> snd ` set (cl_recvs c2)" using assms(4) by force
  then have "ch_closed (chans ! h)" "h < length chans" using ch recvs_okD(1) [OF assms(3,4)] by auto
  then have "recv_end (c2\<lparr>cl_chans := chans, cl_recvs := []\<rparr>) rid h late = None"
    by (auto simp: recv_end_def idx_def try_recv_def close_chan_def Let_def split: list.splits)
  moreover have "client_Close cc c3 err' = None" using assms(6) by (simp add: client_Close_def close_chan_def)
  moreover have "\<exists>c'. client_dial cc dialer c e = Some (Returns (c', Some err)) \<and> client_Do lib cc c' req env = None"
    using assms(1,2) by (simp add: client_dial_def client_Do_def do_request_def Let_def)
  ultimately show ?thesis by blast
qed

theorem client_panics_witness:
  "client_Close tcp_ClientConn ((New () () [])\<lparr>cl_closeCh := \<lparr>ch_buf = [], ch_cap = 0, ch_closed = True\<rparr>\<rparr> :: example_client) None = None \<and>
   (\<exists>c h chans. recv_begin (New () () [] :: example_client) 7 = (c, h) \<and> close_all (cl_chans c) (cl_recvs c) = Some chans \<and>
     recv_end (c\<lparr>cl_chans := chans, cl_recvs := []\<rparr>) 7 h False = None)"
proof -
  let ?n = "New () () [] :: example_client"
  obtain c h where b: "recv_begin ?n 7 = (c, h)" by fastforce
  have n: "recvs_ok ?n" "map_of (cl_recvs ?n) 7 = None" "cl_rheld ?n = 0" by (simp_all add: New_def recvs_ok_def)
  note r = recvs_ok_begin [OF n(1,2) b]
  have "distinct (map snd (cl_recvs c))" "\<forall>(rid, h) \<in> set (cl_recvs c). h < length (cl_chans c) \<and> \<not> ch_closed (cl_chans c ! h)"
    using r(1) by (auto simp: recvs_ok_def chan_for_def)
  then obtain chans where ca: "close_all (cl_chans c) (cl_recvs c) = Some chans" using close_all_result by blast
  have d: "tcp_dialer circ_ops example_manager (cl_addr ?n) example_handshake (cl_dialOptions ?n) (Some ErrConnClosed) =
      Some (cl_addr ?n, Inl ErrConnClosed)"
    using example_facts(2) by (simp add: tcp_dialer_def dialTCPConn_def GetProtocol_def)
  have d': "tcp_dialer circ_ops example_manager (cl_addr (?n\<lparr>cl_handshake := example_handshake\<rparr>))
      (cl_handshake (?n\<lparr>cl_handshake := example_handshake\<rparr>)) (cl_dialOptions (?n\<lparr>cl_handshake := example_handshake\<rparr>)) (Some ErrConnClosed) =
      Some (cl_addr ?n, Inl ErrConnClosed)"
    using d by simp
  have mem: "(7, h) \<in> set (cl_recvs c)" using r(2) by simp
  let ?c3 = "?n\<lparr>cl_closeCh := \<lparr>ch_buf = [], ch_cap = 0, ch_closed = True\<rparr>\<rparr>"
  show ?thesis
    using client_panics [of "tcp_dialer circ_ops example_manager" "?n\<lparr>cl_handshake := example_handshake\<rparr>" "Some ErrConnClosed" "cl_addr ?n" ErrConnClosed
        c 7 h chans ?c3 tcp_ClientConn example_lib "\<lparr>rq_Cmd = 10, rq_Body = None, rq_Metadata = []\<rparr>" example_env False None, OF d' _ r(1) mem ca] n(3) b ca
    by auto
qed

text \<open>
  A session counts as expired from ten seconds before the time the server gave, in milliseconds, whatever its sign, and always when there is none; a client that
  has sent a heartbeat counts as dead when no pong came for longer than the keepalive timeout.
\<close>

theorem auth_expiry:
  "(isAuthExpired c now \<longleftrightarrow>
     (case cl_authInfo c of None \<Rightarrow> True | Some info \<Rightarrow> ar_Expires info * 1000000 - 10 * time_Second \<le> now)) \<and>
   (keepalive_check c now \<longleftrightarrow> cl_lastKeepaliveId c = 0 \<or> now \<le> cl_lastPongAt c + do_KeepaliveTimeout (cl_dialOptions c))"
proof -
  have e: "(x sdiv 1000 - 10) * time_Second + x smod 1000 * 1000000 = x * 1000000 - 10 * time_Second" for x :: int
    using sdiv_mult_smod_eq [of x 1000] by (simp add: time_Second_def algebra_simps)
  show ?thesis by (auto simp: isAuthExpired_def time_Unix_def e keepalive_check_def Let_def split: option.splits)
qed

end
