(* ===== verification/Client_Handlers.thy ===== *)
theory Client_Handlers
  imports Client_Session
begin

text \<open>
  The handlers of the client (\<open>onPacket\<close> and what it calls, the keepalive goroutine in \<open>client/client.go\<close>) never panic on a client that is
  in order, and leave it in order.  The lemmas hold over every connection that satisfies \<open>client_conn\<close>; the property is stated for TCP and version 1.
\<close>

text \<open>A call that does not panic: whether it returns or goes on reconnecting the state satisfies \<open>good\<close>; it blocks for good only if \<open>blocks\<close>.\<close>

definition handled :: "('a \<Rightarrow> bool) \<Rightarrow> bool \<Rightarrow> 'a outcome go \<Rightarrow> bool" where
  "handled good blocks r \<longleftrightarrow>
     (case r of None \<Rightarrow> False | Some (Returns c) \<Rightarrow> good c | Some (Trying c) \<Rightarrow> good c | Some (Blocked c) \<Rightarrow> blocks)"

lemma handled_mono: "handled good b r \<Longrightarrow> (\<And>c. good c \<Longrightarrow> good' c) \<Longrightarrow> (b \<Longrightarrow> b') \<Longrightarrow> handled good' b' r"
  by (auto simp: handled_def split: option.splits outcome.splits)

context client_of
begin

text \<open>A client between two events: the handlers and the keepalive goroutine keep it like this.\<close>

definition live :: "('c, 'g, 'e) dialer dialers \<Rightarrow> ('c, 's, 'g, 'k, 'l) client \<Rightarrow> bool" where
  "live ds c \<longleftrightarrow> conn_ok c \<and> recvs_ok c \<and> cl_rheld c = 0 \<and> ch_buf (cl_closeCh c) = [] \<and>
     (\<exists>d. ds (url_Scheme (cl_addr c)) = Some d \<and> dialer_ok d (url_Scheme (cl_addr c)) (cl_handshake c) (cl_dialOptions c))"

lemma live_upd [simp]:
  "live ds (c\<lparr>cl_doReconnectting := b\<rparr>) = live ds c" "live ds (c\<lparr>cl_log := l\<rparr>) = live ds c" "live ds (c\<lparr>cl_lastPongAt := t\<rparr>) = live ds c"
  "live ds (c\<lparr>cl_lastKeepaliveId := i\<rparr>) = live ds c" "live ds (notify ev f c) = live ds c"
  by (cases f; simp add: live_def conn_ok_def recvs_ok_def notify_def)+

lemma live_conn: "live ds c \<Longrightarrow> ok conn \<Longrightarrow> live ds (c\<lparr>cl_conn := Some conn\<rparr>)"
  by (simp add: live_def conn_ok_def recvs_ok_def)

lemma live_reconnectable: "live ds c \<and> cl_doReconnectting c \<longleftrightarrow> reconnectable ds c \<and> ch_buf (cl_closeCh c) = []"
  by (auto simp: live_def reconnectable_def)

lemma client_Close_live:
  assumes "live ds c" "\<not> client_closed c"
  shows "\<exists>c'. client_Close cc c err = Some (Returns c') \<and> live ds c'"
proof -
  have "conn_ok c" "\<not> ch_closed (cl_closeCh c)" "ch_buf (cl_closeCh c) = []" using assms by (auto simp: live_def client_closed_def try_recv_def)
  from client_Close_result [OF this, of err] obtain co where
    "client_Close cc c err = Some (Returns (notify (\<lambda>f. ClosedTo f err) (cl_onClose c)
      (c\<lparr>cl_closeCh := (cl_closeCh c)\<lparr>ch_closed := True\<rparr>, cl_conn := co\<rparr>)))" "\<forall>conn. co = Some conn \<longrightarrow> ok conn" by blast
  moreover have "live ds (c\<lparr>cl_closeCh := (cl_closeCh c)\<lparr>ch_closed := True\<rparr>, cl_conn := co\<rparr>)"
    using assms(1) calculation(2) by (simp add: live_def conn_ok_def recvs_ok_def)
  ultimately show ?thesis by simp
qed

lemma reconnect_loop_live:
  assumes "live ds c" "cl_doReconnectting c" "\<not> client_closed c" "list_all attempt_ok ats"
  shows "handled (live ds) False (reconnect_loop lib cc ds c ats)"
  using assms
proof (induction ats arbitrary: c)
  case Nil
  then show ?case by (simp add: handled_def)
next
  case (Cons at ats)
  have rc: "reconnectable ds c" "attempt_ok at" using Cons.prems live_reconnectable [of ds c] by auto
  obtain c1 e where r: "reconnect lib cc ds c at = Some (Returns (c1, e))" "reconnectable ds c1" "cl_frame c1 = cl_frame c"
    using reconnect_result [OF rc] by blast
  have ch: "cl_closeCh c1 = cl_closeCh c" using r(3) by (simp add: cl_frame_def)
  then have c1: "live ds c1" "cl_doReconnectting c1" "\<not> client_closed c1"
    using live_reconnectable [of ds c1] r(2) Cons.prems(1,3) by (auto simp: live_def client_closed_def)
  show ?case
  proof (cases e)
    case None
    then show ?thesis using r(1) c1 by (simp add: handled_def)
  next
    case (Some x)
    then show ?thesis
      using r(1) c1 Cons.IH [OF c1] Cons.prems(4) client_Close_live [OF c1(1,3), of "Some x"] by (auto simp: handled_def)
  qed
qed

lemma reconnecting_live:
  assumes "live ds c" "\<not> client_closed c" "list_all attempt_ok ats"
  shows "handled (live ds) False (reconnecting lib cc ds c ats)"
proof (cases "cl_doReconnectting c")
  case True
  then show ?thesis using assms by (simp add: reconnecting_def reconnecting_enter_def handled_def live_def)
next
  case False
  have "handled (live ds) False (reconnect_loop lib cc ds (c\<lparr>cl_doReconnectting := True\<rparr>) ats)"
    using assms by (intro reconnect_loop_live) (simp_all add: client_closed_def)
  moreover have "cl_rheld c = 0" using assms(1) by (simp add: live_def)
  ultimately show ?thesis using False
    by (auto simp: reconnecting_def reconnecting_enter_def handled_def split: option.splits outcome.splits)
qed

lemma client_write_live:
  assumes "live ds c" "cl_conn c = Some conn" "pk_Metadata p = Some md"
  shows "\<exists>c' p' err. client_write cc c p res = Some (c', p', err) \<and> live ds c' \<and> client_closed c' = client_closed c"
  using client_write_result [OF assms(2) _ assms(3), of res] assms(1,2) live_conn [OF assms(1)]
  by (fastforce simp: live_def conn_ok_def client_closed_def)

lemma handleResponse_live:
  assumes "live ds c" "pk_Metadata p = Some md"
  shows "handled (live ds) b (returns (handleResponse c p))"
proof -
  obtain chans where "handleResponse c p = Some (c\<lparr>cl_chans := chans\<rparr>)" "recvs_ok (c\<lparr>cl_chans := chans\<rparr>)"
    using handleResponse_result [of c p "md_RequestId md"] assms by (auto simp: live_def packet_id_def)
  then show ?thesis using assms(1) by (simp add: handled_def returns_def live_def conn_ok_def)
qed

lemma handlePing_live:
  assumes "live ds c" "cl_conn c \<noteq> None" "pk_Metadata p = Some md"
  shows "handled (live ds) b (returns (handlePing lib cc c p res))"
proof -
  let ?c = "notify (\<lambda>f. PingTo f p) (cl_onPing c) c"
  obtain conn where conn: "cl_conn ?c = Some conn" using assms(2) by (cases "cl_onPing c") (auto simp: notify_def)
  obtain q md' where q: "NewResponse (lib_enc lib) (cc_Context cc conn) (CMD_HEARTBEAT (lib_ctl lib)) StatusSuccess
        (BytesBody (pk_Body p)) [WithRequestId (md_RequestId md)] = Some (q, None)" "pk_Metadata q = Some md'"
    by (simp add: NewResponse_def NewPacket_def)
  obtain c' p' err where "client_write cc ?c q res = Some (c', p', err)" "live ds c'"
    using client_write_live [of ds ?c conn q md' res] assms(1) conn q(2) by auto
  then show ?thesis
    using assms(1,3) conn q(1) by (simp add: handlePing_def returns_def handled_def Let_def)
qed

lemma closeByServer_live:
  assumes "live ds c" "\<not> client_closed c" "pk_Metadata p = Some md" "list_all attempt_ok ats"
  shows "handled (live ds) True (closeByServer lib cc ds c p ats)"
proof -
  let ?c = "c\<lparr>cl_rheld := cl_rheld c + 1\<rparr>"
  have *: "handled (live ds) True (reconnecting lib cc ds (c'\<lparr>cl_rheld := cl_rheld c' - 1\<rparr>) ats)" if "c' = ?c\<lparr>cl_conn := co\<rparr>" "\<forall>conn. co = Some conn \<longrightarrow> ok conn" for c' co
  proof -
    have "live ds (c'\<lparr>cl_rheld := cl_rheld c' - 1\<rparr>)" "\<not> client_closed (c'\<lparr>cl_rheld := cl_rheld c' - 1\<rparr>)"
      using assms(1,2) that by (auto simp: live_def conn_ok_def recvs_ok_def client_closed_def)
    from reconnecting_live [OF this assms(4), of lib] show ?thesis by (auto simp: handled_def split: option.splits outcome.splits)
  qed
  show ?thesis
  proof (cases "cl_conn c")
    case None
    then have "closeByServer lib cc ds c p ats = reconnecting lib cc ds (?c\<lparr>cl_rheld := cl_rheld ?c - 1\<rparr>) ats"
      using assms(3) by (simp add: closeByServer_def close_conn_def)
    moreover have "?c = ?c\<lparr>cl_conn := None\<rparr>" using None by simp
    ultimately show ?thesis using * [of ?c None] by simp
  next
    case (Some conn)
    then obtain conn' calls where "cc_Close cc conn (Some (ErrNew ''close by server'')) = Some (conn', calls)" "ok conn'"
      using Close [of conn] assms(1) by (fastforce simp: live_def conn_ok_def)
    moreover have "run_nested (?c\<lparr>cl_conn := Some conn'\<rparr>) calls =
        (if calls = [] then Returns (?c\<lparr>cl_conn := Some conn'\<rparr>) else Blocked (?c\<lparr>cl_conn := Some conn'\<rparr>))"
      using assms(2) by (auto intro!: run_nested_blocked simp: client_closed_def)
    ultimately show ?thesis using Some assms(3) * [of "?c\<lparr>cl_conn := Some conn'\<rparr>" "Some conn'"]
      by (cases "calls = []") (simp_all add: closeByServer_def close_conn_def handled_def)
  qed
qed

lemma onPacket_live:
  assumes c: "live ds c" "\<not> client_closed c" "cl_conn c \<noteq> None" and ats: "list_all attempt_ok (pe_attempts env)"
    and p: "err \<noteq> None \<or> packet = Some p \<and> pk_Metadata p = Some md"
  shows "handled (live ds) (err = None \<and> Packet_IsClose (lib_ctl lib) p = Some True) (onPacket lib cc ds c packet err env)"
proof (cases err)
  case (Some e)
  then show ?thesis using reconnecting_live [OF c(1,2) ats, of lib] by (simp add: onPacket_def)
next
  case None
  with p have pm: "packet = Some p" "pk_Metadata p = Some md" by auto
  have cls: "handled (live ds) (Packet_IsClose (lib_ctl lib) p = Some True) (closeByServer lib cc ds c p (pe_attempts env))"
    if "Packet_IsClose (lib_ctl lib) p = Some True"
    using closeByServer_live [OF c(1,2) pm(2) ats, of lib] that by simp
  have ctl: "handled (live ds) (Packet_IsClose (lib_ctl lib) p = Some True) (handleControl lib cc ds c p env)"
    using cls handlePing_live [OF c(1,3) pm(2)] handleResponse_live [OF c(1) pm(2)] c(1) pm(2)
    by (auto simp: handleControl_def packet_kind_defs handled_def [of _ _ "Some (Returns _)"] handlePong_def)
  show ?thesis
    using ctl handleResponse_live [OF c(1) pm(2)] None pm c(1)
    by (auto simp: onPacket_def Packet_IsControl_def handlePush_def Packet_CMD_def returns_def handled_def [of _ _ "Some (Returns _)"] split: option.splits)
qed

lemma onConnClose_live:
  assumes "live ds c" "list_all attempt_ok ats"
  shows "handled (live ds) False (onConnClose lib cc ds c err ats)"
  using reconnecting_live [OF assms(1) _ assms(2), of lib] assms(1) by (auto simp: onConnClose_def handled_def)

lemma keepalive_tick_live:
  assumes c: "live ds c" "\<not> client_closed c" and ats: "list_all attempt_ok (pe_attempts env)"
  shows "handled (live ds) False (keepalive_tick lib cc ds c env)"
proof (cases "keepalive_check c (pe_now env)")
  case False
  then show ?thesis using reconnecting_live [OF c ats, of lib] by (simp add: keepalive_tick_def)
next
  case True
  have "\<exists>c' err. keepalive_ping lib cc c (pe_now env) (pe_res env) = Some (c', err) \<and> live ds c' \<and> client_closed c' = client_closed c"
  proof (cases "cl_doReconnectting c \<or> cl_conn c = None")
    case True
    then show ?thesis using c(1) by (auto simp: keepalive_ping_def split: option.splits)
  next
    case False
    then obtain conn where conn: "cl_conn c = Some conn" "\<not> cl_doReconnectting c" by auto
    let ?ctx = "fst (NextReqId (cc_Context cc conn))" and ?id = "snd (NextReqId (cc_Context cc conn))"
    let ?c = "c\<lparr>cl_conn := Some (cc_setContext cc conn ?ctx)\<rparr>"
    let ?hb = "MsgBody (CtlMsg (Heartbeat (pe_now env sdiv 1000000) (Some ?id)))"
    have k: "ok (cc_setContext cc conn ?ctx)" "cc_Context cc (cc_setContext cc conn ?ctx) = ?ctx"
      using setContext [of conn ?ctx] c(1) conn(1) by (auto simp: live_def conn_ok_def)
    have l: "live ds ?c" "client_closed ?c = client_closed c" using live_conn [OF c(1) k(1)] by (simp_all add: client_closed_def)
    obtain p e where np: "NewPacket (lib_enc lib) ?ctx RequestPacket (CMD_HEARTBEAT (lib_ctl lib)) ?hb [WithRequestId ?id] = Some (p, e)"
      "e = None \<longrightarrow> pk_Metadata p \<noteq> None"
      using NewPacket_total [of "lib_enc lib" ?ctx RequestPacket "CMD_HEARTBEAT (lib_ctl lib)" ?hb "[WithRequestId ?id]"] by (auto split: option.splits)
    show ?thesis
    proof (cases e)
      case (Some x)
      then show ?thesis using conn np(1) k(2) l by (simp add: keepalive_ping_def case_prod_unfold Let_def)
    next
      case None
      then obtain md where "pk_Metadata p = Some md" using np(2) by auto
      from client_write_live [OF l(1) _ this, of "cc_setContext cc conn ?ctx" "pe_res env"] obtain c' p' err where
        "client_write cc ?c p (pe_res env) = Some (c', p', err)" "live ds c'" "client_closed c' = client_closed c" using l(2) by auto
      then show ?thesis using conn np(1) k(2) None
        by (cases err) (simp_all add: keepalive_ping_def case_prod_unfold Let_def client_closed_def)
    qed
  qed
  then obtain c' err where p: "keepalive_ping lib cc c (pe_now env) (pe_res env) = Some (c', err)" "live ds c'" "client_closed c' = client_closed c"
    by blast
  then show ?thesis
    using True reconnecting_live [OF p(2) _ ats, of lib] c(2) by (cases err) (simp_all add: keepalive_tick_def handled_def [of _ _ "Some (Returns _)"])
qed

end

subsection \<open>Property\<close>

text \<open>
  C9. What arrives cannot crash the client.  On an open client over TCP with a sound connection, sound pending requests and no lock held, the handler of a packet with
  metadata, of an error of the connection and of its closing, and an iteration of the keepalive goroutine never panic, whatever the packet is, whatever the
  handler writes and however dialling, authentication and the limit of attempts go on while it reconnects.  Only a close packet can block it.  Afterwards the pending requests are sound
  again, no lock is held, and the connection, if there is one, is sound.
\<close>

theorem handlers_safe:
  fixes c :: "((Header, 'i, 'b, client_cb, 'g) tcpConn, 's, 'g, 'k, 'l) client"
  assumes "ring_buffer_flat rb content valid flat" "wf_dial (cl_dialOptions c)"
    and "mgr (hs_Version (cl_handshake c)) = Some prot" "prot = v1_protocol rb gz level zr pooled"
    and "ds (url_Scheme (cl_addr c)) = Some (tcp_dialer rb mgr)"
    and "cl_conn c = Some conn" "tcp_ok valid prot conn" "recvs_ok c" "cl_rheld c = 0" "\<not> ch_closed (cl_closeCh c)" "ch_buf (cl_closeCh c) = []"
    and "list_all attempt_ok (pe_attempts env)" "pk_Metadata p \<noteq> None"
    and "good = (\<lambda>c'. recvs_ok c' \<and> cl_rheld c' = 0 \<and> (\<forall>conn. cl_conn c' = Some conn \<longrightarrow> tcp_ok valid prot conn))"
  shows "handled good (Packet_IsClose (lib_ctl lib) p = Some True) (onPacket lib tcp_ClientConn ds c (Some p) None env) \<and>
    handled good False (onPacket lib tcp_ClientConn ds c packet (Some err) env) \<and>
    handled good False (onConnClose lib tcp_ClientConn ds c err' (pe_attempts env)) \<and>
    handled good False (keepalive_tick lib tcp_ClientConn ds c env)"
proof -
  let ?live = "client_of.live (tcp_ok valid prot) ds"
  note unf = client_tcp_v1.live_def [of valid rb gz level zr pooled, folded assms(4)]
  have "client_of.dialer_ok (tcp_ok valid prot) (tcp_dialer rb mgr) (url_Scheme (cl_addr c)) (cl_handshake c) (cl_dialOptions c)"
    using tcp_dialer_ok [of rb content valid _ mgr, OF ring_buffer_flat.axioms(1) [OF assms(1)] assms(2)] assms(3,4) by blast
  then have live: "?live c"
    using assms(5-9,11) by (simp add: unf client_tcp_v1.conn_ok_def assms(4))
  have op: "\<not> client_closed c" "cl_conn c \<noteq> None" using assms(6,10,11) by (auto simp: client_closed_def try_recv_def)
  have good: "good c'" if "?live c'" for c' using that by (simp add: unf assms(4,14) client_tcp_v1.conn_ok_def)
  obtain md where md: "pk_Metadata p = Some md" using assms(13) by blast
  note on = client_tcp_v1.onPacket_live [of valid rb gz level zr pooled ds c, folded assms(4), OF live op assms(12)]
  have "handled ?live (Packet_IsClose (lib_ctl lib) p = Some True) (onPacket lib tcp_ClientConn ds c (Some p) None env)"
    using on [of None "Some p" p md lib] md by simp
  moreover have "handled ?live False (onPacket lib tcp_ClientConn ds c packet (Some err) env)"
    using on [of "Some err" packet p md lib] by simp
  moreover have "handled ?live False (onConnClose lib tcp_ClientConn ds c err' (pe_attempts env))"
    using client_tcp_v1.onConnClose_live [of valid rb gz level zr pooled ds c, folded assms(4), OF live assms(12)] .
  moreover have "handled ?live False (keepalive_tick lib tcp_ClientConn ds c env)"
    using client_tcp_v1.keepalive_tick_live [of valid rb gz level zr pooled ds c, folded assms(4), OF live op(1) assms(12)] .
  ultimately show ?thesis using good by (blast intro: handled_mono)
qed

theorem handlers_safe_witness:
  "\<exists>conn. dialTCPConn circ_ops example_manager None example_handshake example_options = Some (Inr conn) \<and>
     handled recvs_ok False (onPacket example_lib tcp_ClientConn [''tcp'' \<mapsto> tcp_dialer circ_ops example_manager]
       ((New () () [])\<lparr>cl_conn := Some conn, cl_handshake := example_handshake, cl_addr := URL_zero\<lparr>url_Scheme := ''tcp''\<rparr>\<rparr> :: example_client)
       (Some v1_example) None \<lparr>pe_now = 0, pe_res = None, pe_attempts = [example_attempt]\<rparr>)"
proof -
  obtain conn :: "(Header, unit, circ, client_cb, unit) tcpConn" where
    conn: "dialTCPConn circ_ops example_manager None example_handshake example_options = Some (Inr conn)" "tcp_ok circ_inv example_prot conn"
    by (rule example_conn)
  let ?c = "(New () () [])\<lparr>cl_conn := Some conn, cl_handshake := example_handshake, cl_addr := URL_zero\<lparr>url_Scheme := ''tcp''\<rparr>\<rparr> :: example_client"
  let ?env = "\<lparr>pe_now = 0, pe_res = None, pe_attempts = [example_attempt]\<rparr>"
  let ?ds = "[''tcp'' \<mapsto> tcp_dialer circ_ops example_manager]"
  have "wf_dial (cl_dialOptions ?c)" "recvs_ok ?c" "cl_rheld ?c = 0" "\<not> ch_closed (cl_closeCh ?c)" "ch_buf (cl_closeCh ?c) = []"
    by (simp_all add: New_def newDialOptions_def wf_dial_def default_defs recvs_ok_def)
  moreover have "list_all attempt_ok (pe_attempts ?env)" "pk_Metadata v1_example \<noteq> None"
    by (simp_all add: example_attempt_def attempt_ok_def do_env_ok_def example_env_def v1_example_def)
  ultimately have "handled (\<lambda>c'. recvs_ok c' \<and> cl_rheld c' = 0 \<and> (\<forall>conn. cl_conn c' = Some conn \<longrightarrow> tcp_ok circ_inv example_prot conn))
      (Packet_IsClose (lib_ctl example_lib) v1_example = Some True) (onPacket example_lib tcp_ClientConn ?ds ?c (Some v1_example) None ?env)"
    using handlers_safe [OF circ.ring_buffer_flat_axioms, of ?c example_manager example_prot stored_gz 6 None Header_zero ?ds conn ?env v1_example
        _ example_lib, OF _ _ refl _ _ _ _ _ _ _ _ _ refl] conn(2) example_facts(2) by simp
  moreover have "Packet_IsClose (lib_ctl example_lib) v1_example \<noteq> Some True"
    by (simp add: v1_example_def packet_kind_defs example_lib_def example_control_def)
  ultimately have "handled recvs_ok False (onPacket example_lib tcp_ClientConn ?ds ?c (Some v1_example) None ?env)"
    by (elim handled_mono) auto
  with conn(1) show ?thesis by blast
qed

end
