(* ===== verification/Rpc.thy ===== *)
theory Rpc
  imports Client_Handlers
begin

text \<open>
  A request and its response through all layers: the client, a TCP connection, protocol version 1 and the byte stream.

  The lemmas follow the request from \<open>Do\<close> to the frame in the write queue, and the response from the bytes that arrive, in chunks of any sizes, through the read
  loop, the packet queue, the goroutine of \<open>OnPacket\<close> and the handlers of the client to the end of \<open>recv\<close>.
\<close>

subsection \<open>The request\<close>

lemma set_all_values:
  assumes "pk_Metadata p = Some md" "set_all uni p kvs = Some p'"
  shows "\<exists>vals. p' = p\<lparr>pk_Metadata := Some (md\<lparr>md_Values := vals\<rparr>)\<rparr>"
  using assms
proof (induction kvs arbitrary: p md)
  case Nil
  then show ?case by (intro exI [of _ "md_Values md"]) simp
next
  case (Cons kv kvs)
  obtain k v where kv: "kv = (k, v)" by fastforce
  obtain p1 where p1: "SetMetadata uni p k v = Some p1" "set_all uni p1 kvs = Some p'"
    using Cons.prems kv by (auto simp: bind_eq_Some_conv)
  obtain md1 e where md1: "Metadata_Set uni md k v = Some (md1, e)" "p1 = p\<lparr>pk_Metadata := Some md1\<rparr>"
    using p1(1) Cons.prems(1) by (auto simp: SetMetadata_def bind_eq_Some_conv)
  have "md1 = md\<lparr>md_Values := md_Values md1\<rparr>"
    using md1(1) by (auto simp: Metadata_Set_def split: if_splits option.splits)
  then obtain vals where "p1 = p\<lparr>pk_Metadata := Some (md\<lparr>md_Values := vals\<rparr>)\<rparr>" using md1(2) by metis
  with Cons.IH [of p1] p1(2) show ?case by auto
qed

definition request_packet :: "CodecType \<Rightarrow> 32 word \<Rightarrow> 32 word \<Rightarrow> (bytes \<rightharpoonup> bytes) option \<Rightarrow> bytes \<Rightarrow> Packet" where
  "request_packet codec cmd rid vals body =
     \<lparr>pk_Metadata = Some (Metadata_zero\<lparr>md_Type := RequestPacket, md_Codec := codec, md_CmdCode := cmd, md_RequestId := rid,
        md_Values := vals\<rparr>), pk_Body = body\<rparr>"

lemma tcp_ClientConn_simps [simp]:
  "cc_Context tcp_ClientConn conn = tc_qctx conn" "cc_setContext tcp_ClientConn conn ctx = conn\<lparr>tc_qctx := ctx\<rparr>"
  "cc_Write tcp_ClientConn conn p popts res = tcp_Write conn p popts"
  by (simp_all add: tcp_ClientConn_def tcp_Context_def)

lemma do_request_tcp:
  fixes lib :: "'u client_lib"
  assumes conn: "cl_conn c = Some conn" "tcp_ok valid (v1_protocol rb gz level zr pooled) conn"
    and r: "do_request lib tcp_ClientConn c req res = Some (c1, Inr rid)"
  obtains vals body p' frame where
    "rid = snd (NextReqId (tc_qctx conn))"
    "case rq_Body req of None \<Rightarrow> body = [] | Some m \<Rightarrow> marshal (lib_enc lib) (ctx_Codec (tc_qctx conn)) m = Some (Inr body)"
    "protocolV1_Pack gz level pooled (request_packet (ctx_Codec (tc_qctx conn)) (rq_Cmd req) rid vals body)
       [GzipSize (do_MinGzipSize (cl_dialOptions c))] = Some (p', Inr frame)"
    "c1 = c\<lparr>cl_conn := Some (conn\<lparr>tc_qctx := fst (NextReqId (tc_qctx conn)),
       tc_writeCh := (tc_writeCh conn)\<lparr>ch_buf := ch_buf (tc_writeCh conn) @ [frame]\<rparr>\<rparr>)\<rparr>" "\<not> tcp_closed conn"
proof -
  let ?ctx = "fst (NextReqId (tc_qctx conn))" and ?id = "snd (NextReqId (tc_qctx conn))"
  let ?md = "Metadata_zero\<lparr>md_Type := RequestPacket, md_Codec := ctx_Codec (tc_qctx conn), md_CmdCode := rq_Cmd req,
      md_RequestId := ?id, md_Values := Some Map.empty\<rparr>"
  have codec: "ctx_Codec ?ctx = ctx_Codec (tc_qctx conn)" by (simp add: NextReqId_def Let_def)
  let ?body = "case rq_Body req of None \<Rightarrow> NilBody | Some m \<Rightarrow> MsgBody m"
  define c0 where "c0 = c\<lparr>cl_conn := Some (conn\<lparr>tc_qctx := ?ctx\<rparr>)\<rparr>"
  obtain p1 e where np: "NewPacket (lib_enc lib) ?ctx RequestPacket (rq_Cmd req) ?body [WithRequestId ?id] = Some (p1, e)"
    using NewPacket_total [of "lib_enc lib" ?ctx RequestPacket "rq_Cmd req" ?body "[WithRequestId ?id]"] by auto
  have nr: "NewRequest (lib_enc lib) (tc_qctx conn) (rq_Cmd req) ?body [] = Some (?ctx, p1, e)"
    using np by (simp add: NewRequest_def case_prod_unfold)
  have dr: "do_request lib tcp_ClientConn c req res = (case e of
        Some err \<Rightarrow> Some (c0, Inl err)
      | None \<Rightarrow> do {
          rp \<leftarrow> set_all (lib_uni lib) p1 (rq_Metadata req);
          (c, rp, err) \<leftarrow> client_write tcp_ClientConn c0 rp res;
          (case err of
             Some err \<Rightarrow> Some (c, Inl err)
           | None \<Rightarrow> do { md \<leftarrow> pk_Metadata rp; Some (c, Inr (md_RequestId md)) }) })"
    using conn(1) nr by (cases e) (simp_all add: do_request_def c0_def Let_def)
  then have e: "e = None" using r by (cases e) auto
  note r' = r [unfolded dr e, simplified]
  obtain body where body: "p1 = \<lparr>pk_Metadata = Some ?md, pk_Body = body\<rparr>"
    "case rq_Body req of None \<Rightarrow> body = [] | Some m \<Rightarrow> marshal (lib_enc lib) (ctx_Codec (tc_qctx conn)) m = Some (Inr body)"
  proof (cases "rq_Body req")
    case None
    then show thesis using that np e codec by (simp add: NewPacket_def WithRequestId_def Metadata_zero_def)
  next
    case (Some m)
    obtain x where "marshal (lib_enc lib) (ctx_Codec (tc_qctx conn)) m = Some x"
      using np Some codec by (auto simp: NewPacket_def bind_eq_Some_conv)
    then show thesis using that np e codec Some by (cases x) (auto simp: NewPacket_def WithRequestId_def Metadata_zero_def)
  qed
  obtain p2 where p2: "set_all (lib_uni lib) p1 (rq_Metadata req) = Some p2"
    using r' by (auto simp: bind_eq_Some_conv)
  obtain vals where vals: "p2 = request_packet (ctx_Codec (tc_qctx conn)) (rq_Cmd req) ?id vals body"
    using set_all_values [OF _ p2] body(1) by (auto simp: request_packet_def)
  let ?o = "[GzipSize (do_MinGzipSize (cl_dialOptions c))]"
  let ?conn = "conn\<lparr>tc_qctx := ?ctx\<rparr>"
  obtain conn2 p3 where w: "tcp_Write ?conn p2 ?o = Some (conn2, p3, None)" "c1 = c\<lparr>cl_conn := Some conn2\<rparr>"
      "map_option md_RequestId (pk_Metadata p3) = Some rid"
    using r' p2 by (auto simp: client_write_def c0_def bind_eq_Some_conv split: option.splits)
  have ok: "tcp_ok valid (v1_protocol rb gz level zr pooled) ?conn" using conn(2) by (simp add: tcp_ok_def tcp_inv_def)
  have cl: "tcp_closed ?conn = tcp_closed conn" by (simp add: tcp_closed_def)
  have p: "prot_Pack (tc_p ?conn) = (\<lambda>_. protocolV1_Pack gz level pooled)" using conn(2) by (simp add: tcp_ok_def v1_protocol_def)
  have open': "\<not> tcp_closed conn" using w(1) cl by (auto simp: tcp_Write_def)
  obtain frame where f: "protocolV1_Pack gz level pooled p2 ?o = Some (p3, Inr frame)" "tcp_write ?conn frame = Some (conn2, None)"
  proof -
    obtain q x where x: "protocolV1_Pack gz level pooled p2 ?o = Some (q, x)"
      using w(1) open' cl p by (auto simp: tcp_Write_def bind_eq_Some_conv)
    then show thesis using that w(1) open' cl p by (cases x) (auto simp: tcp_Write_def bind_eq_Some_conv)
  qed
  have no: "\<not> tc_closeOnce ?conn" using open' tcp_okD(4) [OF ok] cl by blast
  have c2: "conn2 = conn\<lparr>tc_qctx := ?ctx, tc_writeCh := (tc_writeCh conn)\<lparr>ch_buf := ch_buf (tc_writeCh conn) @ [frame]\<rparr>\<rparr>"
    using f(2) tcp_write_result [OF ok, of frame] tcp_enqueue_result [OF ok no, of frame] no by auto
  have "rid = ?id"
    using protocolV1_Pack_metadata [of p2 _ gz level pooled ?o] f(1) w(3) vals by (auto simp: request_packet_def)
  then show thesis using that [of body vals p3 frame] body(2) f(1) vals w(2) c2 open' by simp
qed

subsection \<open>The response\<close>

text \<open>Between two frames: nothing of a packet has been read, the packet queue is empty and has room for \<open>n\<close> packets.\<close>

definition v1_idle :: "('b \<Rightarrow> bytes) \<Rightarrow> nat \<Rightarrow> (Header, 'i, 'b, 'cb, 'g) tcpConn \<Rightarrow> bool" where
  "v1_idle content n conn \<longleftrightarrow> \<not> tcp_closed conn \<and> current_header (tc_qctx conn) = Header_zero \<and> content (tc_readBuf conn) = [] \<and>
     (case tc_packetCh conn of None \<Rightarrow> False | Some ch \<Rightarrow> ch_buf ch = [] \<and> n \<le> ch_cap ch)"

text \<open>The goroutine of \<open>OnPacket\<close>, \<open>n\<close> iterations, and the client's handler on what it is called with.\<close>

fun tcp_delivers :: "nat \<Rightarrow> ('h, 'i, 'b, 'cb, 'g) tcpConn
    \<Rightarrow> (('h, 'i, 'b, 'cb, 'g) tcpConn \<times> (Packet option \<times> error option) list) go" where
  "tcp_delivers 0 conn = Some (conn, [])"
| "tcp_delivers (Suc n) conn = do {
     (conn, calls, l) \<leftarrow> tcp_deliver conn;
     (conn, calls') \<leftarrow> tcp_delivers n conn;
     Some (conn, calls @ calls') }"

fun onPackets ::
    "'u client_lib \<Rightarrow> ('c, 'h, 'i, client_cb) ClientConn \<Rightarrow> ('c, 'g, 'e) dialer dialers \<Rightarrow> ('c, 's, 'g, 'k, 'l) client
     \<Rightarrow> (Packet option \<times> error option) list \<Rightarrow> 'e packet_env \<Rightarrow> ('c, 's, 'g, 'k, 'l) client outcome go" where
  "onPackets lib cc ds c [] env = Some (Returns c)"
| "onPackets lib cc ds c ((p, err) # calls) env = do {
     r \<leftarrow> onPacket lib cc ds c p err env;
     (case r of Returns c \<Rightarrow> onPackets lib cc ds c calls env | r \<Rightarrow> Some r) }"

lemma tcp_delivers_queue:
  assumes "tc_packetCh conn = Some ch" "ch_buf ch = map Some ps @ qs" "\<not> tcp_closed conn"
  shows "tcp_delivers (length ps) conn = Some (conn\<lparr>tc_packetCh := Some (ch\<lparr>ch_buf := qs\<rparr>)\<rparr>, map (\<lambda>p. (Some p, None)) ps)"
  using assms
proof (induction ps arbitrary: conn ch)
  case (Cons p ps)
  let ?ch = "ch\<lparr>ch_buf := map Some ps @ qs\<rparr>"
  have "tcp_deliver conn = Some (conn\<lparr>tc_packetCh := Some ?ch\<rparr>, [(Some p, None)], Again)"
    using Cons.prems by (simp add: tcp_deliver_def tcp_receive_def try_recv_def)
  moreover have "\<not> tcp_closed (conn\<lparr>tc_packetCh := Some ?ch\<rparr>)" using Cons.prems(3) by (simp add: tcp_closed_def)
  ultimately show ?case using Cons.IH [of "conn\<lparr>tc_packetCh := Some ?ch\<rparr>" ?ch] by simp
next
  case Nil
  then show ?case by (cases conn; cases ch) simp
qed

text \<open>Responses that are not control packets reach \<open>handleResponse\<close>.\<close>

definition plain_response :: "control \<Rightarrow> Packet \<Rightarrow> bool" where
  "plain_response ctl p \<longleftrightarrow>
     (case pk_Metadata p of None \<Rightarrow> False | Some md \<Rightarrow> md_Type md = ResponsePacket \<and> \<not> IsControl ctl (md_CmdCode md))"

lemma onPackets_responses:
  assumes "list_all (plain_response (lib_ctl lib)) ps"
  shows "onPackets lib cc ds c (map (\<lambda>p. (Some p, None)) ps) env = map_option Returns (handleResponses c ps)"
  using assms
proof (induction ps arbitrary: c)
  case (Cons p ps)
  have "onPacket lib cc ds c (Some p) None env = map_option Returns (handleResponse c p)"
    using Cons.prems by (auto simp: plain_response_def onPacket_def Packet_IsControl_def returns_def split: option.splits)
  then show ?case using Cons by (cases "handleResponse c p") simp_all
qed simp

lemma v1_step_idle:
  assumes "current_header ctx = Header_zero"
  shows "v1_step gz zr ctx b = v1_step gz zr (ctx\<lparr>ctx_beginUnpack := False, ctx_Header := None\<rparr>) b"
proof -
  have cur: "current_header (ctx\<lparr>ctx_beginUnpack := False, ctx_Header := None\<rparr>) = Header_zero" by (simp add: current_header_def)
  have hm: "Header_Metadata h (ctx\<lparr>ctx_beginUnpack := False, ctx_Header := None\<rparr>) = Header_Metadata h ctx" for h
    by (simp add: Header_Metadata_def)
  show ?thesis unfolding v1_step_def assms cur hm by simp
qed

lemma v1_drain_idle:
  assumes gz: "gzip_codec gz" "- 1 \<le> level" "level \<le> 9" and ctx: "current_header ctx = Header_zero"
    and sent: "list_all (v1_packed gz level pooled) sent"
  shows "drain (v1_step gz zr) ctx (concat (map (snd \<circ> snd) sent)) =
    Some (ctx\<lparr>ctx_beginUnpack := True, ctx_Header := Some Header_zero\<rparr>, [], map (\<lambda>s. Some (v1_delivered ctx s)) sent, None)"
proof -
  define base where "base = ctx\<lparr>ctx_beginUnpack := False, ctx_Header := None\<rparr>"
  have base: "ctx_Header base = None" "\<not> ctx_beginUnpack base" by (simp_all add: base_def)
  define fqs where "fqs = map (\<lambda>s. (snd (snd s), v1_delivered base s)) sent"
  have st: "v1_step gz zr base (f @ rest) = (base, rest, Some q, True, None)" if "(f, q) \<in> set fqs" for f q rest
    using that sent v1_packed_step(1) [OF gz _ base] by (fastforce simp: fqs_def list_all_iff)
  have w: "drain (v1_step gz zr) base [] = Some (base\<lparr>ctx_beginUnpack := True, ctx_Header := Some Header_zero\<rparr>, [], [], None)"
    using base by (simp add: drain.simps v1_step_frame_step frame_step_def Header_zero_def v1_header_step_def header_step_def Let_def)
  have "drain (v1_step gz zr) base (concat (map fst fqs) @ []) =
      Some (base\<lparr>ctx_beginUnpack := True, ctx_Header := Some Header_zero\<rparr>, [], map (Some \<circ> snd) fqs @ [], None)"
    by (rule v1_circ.drain_frames [OF st w])
  moreover have "drain (v1_step gz zr) ctx b = drain (v1_step gz zr) base b" for b
    unfolding base_def by (subst drain.simps, subst v1_step_idle [OF ctx], rule drain.simps [symmetric])
  moreover have "v1_delivered base s = v1_delivered ctx s" for s by (simp add: v1_delivered_def v1_received_def base_def)
  ultimately show ?thesis by (simp add: fqs_def base_def comp_def)
qed

context tcp_reader
begin

lemma tcp_reading_ok:
  assumes "tcp_ok inv prot c" "tcp_reading rb c rs = Some c'"
  shows "tcp_ok inv prot c'"
  using assms
proof (induction rs arbitrary: c)
  case (Cons r rs)
  obtain c1 goes where "tcp_reading_step rb c r = Some (c1, goes)" "tcp_ok inv prot c1"
    using tcp_reading_result [OF Cons.prems(1), of r] by auto
  with Cons show ?case by (cases goes) auto
qed simp

end

lemma tcp_v1_responses:
  fixes conn :: "(Header, 'i, 'b, 'cb, 'g) tcpConn"
  assumes rb: "ring_buffer_flat rb content valid flat" and gz: "gzip_codec gz" "- 1 \<le> level" "level \<le> 9"
    and conn: "tcp_ok valid (v1_protocol rb gz level zr pooled) conn" "v1_idle content n conn"
    and sent: "list_all (v1_packed gz level pooled') sent" "length sent \<le> n" "concat ds = concat (map (snd \<circ> snd) sent)" "sent \<noteq> []"
  shows "\<exists>conn1 conn2. tcp_reading rb conn (map (\<lambda>d. (d, None)) ds) = Some conn1 \<and>
    tcp_delivers (length sent) conn1 = Some (conn2, map (\<lambda>s. (Some (v1_delivered (tc_qctx conn) s), None)) sent) \<and>
    v1_idle content n conn2 \<and> tcp_ok valid (v1_protocol rb gz level zr pooled) conn2"
proof -
  note rd = v1_tcp_reader [OF rb, of gz zr level pooled]
  have cl: "\<not> tc_closeOnce conn" "current_header (tc_qctx conn) = Header_zero" "content (tc_readBuf conn) = []"
    using conn tcp_okD(4) [OF conn(1)] by (auto simp: v1_idle_def)
  obtain ch where ch: "tc_packetCh conn = Some ch" "ch_buf ch = []" "n \<le> ch_cap ch" using conn(2) by (auto simp: v1_idle_def split: option.splits)
  let ?ps = "map (\<lambda>s. v1_delivered (tc_qctx conn) s) sent"
  have dr: "drain (v1_step gz zr) (tc_qctx conn) (content (tc_readBuf conn) @ concat ds) =
      Some ((tc_qctx conn)\<lparr>ctx_beginUnpack := True, ctx_Header := Some Header_zero\<rparr>, [], map Some ?ps, None)"
    using v1_drain_idle [OF gz cl(2) sent(1), of zr] cl(3) sent(3) by (simp add: comp_def)
  have ne: "concat ds \<noteq> []"
    using sent v1_packed_step(2) [OF gz, of pooled' _ _ _ "(NewContext ClientSide :: (Header, 'i) Context)"]
    by (cases sent) (fastforce simp: NewContext_def)+
  obtain conn1 where c1: "tcp_reading rb conn (map (\<lambda>d. (d, None)) ds) = Some conn1"
    "tc_qctx conn1 = (tc_qctx conn)\<lparr>ctx_beginUnpack := True, ctx_Header := Some Header_zero\<rparr>"
    "tc_packetCh conn1 = queued (tc_packetCh conn) (map Some ?ps)" "\<not> tc_closeOnce conn1" "content (tc_readBuf conn1) = []"
    using tcp_reader.tcp_reading_concat [OF rd tcp_okD(2,1) [OF conn(1)] cl(1) tcp_okD(3) [OF conn(1) cl(1)] ne dr] by auto
  have ok1: "tcp_ok valid (v1_protocol rb gz level zr pooled) conn1" by (rule tcp_reader.tcp_reading_ok [OF rd conn(1) c1(1)])
  have op: "\<not> tcp_closed conn1" using c1(4) tcp_okD(4) [OF ok1] by simp
  have "tc_packetCh conn1 = Some (ch\<lparr>ch_buf := map Some ?ps\<rparr>)" using c1(3) ch sent(2) by (simp add: queued_def)
  from tcp_delivers_queue [OF this _ op, of ?ps "[]"]
  have d: "tcp_delivers (length sent) conn1 = Some (conn1\<lparr>tc_packetCh := Some (ch\<lparr>ch_buf := []\<rparr>)\<rparr>, map (\<lambda>p. (Some p, None)) ?ps)" by simp
  have "tcp_ok valid (v1_protocol rb gz level zr pooled) (conn1\<lparr>tc_packetCh := Some (ch\<lparr>ch_buf := []\<rparr>)\<rparr>)"
    using tcp_ok_packets [OF ok1, of "ch\<lparr>ch_buf := []\<rparr>"] c1(3) ch tcp_okD(3) [OF conn(1) cl(1)] by (auto simp: queued_def open_chan_def chan_ok_def)
  moreover have "v1_idle content n (conn1\<lparr>tc_packetCh := Some (ch\<lparr>ch_buf := []\<rparr>)\<rparr>)"
    using op c1(2,5) ch(3) by (simp add: v1_idle_def tcp_closed_def current_header_def)
  ultimately show ?thesis using c1(1) d by (auto simp: comp_def)
qed

text \<open>What the client gets of a response that the server packed.\<close>

lemma v1_delivered_response:
  assumes "plain_response ctl (v1_delivered ctx (p, opts, frame))"
  shows "packet_id (v1_delivered ctx (p, opts, frame)) = packet_id p"
    "map_option md_StatusCode (pk_Metadata (v1_delivered ctx (p, opts, frame))) = map_option md_StatusCode (pk_Metadata p)"
    "pk_Body (v1_delivered ctx (p, opts, frame)) = pk_Body p"
  using assms by (auto simp: plain_response_def v1_delivered_def v1_received_def packet_id_def split: option.splits)

lemma find_delivered:
  assumes "list_all (plain_response ctl \<circ> v1_delivered ctx) sent"
  shows "find (\<lambda>q. packet_id q = Some rid) (map (v1_delivered ctx) sent) =
    map_option (v1_delivered ctx) (find (\<lambda>(p, _, _). packet_id p = Some rid) sent)"
  using assms
proof (induction sent)
  case (Cons s sent)
  then show ?case using v1_delivered_response(1) [of ctl ctx] by (cases s) auto
qed simp

text \<open>A waiting request and the responses that the handler is called with.\<close>

lemma request_answered:
  assumes ok: "recvs_ok c" "map_of (cl_recvs c) rid = None" and b: "recv_begin c rid = (c1, h)"
    and ps: "list_all (plain_response (lib_ctl lib)) ps" and q: "find (\<lambda>q. packet_id q = Some rid) ps = Some q"
  shows "\<exists>c2 c3. onPackets lib cc ds c1 (map (\<lambda>p. (Some p, None)) ps) env = Some (Returns c2) \<and>
    recv_end c2 rid h False = Some (c3, Some q, None) \<and> cl_recvs c3 = cl_recvs c \<and> recvs_ok c3 \<and> cl_conn c3 = cl_conn c"
proof -
  note bg = recvs_ok_begin [OF ok b]
  have md: "\<forall>p \<in> set ps. pk_Metadata p \<noteq> None" using ps by (auto simp: list_all_iff plain_response_def split: option.splits)
  obtain chans where hr: "handleResponses c1 ps = Some (c1\<lparr>cl_chans := chans\<rparr>)" "recvs_ok (c1\<lparr>cl_chans := chans\<rparr>)"
    "\<forall>(rid, h) \<in> set (cl_recvs c1). ch_buf (chans ! h) = first_for rid (ch_buf (cl_chans c1 ! h)) ps"
    using handleResponses_result [OF bg(1) md] by blast
  have mem: "(rid, h) \<in> set (cl_recvs (c1\<lparr>cl_chans := chans\<rparr>))" using bg(2) by simp
  have buf: "ch_buf (chans ! h) = [Some q]" using hr(3) mem bg(3,4) q by (auto simp: first_for_def)
  have del: "AList.delete rid (cl_recvs c1) = cl_recvs c"
    using ok(2) bg(2) by (force simp: AList.delete_eq map_of_eq_None_iff filter_id_conv)
  have "cl_conn c1 = cl_conn c" unfolding bg(5) by simp
  then show ?thesis
    using onPackets_responses [OF ps, of cc ds c1 env] hr(1) recv_end_result [OF hr(2) mem, of False] buf del by auto
qed

end
