(* ===== verification/Spec2Isabelle.thy ===== *)
theory Spec2Isabelle
  imports Logger Tcp_Delivery Rpc
begin

text \<open>
  Verification of the Go implementation (\<open>src/go\<close>) of the Longport OpenAPI wire protocol and its client.

  \<^bold>\<open>The program.\<close>  A packet (\<open>packet.go\<close>, \<open>metadata.go\<close>) is packed into a binary frame by one of two protocol versions (\<open>v1/\<close>, \<open>v2/\<close>), with the body
  compressed if it is large (\<open>gzip/\<close>).  A connection (\<open>client/tcp_conn.go\<close>, \<open>client/ws_conn.go\<close>) sends frames from a bounded write queue in one goroutine and turns the
  bytes it receives into packets in another; a third hands the packets to a callback.  The client (\<open>client/client.go\<close>) matches responses with
  requests by id, dispatches pushes, keeps the connection alive, authenticates and reconnects.

  \<^bold>\<open>The theories\<close>, from below:

  \<^item> \<open>Go_Prelude\<close>, \<open>Go_Errors\<close>, \<open>Go_Chan\<close>: what is used of Go.  A computation that may panic has type \<open>'a go\<close>, an option, with \<open>None\<close> the panic;
    errors are values of a datatype; integers of fixed width are words; slices are lists with checked bounds; channels are records with a buffer, a capacity and a flag.
    \<open>Go_Errors\<close> also models \<open>error.go\<close> and \<open>status.go\<close>.
  \<^item> \<open>Protocol\<close> (\<open>protocol.go\<close>), \<open>Protocol_Context\<close> (\<open>context.go\<close>), \<open>Metadata\<close>, \<open>Packet\<close>, \<open>Logger\<close>, \<open>Gzip\<close> model the files of these names.
    The round trips of handshakes, strings and metadata sections, distinctness of request ids, the classification and errors of packets, and bounds of
    decompression are proved there.
  \<^item> \<open>Ring_Buffer\<close>: the interface of the ring buffer library as a locale, with a circular buffer that satisfies it.  \<open>Stream_Reader\<close>, \<open>Frame_Reader\<close>: locales of readers
    that resume where the bytes ran out; how a stream is cut into chunks does not matter to them.
  \<^item> \<open>V1_Header\<close>, \<open>V1\<close> (\<open>v1/header.go\<close>, \<open>v1/v1.go\<close>), \<open>V2_Header\<close>, \<open>V2\<close> (\<open>v2/\<close>): headers, \<open>Pack\<close>, \<open>Unpack\<close> and \<open>UnpackBytes\<close>.  Each is shown equal to a
    closed form, from which follow the exact result on every branch, the round trips, that the readers never panic, that both readers of a version agree, and
    what version 2 does to signed packets with metadata.
  \<^item> \<open>Client_Options\<close> (\<open>client/options.go\<close>), \<open>Client_Conn\<close> (\<open>client/client_conn.go\<close>): options, dialers, close callbacks, and the interface of a protocol version as the locale
    \<open>stream_protocol\<close>, interpreted for both versions.
  \<^item> \<open>Tcp_Conn\<close>: the operations of \<open>tcp_conn.go\<close>, one definition per method, one per iteration of a goroutine and one for what follows its check of \<open>closed\<close>.  \<open>Tcp_Run\<close>: all their interleavings as a step relation,
    its invariant, the abstract byte stream \<open>wire_run\<close> that it refines, flushing, delivery.  \<open>Tcp_Delivery\<close>: closing while packets are delivered, by the place where the reading goroutine is.  \<open>Ws_Conn\<close>: the same for \<open>ws_conn.go\<close>.
  \<^item> \<open>Conn_Iface\<close>: the Go interface \<open>ClientConn\<close> as a record of methods and its contract as the locale \<open>client_conn\<close>, interpreted for both connections and both versions.
  \<^item> \<open>Client\<close>: \<open>client.go\<close>.  \<open>Client_Run\<close>: the results of its operations over any \<open>client_conn\<close>.  \<open>Client_Session\<close>: requests in flight, reconnecting,
    pushes, where the client blocks or panics.  \<open>Client_Handlers\<close>: packets and ticks never crash a client that is in order.
  \<^item> \<open>Rpc\<close> and this theory: a request and its response through all layers.

  \<^bold>\<open>Parameters.\<close>  Libraries that the repository only calls are arguments: \<open>compress/gzip\<close> (contract \<open>gzip_codec\<close>, satisfied by an instance with stored blocks), the ring buffer
  (contract \<open>ring_buffer\<close>), the protobuf and JSON codecs, letter case of non-ASCII text, the order in which \<open>range\<close> visits a map, what a \<open>sync.Pool\<close> hands out, and
  the numbers of the control commands.  The network, the clock, tokens and the packets that arrive while a request waits are arguments of the steps.

  \<^bold>\<open>Loops.\<close>  Read and write loops run over the list of what the network does; frame loops are \<open>partial_function (option)\<close> with a proof that they return.
  The endless reconnect loop takes the list of its attempts' environments and yields \<open>Trying\<close> when the list is used up; with a positive \<open>MaxReconnect\<close>, attempts for what is left
  of the limit and one more are proved to be enough.

  \<^bold>\<open>Concurrency.\<close>  A step of a connection is one call or one iteration of a goroutine, or the part of one that follows its check of \<open>closed\<close>, in any state: the send of \<open>write\<close>, the
  \<open>select\<close> of \<open>writing\<close>, reading and unpacking, a receive and the end of the delivery goroutine.  So a \<open>Close\<close> can come between every check and what follows it.  One step each remain:
  the body of \<open>closeOnce\<close>, taking a frame from the write queue together with the network write, and unpacking the bytes of one read.  In \<open>Tcp_Delivery\<close> the reading goroutine has a program
  counter.  After the network connection was closed, reads and writes on it fail.  Around a call of \<open>Do\<close> the responses handled before and after \<open>recv\<close> registers its
  channel are distinguished.
  Of the client's mutex it is modelled that the goroutine that holds the read lock blocks for good when it asks for the write lock.

  \<^bold>\<open>Not modelled.\<close>  Logging calls inside the connections and the client (they have no effect on their state; the logger itself is modelled); the memory behaviour of
  \<open>sync.Pool\<close> beyond the arbitrary object it returns; data races on fields the code accesses without a lock; timers, of which only the events matter; the example programs under
  \<open>examples/\<close>, which only call the client.
\<close>

section \<open>Requests and responses through all layers\<close>

text \<open>
  C4. A request reaches the server.  When \<open>Do\<close> on a TCP connection of version 1 has sent a request, exactly one frame was added to the write queue, and a server that
  unpacks this frame gets a request packet with the command (its low eight bits: version 1 transmits no more), the id that the client waits for and the encoded body,
  decompressed if it was compressed.
\<close>

theorem request_reaches_server:
  assumes "gzip_codec gz" "- 1 \<le> level" "level \<le> 9"
    and "cl_conn c = Some conn" "tcp_ok valid (v1_protocol rb gz level zr pooled) conn"
    and "do_request lib tcp_ClientConn c req res = Some (c1, Inr rid)"
    and "\<And>m data. rq_Body req = Some m \<Longrightarrow> marshal (lib_enc lib) (ctx_Codec (tc_qctx conn)) m = Some (Inr data) \<Longrightarrow> length data < 2 ^ 32"
    and "ctx_Header server = None"
  shows "\<exists>conn1 frame data md. cl_conn c1 = Some conn1 \<and> ch_buf (tc_writeCh conn1) = ch_buf (tc_writeCh conn) @ [frame] \<and>
    (case rq_Body req of None \<Rightarrow> data = [] | Some m \<Rightarrow> marshal (lib_enc lib) (ctx_Codec (tc_qctx conn)) m = Some (Inr data)) \<and>
    protocolV1_UnpackBytes gz zr' pooled' server frame =
      Some (server\<lparr>ctx_beginUnpack := False\<rparr>, Some \<lparr>pk_Metadata = Some md, pk_Body = data\<rparr>, None) \<and>
    md_Type md = RequestPacket \<and> md_CmdCode md = rq_Cmd req AND 0xff \<and> md_RequestId md = rid"
proof -
  obtain vals data p' frame where d: "rid = snd (NextReqId (tc_qctx conn))"
    "case rq_Body req of None \<Rightarrow> data = [] | Some m \<Rightarrow> marshal (lib_enc lib) (ctx_Codec (tc_qctx conn)) m = Some (Inr data)"
    "protocolV1_Pack gz level pooled (request_packet (ctx_Codec (tc_qctx conn)) (rq_Cmd req) rid vals data)
       [GzipSize (do_MinGzipSize (cl_dialOptions c))] = Some (p', Inr frame)"
    "c1 = c\<lparr>cl_conn := Some (conn\<lparr>tc_qctx := fst (NextReqId (tc_qctx conn)),
       tc_writeCh := (tc_writeCh conn)\<lparr>ch_buf := ch_buf (tc_writeCh conn) @ [frame]\<rparr>\<rparr>)\<rparr>"
    by (rule do_request_tcp [OF assms(4-6)])
  have len: "length data < 2 ^ 32" using d(2) assms(7) by (auto split: option.splits)
  from v1_pack_unpack [OF assms(1-3) _ _ _ d(3) assms(8), of _ zr' pooled']
  show ?thesis using d(2,4) len by (force simp: request_packet_def v1_received_def Metadata_zero_def)
qed

text \<open>
  C5. The response reaches the request.  A client on a TCP connection of version 1 that is between two frames sends a request; the server answers with
  responses that it packs, not to control commands, at most as many as the packet queue holds, one of them with the request's id; their bytes arrive in chunks of any sizes.
  Then the read loop, the goroutine of \<open>OnPacket\<close>, the client's handler and the end of \<open>recv\<close>, run one after the other, give the caller the body, the status
  and the id of the first response with that id.  The pending requests are those from before, and connection and client are again in a state from
  which the next request can start.
\<close>

theorem response_reaches_request:
  assumes "ring_buffer_flat rb content valid flat" "gzip_codec gz" "- 1 \<le> level" "level \<le> 9"
    and "cl_conn c = Some conn" "tcp_ok valid (v1_protocol rb gz level zr pooled) conn" "v1_idle content n conn" "recvs_ok c"
    and "do_request lib tcp_ClientConn c req res = Some (c1, Inr rid)" "map_of (cl_recvs c) rid = None"
    and "list_all (v1_packed gz level pooled') sent" "list_all (plain_response (lib_ctl lib) \<circ> v1_delivered (tc_qctx conn)) sent"
    and "length sent \<le> n" "concat ds = concat (map (snd \<circ> snd) sent)"
    and "find (\<lambda>(p, _, _). packet_id p = Some rid) sent = Some (p, opts, frame)"
  shows "\<exists>conn1 conn2 conn3 calls c2 h c3 c4 q. cl_conn c1 = Some conn1 \<and>
    tcp_reading rb conn1 (map (\<lambda>d. (d, None)) ds) = Some conn2 \<and> tcp_delivers (length sent) conn2 = Some (conn3, calls) \<and>
    recv_begin (c1\<lparr>cl_conn := Some conn3\<rparr>) rid = (c2, h) \<and> onPackets lib tcp_ClientConn dialers c2 calls env = Some (Returns c3) \<and>
    recv_end c3 rid h False = Some (c4, Some q, None) \<and>
    pk_Body q = pk_Body p \<and> packet_id q = Some rid \<and> map_option md_StatusCode (pk_Metadata q) = map_option md_StatusCode (pk_Metadata p) \<and>
    cl_recvs c4 = cl_recvs c \<and> recvs_ok c4 \<and> cl_conn c4 = Some conn3 \<and> v1_idle content n conn3 \<and>
    tcp_ok valid (v1_protocol rb gz level zr pooled) conn3"
proof -
  obtain wch where c1: "c1 = c\<lparr>cl_conn := Some (conn\<lparr>tc_qctx := fst (NextReqId (tc_qctx conn)), tc_writeCh := wch\<rparr>)\<rparr>"
    using do_request_tcp [OF assms(5,6,9)] by metis
  obtain conn1 where conn1: "cl_conn c1 = Some conn1" "tcp_ok valid (v1_protocol rb gz level zr pooled) conn1"
    using client_tcp_v1.do_request_result [OF assms(5,6), of lib req res] assms(9) by auto
  have eq: "conn1 = conn\<lparr>tc_qctx := fst (NextReqId (tc_qctx conn)), tc_writeCh := wch\<rparr>" using conn1(1) c1 by simp
  have "v1_delivered (tc_qctx conn1) = v1_delivered (tc_qctx conn)"
    by (rule ext) (simp add: eq NextReqId_def Let_def v1_delivered_def v1_received_def)
  moreover have idle: "v1_idle content n conn1"
    using assms(7) by (simp add: eq v1_idle_def tcp_closed_def NextReqId_def Let_def current_header_def)
  moreover have "sent \<noteq> []" using assms(15) by auto
  ultimately obtain conn2 conn3 where r: "tcp_reading rb conn1 (map (\<lambda>d. (d, None)) ds) = Some conn2"
    "tcp_delivers (length sent) conn2 = Some (conn3, map (\<lambda>p. (Some p, None)) (map (v1_delivered (tc_qctx conn)) sent))"
    "v1_idle content n conn3" "tcp_ok valid (v1_protocol rb gz level zr pooled) conn3"
    using tcp_v1_responses [OF assms(1-4) conn1(2) idle assms(11,13,14)] by (auto simp: comp_def)
  let ?c = "c1\<lparr>cl_conn := Some conn3\<rparr>"
  have rec: "recvs_ok ?c" "map_of (cl_recvs ?c) rid = None" "cl_recvs ?c = cl_recvs c"
    using assms(8,10) by (simp_all add: c1 recvs_ok_def)
  obtain c2 h where b: "recv_begin ?c rid = (c2, h)" by fastforce
  have ps: "list_all (plain_response (lib_ctl lib)) (map (v1_delivered (tc_qctx conn)) sent)" using assms(12) by (simp add: list_all_iff)
  have q: "find (\<lambda>q. packet_id q = Some rid) (map (v1_delivered (tc_qctx conn)) sent) = Some (v1_delivered (tc_qctx conn) (p, opts, frame))"
    using find_delivered [OF assms(12), of rid] assms(15) by simp
  have "plain_response (lib_ctl lib) (v1_delivered (tc_qctx conn) (p, opts, frame))" "packet_id p = Some rid"
    using assms(12,15) by (auto simp: find_Some_iff list_all_length)
  note del = v1_delivered_response [OF this(1)] this(2)
  show ?thesis
    using request_answered [OF rec(1,2) b ps q, of tcp_ClientConn dialers env] conn1(1) r b rec(3) del by force
qed

text \<open>A session for the examples: a dialled connection whose packets are handled, a request without body, and its response.\<close>

definition example_request :: "unit Request" where
  "example_request = \<lparr>rq_Cmd = 101, rq_Body = None, rq_Metadata = []\<rparr>"

definition example_response :: Packet where
  "example_response = \<lparr>pk_Metadata = Some (Metadata_zero\<lparr>md_Type := ResponsePacket, md_CmdCode := 101, md_RequestId := 1, md_StatusCode := 0\<rparr>),
     pk_Body = [4, 5, 6]\<rparr>"

definition example_response_frame :: bytes where
  "example_response_frame = v1_frame (the (pk_Metadata example_response)) (pk_Body example_response)"

lemma example_response_packed: "v1_packed stored_gz 6 Header_zero (example_response, [], example_response_frame)"
proof -
  have "protocolV1_Pack stored_gz 6 Header_zero example_response [] = Some (example_response, Inr example_response_frame)"
    by (subst protocolV1_Pack_plain [where md = "the (pk_Metadata example_response)"])
       (simp_all add: example_response_def example_response_frame_def NewPackOptions_def v1_pack_plain_def MaxBodyLength_def known_ptype_def Metadata_zero_def)
  then show ?thesis by (simp add: v1_packed_def) (simp add: example_response_def Metadata_zero_def)
qed

lemma example_request_packed:
  "\<exists>frame. protocolV1_Pack stored_gz 6 Header_zero (request_packet 1 101 1 (Some Map.empty) []) [GzipSize 1024] =
     Some (request_packet 1 101 1 (Some Map.empty) [], Inr frame)"
  by (subst protocolV1_Pack_plain [where md = "the (pk_Metadata (request_packet 1 101 1 (Some Map.empty) []))"])
     (simp_all add: request_packet_def NewPackOptions_def GzipSize_def v1_pack_plain_def MaxBodyLength_def known_ptype_def Metadata_zero_def)

lemma example_session:
  obtains conn0 conn :: "(Header, unit, circ, client_cb, unit) tcpConn" and c1 :: example_client where
    "dialTCPConn circ_ops example_manager None example_handshake example_options = Some (Inr conn0)" "tcp_OnPacket conn0 = Some conn"
    "tcp_ok circ_inv example_prot conn" "v1_idle circ_content 1 conn"
    "do_request example_lib tcp_ClientConn ((New () () [])\<lparr>cl_conn := Some conn\<rparr>) example_request None = Some (c1, Inr 1)"
proof -
  let ?q = "\<lparr>ch_buf = [], ch_cap = 16, ch_closed = False\<rparr>"
  let ?ctx = "(NewContext ClientSide)\<lparr>ctx_Codec := 1, ctx_Platform := 9, ctx_Version := 1\<rparr> :: (Header, unit) Context"
  obtain conn0 :: "(Header, unit, circ, client_cb, unit) tcpConn" where
    c0: "dialTCPConn circ_ops example_manager None example_handshake example_options = Some (Inr conn0)" "tcp_ok circ_inv example_prot conn0"
      "\<not> tc_closeOnce conn0" "circ_content (tc_readBuf conn0) = []" "tc_packetCh conn0 = None" "tc_dopts conn0 = example_options" "tc_qctx conn0 = ?ctx"
    using circ.dialled [of example_options example_manager example_handshake, OF example_facts(1,2)]
    by (metis (no_types) example_handshake_def Handshake.select_convs)
  have wch: "tc_writeCh conn0 = \<lparr>ch_buf = [[17, 9]], ch_cap = 16, ch_closed = False\<rparr>"
    using c0(1) example_facts(2,3)
    by (simp add: dialTCPConn_def GetProtocol_def make_chan_def example_options_def newDialOptions_def default_defs tcp_write_def tcp_closed_def
        try_recv_def tcp_enqueue_def try_send_def) auto
  define conn where "conn = conn0\<lparr>tc_onPacketOnce := True, tc_packetCh := Some ?q\<rparr>"
  have once: "\<not> tc_onPacketOnce conn0" using c0(2,5) by (simp add: tcp_ok_def)
  have conn: "tcp_OnPacket conn0 = Some conn"
    using c0(6) once by (simp add: tcp_OnPacket_def make_chan_def conn_def example_options_def newDialOptions_def default_defs)
  have ok: "tcp_ok circ_inv example_prot conn" using tcp_OnPacket_result [OF c0(2)] conn by auto
  have op: "\<not> tcp_closed conn" using tcp_okD(4) [OF ok] c0(3) by (simp add: conn_def)
  have idle: "v1_idle circ_content 1 conn"
    using op c0(4,7) by (simp add: v1_idle_def conn_def current_header_def NewContext_def)
  let ?c = "(New () () [])\<lparr>cl_conn := Some conn\<rparr> :: example_client"
  let ?p = "request_packet 1 101 1 (Some Map.empty) []"
  have nr: "NewRequest (lib_enc example_lib) (tc_qctx conn) 101 NilBody [] = Some (fst (NextReqId (tc_qctx conn)), ?p, None)"
    using c0(7) by (simp add: conn_def NewRequest_def NewPacket_def NextReqId_def NewContext_def WithRequestId_def request_packet_def Metadata_zero_def)
  obtain frame where f: "protocolV1_Pack stored_gz 6 Header_zero ?p [GzipSize 1024] = Some (?p, Inr frame)"
    using example_request_packed by blast
  have sz: "do_MinGzipSize (cl_dialOptions ?c) = 1024" by (simp add: New_def newDialOptions_def default_defs)
  have p: "tc_p conn = example_prot" using tcp_okD(2) [OF ok] .
  obtain conn2 where w: "tcp_Write (conn\<lparr>tc_qctx := fst (NextReqId (tc_qctx conn))\<rparr>) ?p [GzipSize 1024] = Some (conn2, ?p, None)"
    using f op wch p by (simp add: tcp_Write_def tcp_closed_def v1_protocol_def tcp_write_def tcp_enqueue_def try_send_def conn_def)
  have "do_request example_lib tcp_ClientConn ?c example_request None = Some (?c\<lparr>cl_conn := Some conn2\<rparr>, Inr 1)"
    using nr w sz by (simp add: do_request_def example_request_def client_write_def Let_def) (simp add: request_packet_def)
  then show thesis using that [OF c0(1) conn ok idle] by blast
qed

theorem request_reaches_server_witness:
  "\<exists>(conn :: (Header, unit, circ, client_cb, unit) tcpConn) (c1 :: example_client) conn1 frame md.
     do_request example_lib tcp_ClientConn ((New () () [])\<lparr>cl_conn := Some conn\<rparr>) example_request None = Some (c1, Inr 1) \<and>
     cl_conn c1 = Some conn1 \<and> ch_buf (tc_writeCh conn1) = ch_buf (tc_writeCh conn) @ [frame] \<and>
     protocolV1_UnpackBytes stored_gz None Header_zero (NewContext ServerSide :: (Header, unit) Context) frame =
       Some (NewContext ServerSide, Some \<lparr>pk_Metadata = Some md, pk_Body = []\<rparr>, None) \<and> md_CmdCode md = 101 \<and> md_RequestId md = 1"
proof -
  obtain conn0 conn :: "(Header, unit, circ, client_cb, unit) tcpConn" and c1 :: example_client where
    s: "tcp_ok circ_inv example_prot conn"
      "do_request example_lib tcp_ClientConn ((New () () [])\<lparr>cl_conn := Some conn\<rparr>) example_request None = Some (c1, Inr 1)"
    by (rule example_session)
  let ?c = "(New () () [])\<lparr>cl_conn := Some conn\<rparr> :: example_client"
  have "cl_conn ?c = Some conn" "rq_Body example_request = None" "ctx_Header (NewContext ServerSide :: (Header, unit) Context) = None"
    "(NewContext ServerSide :: (Header, unit) Context)\<lparr>ctx_beginUnpack := False\<rparr> = NewContext ServerSide"
    by (simp_all add: example_request_def NewContext_def)
  then show ?thesis
    using request_reaches_server [OF stored.gzip_codec_axioms, of 6 ?c conn circ_inv circ_ops None Header_zero example_lib example_request None c1 1
        "NewContext ServerSide :: (Header, unit) Context" None Header_zero] s
    by (fastforce simp: example_request_def)
qed

theorem response_reaches_request_witness:
  "\<exists>(conn :: (Header, unit, circ, client_cb, unit) tcpConn) (c1 :: example_client) conn1 conn2 conn3 calls c2 h c3 c4 q.
     do_request example_lib tcp_ClientConn ((New () () [])\<lparr>cl_conn := Some conn\<rparr>) example_request None = Some (c1, Inr 1) \<and>
     cl_conn c1 = Some conn1 \<and>
     tcp_reading circ_ops conn1 [(take 4 example_response_frame, None), (drop 4 example_response_frame, None)] = Some conn2 \<and>
     tcp_delivers 1 conn2 = Some (conn3, calls) \<and> recv_begin (c1\<lparr>cl_conn := Some conn3\<rparr>) 1 = (c2, h) \<and>
     onPackets example_lib tcp_ClientConn (Map.empty :: ((Header, unit, circ, client_cb, unit) tcpConn, unit, error option) dialer dialers) c2 calls
       \<lparr>pe_now = 0, pe_res = None, pe_attempts = []\<rparr> = Some (Returns c3) \<and>
     recv_end c3 1 h False = Some (c4, Some q, None) \<and> pk_Body q = [4, 5, 6] \<and> packet_id q = Some 1"
proof -
  obtain conn0 conn :: "(Header, unit, circ, client_cb, unit) tcpConn" and c1 :: example_client where
    s: "tcp_ok circ_inv example_prot conn" "v1_idle circ_content 1 conn"
      "do_request example_lib tcp_ClientConn ((New () () [])\<lparr>cl_conn := Some conn\<rparr>) example_request None = Some (c1, Inr 1)"
    by (rule example_session)
  let ?c = "(New () () [])\<lparr>cl_conn := Some conn\<rparr> :: example_client"
  let ?s = "(example_response, [] :: PackOption list, example_response_frame)"
  have c: "cl_conn ?c = Some conn" "recvs_ok ?c" "map_of (cl_recvs ?c) 1 = None" by (simp_all add: New_def recvs_ok_def)
  have p: "plain_response (lib_ctl example_lib) (v1_delivered (tc_qctx conn) ?s)"
    by (simp add: plain_response_def v1_delivered_def v1_received_def example_response_def Metadata_zero_def example_lib_def example_control_def IsControl_def)
  have f: "find (\<lambda>(p, _, _). packet_id p = Some 1) [?s] = Some ?s" "pk_Body example_response = [4, 5, 6]"
    by (simp_all add: packet_id_def example_response_def)
  show ?thesis
    using response_reaches_request [OF circ.ring_buffer_flat_axioms stored.gzip_codec_axioms, of 6 ?c conn None Header_zero 1 example_lib example_request None
        c1 1 Header_zero "[?s]" "[take 4 example_response_frame, drop 4 example_response_frame]" example_response "[]" example_response_frame
        "Map.empty :: ((Header, unit, circ, client_cb, unit) tcpConn, unit, error option) dialer dialers" "\<lparr>pe_now = 0, pe_res = None, pe_attempts = []\<rparr>"]
      s c p f example_response_packed by fastforce
qed

end
